(* ===== verification/Sealedge_Prelude.thy ===== *)
theory Sealedge_Prelude
  imports Main "HOL-Library.Word"
begin

text \<open>
  Shared vocabulary of the development.

  \<^item> Machine integers are words of their Rust width; a byte buffer is a list of 8-bit words.
  \<^item> A Rust \<^verbatim>\<open>String\<close> or \<^verbatim>\<open>&str\<close> is the list of its UTF-8 bytes, as a \<^typ>\<open>string\<close>:
    \<^term>\<open>length\<close> is Rust's \<^verbatim>\<open>len()\<close> and \<^term>\<open>(@)\<close> is \<^verbatim>\<open>push_str\<close>.
  \<^item> \<^verbatim>\<open>Result<T, E>\<close> is the sum \<open>'e + 'a\<close> with \<^term>\<open>Inl\<close> for \<^verbatim>\<open>Err\<close>; \<open>res_bind\<close> is the \<^verbatim>\<open>?\<close> operator.
  \<^item> The parts of the standard library the sources use are defined here: decimal printing of
    unsigned integers, zero padding, \<^verbatim>\<open>to_be_bytes\<close>, \<^verbatim>\<open>strip_prefix\<close>, \<^verbatim>\<open>chunks\<close>.

  The locales state the contracts that components rely on: \<open>codec\<close> (a decoder inverts an encoder),
  \<open>delimited\<close> (a printed field can be split off unambiguously), \<open>keyed_store\<close> (a hash map)
  and \<open>invariant_system\<close> (an invariant of a step relation).
\<close>

named_theorems text_simps \<open>unfolding rules for printed text\<close>
named_theorems res_simps \<open>inversion rules for the result monad\<close>

type_synonym u8 = "8 word"
type_synonym u16 = "16 word"
type_synonym u32 = "32 word"
type_synonym u64 = "64 word"
type_synonym bytes = "u8 list"

section \<open>Results\<close>

definition res_bind :: "'e + 'a \<Rightarrow> ('a \<Rightarrow> 'e + 'b) \<Rightarrow> 'e + 'b" where
  "res_bind r f = (case r of Inl e \<Rightarrow> Inl e | Inr x \<Rightarrow> f x)"

definition map_err :: "('e \<Rightarrow> 'f) \<Rightarrow> 'e + 'a \<Rightarrow> 'f + 'a" where
  "map_err g r = (case r of Inl e \<Rightarrow> Inl (g e) | Inr x \<Rightarrow> Inr x)"

definition ok_or :: "'e \<Rightarrow> 'a option \<Rightarrow> 'e + 'a" where
  "ok_or e v = (case v of None \<Rightarrow> Inl e | Some x \<Rightarrow> Inr x)"

definition is_ok :: "'e + 'a \<Rightarrow> bool" where
  "is_ok r = (case r of Inl _ \<Rightarrow> False | Inr _ \<Rightarrow> True)"

text \<open>
  An \<^verbatim>\<open>anyhow::Error\<close> is its chain of messages, the outermost context first;
  \<open>with_context\<close> is the \<^verbatim>\<open>context\<close> adapter and \<open>ensure\<close> the macro of that name.
\<close>

type_synonym anyhow = "string list"

definition with_context :: "string \<Rightarrow> anyhow + 'a \<Rightarrow> anyhow + 'a" where
  "with_context c r = map_err (Cons c) r"

definition ensure :: "bool \<Rightarrow> 'e \<Rightarrow> 'e + unit" where
  "ensure b e = (if b then Inr () else Inl e)"

text \<open>Several checks in a row: the first error decides.\<close>

fun all_of :: "('e + unit) list \<Rightarrow> 'e + unit" where
  "all_of [] = Inr ()"
| "all_of (r # rs) = (case r of Inl e \<Rightarrow> Inl e | Inr _ \<Rightarrow> all_of rs)"

lemma res_bind_simps [simp]:
  "res_bind (Inl e) f = Inl e" "res_bind (Inr x) f = f x"
  by (simp_all add: res_bind_def)

lemma res_bind_cong [fundef_cong]:
  "r = r' \<Longrightarrow> (\<And>x. r' = Inr x \<Longrightarrow> f x = g x) \<Longrightarrow> res_bind r f = res_bind r' g"
  by (cases r') auto

lemma map_err_simps [simp]:
  "map_err g (Inl e) = Inl (g e)" "map_err g (Inr x) = Inr x"
  by (simp_all add: map_err_def)

lemma ok_or_simps [simp]:
  "ok_or e None = Inl e" "ok_or e (Some x) = Inr x"
  by (simp_all add: ok_or_def)

lemma is_ok_simps [simp]: "is_ok (Inr x)" "\<not> is_ok (Inl e)"
  by (simp_all add: is_ok_def)

lemma with_context_simps [simp]: "with_context c (Inl e) = Inl (c # e)" "with_context c (Inr x) = Inr x"
  by (simp_all add: with_context_def)

lemma ensure_simps [simp]: "ensure True e = Inr ()" "ensure False e = Inl e"
  by (simp_all add: ensure_def)

lemma ensure_iff [res_simps]: "ensure b e = Inr u \<longleftrightarrow> b" "ensure b e = Inl e' \<longleftrightarrow> \<not> b \<and> e' = e"
  by (auto simp: ensure_def)

lemma res_bind_Inr_iff [res_simps]:
  "res_bind r f = Inr y \<longleftrightarrow> (\<exists>x. r = Inr x \<and> f x = Inr y)"
  by (cases r) auto

lemma res_bind_Inl_iff [res_simps]:
  "res_bind r f = Inl e \<longleftrightarrow> r = Inl e \<or> (\<exists>x. r = Inr x \<and> f x = Inl e)"
  by (cases r) auto

lemma map_err_Inr_iff [res_simps]: "map_err g r = Inr x \<longleftrightarrow> r = Inr x"
  by (cases r) auto

lemma ok_or_Inr_iff [res_simps]: "ok_or e v = Inr x \<longleftrightarrow> v = Some x"
  by (cases v) auto

lemma with_context_iff [res_simps]: "with_context c r = Inr x \<longleftrightarrow> r = Inr x"
  "with_context c r = Inl e \<longleftrightarrow> (\<exists>e'. r = Inl e' \<and> e = c # e')"
  by (cases r; auto)+

lemma all_of_Cons_iff [res_simps]: "all_of (r # rs) = Inr () \<longleftrightarrow> r = Inr () \<and> all_of rs = Inr ()"
  "all_of (r # rs) = Inl e \<longleftrightarrow> r = Inl e \<or> r = Inr () \<and> all_of rs = Inl e"
  by (auto split: sum.splits)

lemma is_ok_iff [res_simps]: "is_ok r \<longleftrightarrow> (\<exists>x. r = Inr x)"
  by (cases r) auto

section \<open>Strings and byte strings\<close>

definition str_bytes :: "string \<Rightarrow> bytes" where
  "str_bytes s = map (\<lambda>c. word_of_nat (of_char c)) s"

definition starts_with :: "string \<Rightarrow> string \<Rightarrow> bool" where
  "starts_with p s \<longleftrightarrow> take (length p) s = p"

definition ends_with :: "string \<Rightarrow> string \<Rightarrow> bool" where
  "ends_with p s \<longleftrightarrow> length p \<le> length s \<and> drop (length s - length p) s = p"

definition strip_prefix :: "string \<Rightarrow> string \<Rightarrow> string option" where
  "strip_prefix p s = (if starts_with p s then Some (drop (length p) s) else None)"

definition bytes_str :: "bytes \<Rightarrow> string" where
  "bytes_str b = map (\<lambda>w. char_of (unat w)) b"

lemma unat_byte_less [simp]: "unat (w :: u8) < 256"
  using unsigned_less [of w, where 'a = nat] by simp

lemma unat_u32_less [simp]: "unat (w :: u32) < 4294967296"
  using unsigned_less [of w, where 'a = nat] by simp

lemma unat_u64_less [simp]: "unat (w :: u64) < 18446744073709551616"
  using unsigned_less [of w, where 'a = nat] by simp

lemma unat_of_char [simp]: "unat (word_of_nat (of_char c) :: u8) = of_char c"
  by (simp add: unat_of_nat)

lemma bytes_str_bytes [simp]: "bytes_str (str_bytes s) = s"
  by (induction s) (simp_all add: bytes_str_def str_bytes_def)

lemma str_bytes_str [simp]: "str_bytes (bytes_str b) = b"
proof (induction b)
  case (Cons w b)
  have "word_of_nat (unat w mod 256) = w"
    by simp
  with Cons show ?case by (simp add: bytes_str_def str_bytes_def)
qed (simp add: bytes_str_def str_bytes_def)

lemma str_bytes_inj [simp]: "str_bytes s = str_bytes t \<longleftrightarrow> s = t"
  by (metis bytes_str_bytes)

lemma str_bytes_append [simp]: "str_bytes (s @ t) = str_bytes s @ str_bytes t"
  by (simp add: str_bytes_def)

lemma length_str_bytes [simp]: "length (str_bytes s) = length s"
  by (simp add: str_bytes_def)

lemma length_bytes_str [simp]: "length (bytes_str b) = length b"
  by (simp add: bytes_str_def)

lemma starts_with_append [simp]: "starts_with p (p @ s)"
  by (simp add: starts_with_def)

lemma starts_with_iff: "starts_with p s \<longleftrightarrow> (\<exists>t. s = p @ t)"
  by (auto simp: starts_with_def) (metis append_take_drop_id)

lemma strip_prefix_append [simp]: "strip_prefix p (p @ s) = Some s"
  by (simp add: strip_prefix_def)

lemma strip_prefix_Some_iff: "strip_prefix p s = Some t \<longleftrightarrow> s = p @ t"
  by (auto simp: strip_prefix_def starts_with_iff)

lemma ends_with_append [simp]: "ends_with p (s @ p)"
  by (simp add: ends_with_def)

section \<open>Printed integers\<close>

text \<open>Rust's \<^verbatim>\<open>{}\<close> for unsigned integers, and \<^verbatim>\<open>{:05}\<close> (zero padding to width five).\<close>

definition digit :: "nat \<Rightarrow> char" where
  "digit d = char_of (48 + d)"

definition is_digit :: "char \<Rightarrow> bool" where
  "is_digit c \<longleftrightarrow> 48 \<le> (of_char c :: nat) \<and> (of_char c :: nat) \<le> 57"

fun show_nat :: "nat \<Rightarrow> string" where
  "show_nat n = (if n < 10 then [digit n] else show_nat (n div 10) @ [digit (n mod 10)])"

declare show_nat.simps [simp del]

definition read_nat :: "string \<Rightarrow> nat" where
  "read_nat s = foldl (\<lambda>a c. 10 * a + (of_char c - 48)) 0 s"

definition pad_left :: "nat \<Rightarrow> string \<Rightarrow> string" where
  "pad_left w s = replicate (w - length s) (CHR ''0'') @ s"

definition show_nat05 :: "nat \<Rightarrow> string" where
  "show_nat05 n = pad_left 5 (show_nat n)"

lemma of_char_digit: "d < 10 \<Longrightarrow> of_char (digit d) = 48 + (d :: nat)"
  by (simp add: digit_def)

lemma is_digit_digit: "d < 10 \<Longrightarrow> is_digit (digit d)"
  by (simp add: is_digit_def of_char_digit)

lemma show_nat_digits: "c \<in> set (show_nat n) \<Longrightarrow> is_digit c"
proof (induction n rule: show_nat.induct)
  case (1 n)
  then show ?case
    by (subst (asm) (2) show_nat.simps) (auto simp: is_digit_digit split: if_splits)
qed

lemma read_show_nat [simp]: "read_nat (show_nat n) = n"
proof (induction n rule: show_nat.induct)
  case (1 n)
  show ?case
  proof (cases "n < 10")
    case True
    then show ?thesis by (subst show_nat.simps) (simp add: read_nat_def of_char_digit)
  next
    case False
    then have "read_nat (show_nat (n div 10)) = n div 10" using 1 by simp
    moreover have "n mod 10 < 10" by simp
    ultimately show ?thesis using False
      by (subst show_nat.simps) (simp add: read_nat_def of_char_digit)
  qed
qed

lemma show_nat_inj [simp]: "show_nat m = show_nat n \<longleftrightarrow> m = n"
  by (metis read_show_nat)

lemma show_nat_nonempty [simp]: "show_nat n \<noteq> []"
  by (subst show_nat.simps) simp

lemma read_nat_pad: "read_nat (pad_left w s) = read_nat s"
proof -
  have "foldl (\<lambda>a c. 10 * a + (of_char c - 48)) 0 (replicate k (CHR ''0'')) = (0::nat)" for k
    by (induction k) simp_all
  then show ?thesis by (simp add: read_nat_def pad_left_def)
qed

lemma read_nat_append: "read_nat (s @ t) = read_nat s * 10 ^ length t + read_nat t"
proof (induction t rule: rev_induct)
  case (snoc c t)
  then show ?case by (simp add: read_nat_def algebra_simps flip: append_assoc)
qed (simp add: read_nat_def)

lemma length_show_nat: "n < 10 ^ k \<Longrightarrow> 0 < k \<Longrightarrow> length (show_nat n) \<le> k"
proof (induction k arbitrary: n)
  case (Suc k)
  show ?case
  proof (cases "n < 10")
    case False
    then have "k \<noteq> 0" "n div 10 < 10 ^ k" using Suc.prems by (auto simp: div_less_iff_less_mult mult.commute intro!: Nat.gr0I)
    then show ?thesis using Suc.IH [of "n div 10"] False by (simp add: show_nat.simps [of n])
  qed (simp add: show_nat.simps [of n])
qed simp

lemma show_nat05_inj [simp]: "show_nat05 m = show_nat05 n \<longleftrightarrow> m = n"
  by (metis show_nat05_def read_nat_pad read_show_nat)

text \<open>The em dash of the messages, in UTF-8.\<close>

definition em_dash :: string where "em_dash = [CHR 0xE2, CHR 0x80, CHR 0x94]"

section \<open>Byte order\<close>

text \<open>\<open>nat_be k n\<close> is the \<open>k\<close>-byte big-endian form of \<open>n\<close> (Rust's \<^verbatim>\<open>to_be_bytes\<close> on a \<open>k\<close>-byte integer).\<close>

fun nat_be :: "nat \<Rightarrow> nat \<Rightarrow> bytes" where
  "nat_be 0 n = []"
| "nat_be (Suc k) n = nat_be k (n div 256) @ [word_of_nat (n mod 256)]"

definition be_nat :: "bytes \<Rightarrow> nat" where
  "be_nat b = foldl (\<lambda>a w. 256 * a + unat w) 0 b"

definition u32_to_be_bytes :: "u32 \<Rightarrow> bytes" where
  "u32_to_be_bytes w = nat_be 4 (unat w)"

definition u32_from_be_bytes :: "bytes \<Rightarrow> u32" where
  "u32_from_be_bytes b = word_of_nat (be_nat b)"

definition u64_to_be_bytes :: "u64 \<Rightarrow> bytes" where
  "u64_to_be_bytes w = nat_be 8 (unat w)"

definition u64_from_be_bytes :: "bytes \<Rightarrow> u64" where
  "u64_from_be_bytes b = word_of_nat (be_nat b)"

lemma length_nat_be [simp]: "length (nat_be k n) = k"
  by (induction k arbitrary: n) auto

lemma be_nat_append [simp]: "be_nat (b @ [w]) = 256 * be_nat b + unat w"
  by (simp add: be_nat_def)

lemma be_nat_Nil [simp]: "be_nat [] = 0"
  by (simp add: be_nat_def)

lemma be_nat_be: "be_nat (nat_be k n) = n mod 256 ^ k"
proof (induction k arbitrary: n)
  case (Suc k)
  have "unat (word_of_nat (n mod 256) :: u8) = n mod 256"
    by (simp add: unat_of_nat)
  then show ?case
    using mod_mult2_eq [of n 256 "256 ^ k"] by (simp add: Suc algebra_simps)
qed simp

lemma nat_be_nat: "nat_be (length b) (be_nat b) = b"
proof (induction b rule: rev_induct)
  case (snoc w b)
  have "unat w < 256" by simp
  with snoc show ?case by simp
qed simp

lemma be_nat_less: "be_nat b < 256 ^ length b"
proof (induction b rule: rev_induct)
  case (snoc w b)
  then have "256 * Suc (be_nat b) \<le> 256 * 256 ^ length b"
    by (intro mult_le_mono2) simp
  moreover have "unat w < 256" by (rule unat_byte_less)
  ultimately show ?case by (simp del: unat_byte_less)
qed simp

lemma length_u32_to_be_bytes [simp]: "length (u32_to_be_bytes w) = 4"
  by (simp add: u32_to_be_bytes_def)

lemma length_u64_to_be_bytes [simp]: "length (u64_to_be_bytes w) = 8"
  by (simp add: u64_to_be_bytes_def)

lemma u32_be_roundtrip [simp]: "u32_from_be_bytes (u32_to_be_bytes w) = w"
  by (simp add: u32_from_be_bytes_def u32_to_be_bytes_def be_nat_be)

lemma u64_be_roundtrip [simp]: "u64_from_be_bytes (u64_to_be_bytes w) = w"
  by (simp add: u64_from_be_bytes_def u64_to_be_bytes_def be_nat_be)

lemma u32_to_from_be [simp]: "length b = 4 \<Longrightarrow> u32_to_be_bytes (u32_from_be_bytes b) = b"
  using be_nat_less [of b] nat_be_nat [of b]
  by (simp add: u32_from_be_bytes_def u32_to_be_bytes_def unat_of_nat)

lemma u64_to_from_be [simp]: "length b = 8 \<Longrightarrow> u64_to_be_bytes (u64_from_be_bytes b) = b"
  using be_nat_less [of b] nat_be_nat [of b]
  by (simp add: u64_from_be_bytes_def u64_to_be_bytes_def unat_of_nat)

lemma u32_to_be_bytes_inj [simp]: "u32_to_be_bytes v = u32_to_be_bytes w \<longleftrightarrow> v = w"
  by (metis u32_be_roundtrip)

lemma u64_to_be_bytes_inj [simp]: "u64_to_be_bytes v = u64_to_be_bytes w \<longleftrightarrow> v = w"
  by (metis u64_be_roundtrip)

section \<open>Slices\<close>

text \<open>Rust's \<^verbatim>\<open>slice::chunks(n)\<close>; a chunk size of zero panics in Rust and gives no chunk here.\<close>

function chunks :: "nat \<Rightarrow> 'a list \<Rightarrow> 'a list list" where
  "chunks n xs = (if n = 0 \<or> xs = [] then [] else take n xs # chunks n (drop n xs))"
  by pat_completeness auto
termination
  by (relation "measure (\<lambda>(n, xs). length xs)") auto

declare chunks.simps [simp del]

lemma chunks_Nil [simp]: "chunks n [] = []"
  by (simp add: chunks.simps)

lemma chunks_step: "0 < n \<Longrightarrow> xs \<noteq> [] \<Longrightarrow> chunks n xs = take n xs # chunks n (drop n xs)"
  by (simp add: chunks.simps [of n xs])

lemma concat_chunks [simp]: "0 < n \<Longrightarrow> concat (chunks n xs) = xs"
proof (induction n xs rule: chunks.induct)
  case (1 n xs)
  then show ?case by (cases "xs = []") (auto simp: chunks_step)
qed

lemma chunks_bounds: "c \<in> set (chunks n xs) \<Longrightarrow> c \<noteq> [] \<and> length c \<le> n"
proof (induction n xs rule: chunks.induct)
  case (1 n xs)
  show ?case
  proof (cases "n = 0 \<or> xs = []")
    case True
    with "1.prems" show ?thesis by (auto simp: chunks.simps [of n xs])
  next
    case False
    with 1 show ?thesis by (auto simp: chunks_step)
  qed
qed

lemma chunks_append: "length c = n \<Longrightarrow> 0 < n \<Longrightarrow> chunks n (c @ xs) = c # chunks n xs"
  by (subst chunks.simps) auto

lemma length_chunks: "0 < n \<Longrightarrow> length (chunks n xs) = (length xs + n - 1) div n"
proof (induction n xs rule: chunks.induct)
  case (1 n xs)
  show ?case
  proof (cases "xs = []")
    case False
    with 1 have IH: "length (chunks n (drop n xs)) = (length xs - n + n - 1) div n" by simp
    show ?thesis
    proof (cases "n \<le> length xs")
      case True
      then have "(length xs + n - 1) div n = Suc ((length xs - 1) div n)"
        using "1.prems" False div_add_self2 [of n "length xs - 1"]
        by (simp add: Suc_leI)
      with True IH False "1.prems" show ?thesis by (simp add: chunks_step)
    next
      case short: False
      then have "(length xs + n - 1) div n = 1"
        using False "1.prems" by (cases xs) (auto intro!: div_nat_eqI)
      with short False "1.prems" show ?thesis by (simp add: chunks_step)
    qed
  qed (use "1.prems" in simp)
qed

section \<open>Contracts\<close>

text \<open>A decoder inverts an encoder on well-formed values; a strict codec accepts nothing else.\<close>

locale codec =
  fixes enc :: "'a \<Rightarrow> 'b"
    and dec :: "'b \<Rightarrow> 'a option"
    and wf :: "'a \<Rightarrow> bool"
  assumes dec_enc: "wf x \<Longrightarrow> dec (enc x) = Some x"
begin

lemma enc_inj: "wf x \<Longrightarrow> wf y \<Longrightarrow> enc x = enc y \<Longrightarrow> x = y"
  by (metis dec_enc option.inject)

end

locale strict_codec = codec +
  assumes dec_wf: "dec b = Some x \<Longrightarrow> wf x"
    and enc_dec: "dec b = Some x \<Longrightarrow> enc x = b"
begin

lemma dec_Some_iff: "dec b = Some x \<longleftrightarrow> wf x \<and> enc x = b"
  using dec_enc dec_wf enc_dec by blast

lemma dec_inj: "dec a = Some x \<Longrightarrow> dec b = Some x \<Longrightarrow> a = b"
  using enc_dec by metis

end

text \<open>
  A printed field is delimited when the text that follows it (which satisfies \<open>stop\<close>) never makes
  the split ambiguous: equal texts have equal fields and equal rests.
\<close>

locale delimited =
  fixes enc :: "'a \<Rightarrow> string"
    and good :: "'a \<Rightarrow> bool"
    and stop :: "string \<Rightarrow> bool"
  assumes split: "good x \<Longrightarrow> good y \<Longrightarrow> stop r \<Longrightarrow> stop s \<Longrightarrow> enc x @ r = enc y @ s \<Longrightarrow> x = y \<and> r = s"
begin

lemma enc_eq: "good x \<Longrightarrow> good y \<Longrightarrow> stop [] \<Longrightarrow> enc x = enc y \<Longrightarrow> x = y"
  using split [of x y "[]" "[]"] by simp

end

text \<open>The contract of a hash map, as the sources use \<^verbatim>\<open>HashMap\<close>: lookups see the last insertion.\<close>

locale keyed_store =
  fixes lookup :: "'s \<Rightarrow> 'k \<Rightarrow> 'v option"
    and insert :: "'k \<Rightarrow> 'v \<Rightarrow> 's \<Rightarrow> 's"
    and remove :: "'k \<Rightarrow> 's \<Rightarrow> 's"
  assumes lookup_insert: "lookup (insert k v s) k' = (if k' = k then Some v else lookup s k')"
    and lookup_remove: "lookup (remove k s) k' = (if k' = k then None else lookup s k')"
begin

lemma insert_overrides: "lookup (insert k v (insert k w s)) = lookup (insert k v s)"
  by (rule ext) (simp add: lookup_insert)

lemma insert_commute: "k \<noteq> l \<Longrightarrow> lookup (insert k v (insert l w s)) = lookup (insert l w (insert k v s))"
  by (rule ext) (simp add: lookup_insert)

lemma remove_insert: "lookup (remove k (insert k v s)) = lookup (remove k s)"
  by (rule ext) (simp add: lookup_insert lookup_remove)

end

text \<open>An invariant of a step relation holds in every state reachable from an initial one.\<close>

locale invariant_system =
  fixes init :: "'s \<Rightarrow> bool"
    and step :: "'s \<Rightarrow> 's \<Rightarrow> bool"
    and inv :: "'s \<Rightarrow> bool"
  assumes inv_init: "init s \<Longrightarrow> inv s"
    and inv_step: "inv s \<Longrightarrow> step s t \<Longrightarrow> inv t"
begin

lemma inv_steps: "step\<^sup>*\<^sup>* s t \<Longrightarrow> inv s \<Longrightarrow> inv t"
  by (induction rule: rtranclp_induct) (auto intro: inv_step)

lemma inv_reachable: "init s \<Longrightarrow> step\<^sup>*\<^sup>* s t \<Longrightarrow> inv t"
  by (blast intro: inv_init inv_steps)

end

text \<open>A relation whose diverging steps can be joined in one step reaches its final state on every path, and on all paths in the same number of steps.\<close>

locale uniform_steps =
  fixes step :: "'s \<Rightarrow> 's \<Rightarrow> bool"
  assumes diamond: "step s t \<Longrightarrow> step s u \<Longrightarrow> t = u \<or> (\<exists>v. step t v \<and> step u v)"
begin

lemma descent:
  assumes "(step ^^ n) s f" "\<nexists>t. step f t" "step s t"
  shows "\<exists>m. n = Suc m \<and> (step ^^ m) t f"
  using assms
proof (induction n arbitrary: s t)
  case (Suc n)
  from Suc.prems(1) obtain u where u: "step s u" "(step ^^ n) u f" by (blast dest: relpowp_Suc_D2)
  show ?case
  proof (cases "t = u")
    case False
    with diamond [OF Suc.prems(3) u(1)] obtain v where v: "step t v" "step u v" by blast
    from Suc.IH [OF u(2) Suc.prems(2) v(2)] obtain m where "n = Suc m" "(step ^^ m) v f" by blast
    with v(1) show ?thesis by (blast intro: relpowp_Suc_I2)
  qed (use u in simp)
qed auto

lemma descents:
  assumes "(step ^^ n) s f" "\<nexists>t. step f t"
  shows "(step ^^ k) s c \<Longrightarrow> k \<le> n \<and> (step ^^ (n - k)) c f"
proof (induction k arbitrary: c)
  case (Suc k)
  from Suc.prems obtain b where b: "(step ^^ k) s b" "step b c" by (rule relpowp_Suc_E)
  have IH: "k \<le> n" "(step ^^ (n - k)) b f" using Suc.IH [OF b(1)] by simp_all
  obtain m where m: "n - k = Suc m" "(step ^^ m) c f" using descent [OF IH(2) assms(2) b(2)] by blast
  have "n - Suc k = m" "Suc k \<le> n" using m(1) by simp_all
  with m(2) show ?case by simp
next
  case 0
  then have "s = c" by simp
  with assms(1) show ?case by simp
qed

end

section \<open>Instances of the contracts for printed and packed integers\<close>

definition not_starting :: "(char \<Rightarrow> bool) \<Rightarrow> string \<Rightarrow> bool" where
  "not_starting P r = (case r of [] \<Rightarrow> True | c # _ \<Rightarrow> \<not> P c)"

lemma not_starting_simps [simp]: "not_starting P []" "not_starting P (c # r) \<longleftrightarrow> \<not> P c"
  by (simp_all add: not_starting_def)

lemma class_split:
  assumes "list_all P a" "list_all P b" "not_starting P r" "not_starting P s" "a @ r = b @ s"
  shows "a = b \<and> r = s"
proof -
  have *: "takeWhile P (x @ t) = x" if "list_all P x" "not_starting P t" for x t
    using that by (cases t) (auto simp: list_all_iff takeWhile_append)
  have "a = b" using * [OF assms(1,3)] * [OF assms(2,4)] assms(5) by metis
  with assms(5) show ?thesis by simp
qed

interpretation printed_nat: delimited show_nat "\<lambda>_. True" "not_starting is_digit"
proof
  fix x y :: nat and r s
  assume "not_starting is_digit r" "not_starting is_digit s" "show_nat x @ r = show_nat y @ s"
  then have "show_nat x = show_nat y \<and> r = s"
    by (intro class_split [of is_digit]) (auto simp: list_all_iff show_nat_digits)
  then show "x = y \<and> r = s" by simp
qed

interpretation u32_be: strict_codec u32_to_be_bytes
  "\<lambda>b. if length b = 4 then Some (u32_from_be_bytes b) else None" "\<lambda>_. True"
  by unfold_locales (auto split: if_splits)

interpretation u64_be: strict_codec u64_to_be_bytes
  "\<lambda>b. if length b = 8 then Some (u64_from_be_bytes b) else None" "\<lambda>_. True"
  by unfold_locales (auto split: if_splits)

end
