(* ===== verification/Crates.thy ===== *)
theory Crates
  imports Sealedge_Prelude
begin

text \<open>
  Third-party crates. The sources call BLAKE3, hex, base64, serde_json, ed25519-dalek, p256 and
  other crates whose code is not part of the repository. Each such function is a field of the
  record \<open>crates\<close>, which every definition that needs one takes as an argument; the theorems that
  rely on documented behaviour of a crate name it as a hypothesis, one of the predicates below.

  A fallible crate call returns a sum whose left side is the text the error prints
  (its \<^verbatim>\<open>Display\<close>), because the sources splice that text into their own messages.
  \<open>sample_crates\<close> is one concrete record for which all hypotheses hold; the witnesses use it.
\<close>

record crates =
  blake3_hash :: "bytes \<Rightarrow> bytes"
  hex_encode :: "bytes \<Rightarrow> string"
  hex_decode :: "string \<Rightarrow> string + bytes"
  b64_encode :: "bytes \<Rightarrow> string"
  b64_decode :: "string \<Rightarrow> string + bytes"
  json_str :: "string \<Rightarrow> string"
  json_strs :: "string list \<Rightarrow> string"
  ed_public :: "bytes \<Rightarrow> bytes"
  ed_key :: "bytes \<Rightarrow> string + bytes"
  ed_sign :: "bytes \<Rightarrow> bytes \<Rightarrow> bytes"
  ed_verify :: "bytes \<Rightarrow> bytes \<Rightarrow> bytes \<Rightarrow> string + unit"
  p256_key :: "bytes \<Rightarrow> string + bytes"
  p256_der :: "bytes \<Rightarrow> string + bytes"
  p256_verify :: "bytes \<Rightarrow> bytes \<Rightarrow> bytes \<Rightarrow> string + unit"
  aes_seal :: "bytes \<Rightarrow> bytes \<Rightarrow> bytes \<Rightarrow> bytes \<Rightarrow> string + bytes"
  aes_open :: "bytes \<Rightarrow> bytes \<Rightarrow> bytes \<Rightarrow> bytes \<Rightarrow> string + bytes"
  xchacha_seal :: "bytes \<Rightarrow> bytes \<Rightarrow> bytes \<Rightarrow> bytes \<Rightarrow> string + bytes"
  xchacha_open :: "bytes \<Rightarrow> bytes \<Rightarrow> bytes \<Rightarrow> bytes \<Rightarrow> string + bytes"
  pbkdf2 :: "bytes \<Rightarrow> bytes \<Rightarrow> u32 \<Rightarrow> bytes"
  hkdf :: "bytes option \<Rightarrow> bytes \<Rightarrow> bytes \<Rightarrow> nat \<Rightarrow> bytes"
  json_object :: "(string \<times> string) list \<Rightarrow> string"

section \<open>Documented behaviour, as hypotheses\<close>

text \<open>BLAKE3 digests are 32 bytes long.\<close>

definition blake3_len :: "'x crates_scheme \<Rightarrow> bool" where
  "blake3_len X \<longleftrightarrow> (\<forall>b. length (blake3_hash X b) = 32)"

text \<open>
  No two of the given inputs collide. Collision freedom on all byte strings cannot hold for a
  32-byte digest, so the theorems name the finite set of preimages they are about.
\<close>

definition no_collision :: "'x crates_scheme \<Rightarrow> bytes set \<Rightarrow> bool" where
  "no_collision X S \<longleftrightarrow> inj_on (blake3_hash X) S"

lemma no_collisionD: "no_collision X S \<Longrightarrow> a \<in> S \<Longrightarrow> b \<in> S \<Longrightarrow> blake3_hash X a = blake3_hash X b \<Longrightarrow> a = b"
  by (simp add: no_collision_def inj_on_eq_iff)

lemma no_collision_mono: "no_collision X S \<Longrightarrow> T \<subseteq> S \<Longrightarrow> no_collision X T"
  by (auto simp: no_collision_def intro: inj_on_subset)

lemma no_collision_list: "distinct (map (blake3_hash X) xs) \<Longrightarrow> no_collision X (set xs)"
  by (simp add: no_collision_def distinct_map)

text \<open>Hexadecimal and base64 text decode to the bytes they encode; hex doubles the length.\<close>

definition hex_ok :: "'x crates_scheme \<Rightarrow> bool" where
  "hex_ok X \<longleftrightarrow> (\<forall>b. hex_decode X (hex_encode X b) = Inr b) \<and> (\<forall>b. length (hex_encode X b) = 2 * length b)"

definition b64_ok :: "'x crates_scheme \<Rightarrow> bool" where
  "b64_ok X \<longleftrightarrow> (\<forall>b. b64_decode X (b64_encode X b) = Inr b)"

lemma hex_ok_simps: "hex_ok X \<Longrightarrow> hex_decode X (hex_encode X b) = Inr b"
  "hex_ok X \<Longrightarrow> length (hex_encode X b) = 2 * length b"
  by (simp_all add: hex_ok_def)

lemma hex_ok_inj:
  assumes "hex_ok X" shows "hex_encode X a = hex_encode X b \<longleftrightarrow> a = b"
proof
  assume "hex_encode X a = hex_encode X b"
  then have "hex_decode X (hex_encode X a) = hex_decode X (hex_encode X b)" by (simp only:)
  then show "a = b" by (simp add: hex_ok_simps(1) [OF assms])
qed simp

lemma b64_ok_simp: "b64_ok X \<Longrightarrow> b64_decode X (b64_encode X b) = Inr b"
  by (simp add: b64_ok_def)

lemma b64_ok_inj:
  assumes "b64_ok X" shows "b64_encode X a = b64_encode X b \<longleftrightarrow> a = b"
proof
  assume "b64_encode X a = b64_encode X b"
  then have "b64_decode X (b64_encode X a) = b64_decode X (b64_encode X b)" by (simp only:)
  then show "a = b" by (simp add: b64_ok_simp [OF assms])
qed simp

text \<open>
  A JSON string literal is self-delimiting: it begins and ends with a quote and escapes the quotes
  inside, so two texts that begin with one have the same literal and the same rest. The same holds
  for a JSON array of strings, between its brackets.
\<close>

definition json_ok :: "'x crates_scheme \<Rightarrow> bool" where
  "json_ok X \<longleftrightarrow>
    (\<forall>x y r s. json_str X x @ r = json_str X y @ s \<longrightarrow> x = y \<and> r = s) \<and>
    (\<forall>x. \<exists>t. json_str X x = CHR 0x22 # t) \<and>
    (\<forall>x y r s. json_strs X x @ r = json_strs X y @ s \<longrightarrow> x = y \<and> r = s)"

lemma json_str_split: "json_ok X \<Longrightarrow> json_str X x @ r = json_str X y @ s \<longleftrightarrow> x = y \<and> r = s"
  unfolding json_ok_def by blast

lemma json_str_inj: "json_ok X \<Longrightarrow> json_str X x = json_str X y \<longleftrightarrow> x = y"
  using json_str_split [of X x "[]" y "[]"] by simp

lemma json_strs_split: "json_ok X \<Longrightarrow> json_strs X x @ r = json_strs X y @ s \<longleftrightarrow> x = y \<and> r = s"
  unfolding json_ok_def by blast

lemma json_str_head: "json_ok X \<Longrightarrow> \<exists>t. json_str X x = CHR 0x22 # t"
  unfolding json_ok_def by blast

text \<open>
  Ed25519: public keys and signatures have 32 and 64 bytes, a derived public key parses as itself,
  and an honest signature verifies under the signer's public key.
\<close>

definition ed_ok :: "'x crates_scheme \<Rightarrow> bool" where
  "ed_ok X \<longleftrightarrow>
    (\<forall>sk. length (ed_public X sk) = 32 \<and> ed_key X (ed_public X sk) = Inr (ed_public X sk)) \<and>
    (\<forall>sk m. length (ed_sign X sk m) = 64) \<and>
    (\<forall>sk m. ed_verify X (ed_public X sk) m (ed_sign X sk m) = Inr ())"

lemma ed_ok_simps:
  "ed_ok X \<Longrightarrow> length (ed_public X sk) = 32"
  "ed_ok X \<Longrightarrow> ed_key X (ed_public X sk) = Inr (ed_public X sk)"
  "ed_ok X \<Longrightarrow> length (ed_sign X sk m) = 64"
  "ed_ok X \<Longrightarrow> ed_verify X (ed_public X sk) m (ed_sign X sk m) = Inr ()"
  by (simp_all add: ed_ok_def)

text \<open>
  An AEAD opens what it sealed under the same key, nonce and associated data; what it opens is a
  sealing of the plaintext it returns; a sealing is 16 bytes longer than the plaintext.
\<close>

definition aead_ok ::
  "(bytes \<Rightarrow> bytes \<Rightarrow> bytes \<Rightarrow> bytes \<Rightarrow> string + bytes) \<Rightarrow> (bytes \<Rightarrow> bytes \<Rightarrow> bytes \<Rightarrow> bytes \<Rightarrow> string + bytes) \<Rightarrow> bool" where
  "aead_ok seal unseal \<longleftrightarrow>
    (\<forall>k n p a c. seal k n p a = Inr c \<longleftrightarrow> unseal k n c a = Inr p) \<and>
    (\<forall>k n p a c. seal k n p a = Inr c \<longrightarrow> length c = length p + 16)"

lemma aead_ok_open: "aead_ok seal unseal \<Longrightarrow> seal k n p a = Inr c \<Longrightarrow> unseal k n c a = Inr p"
  unfolding aead_ok_def by blast

lemma aead_ok_seal: "aead_ok seal unseal \<Longrightarrow> unseal k n c a = Inr p \<Longrightarrow> seal k n p a = Inr c"
  unfolding aead_ok_def by blast

lemma aead_ok_iff: "aead_ok seal unseal \<Longrightarrow> unseal k n c a = Inr p \<longleftrightarrow> seal k n p a = Inr c"
  unfolding aead_ok_def by blast

lemma aead_ok_length: "aead_ok seal unseal \<Longrightarrow> seal k n p a = Inr c \<Longrightarrow> length c = length p + 16"
  unfolding aead_ok_def by blast

text \<open>The text of a JSON object with the given string entries determines the entries.\<close>

definition json_object_ok :: "'x crates_scheme \<Rightarrow> bool" where
  "json_object_ok X \<longleftrightarrow> inj (json_object X)"

section \<open>A concrete instance for the witnesses\<close>

definition hex_digit :: "nat \<Rightarrow> char" where
  "hex_digit d = (if d < 10 then char_of (48 + d) else char_of (87 + d))"

definition hex_value :: "char \<Rightarrow> nat option" where
  "hex_value c = (let n = of_char c in
     if 48 \<le> n \<and> n \<le> 57 then Some (n - 48) else if 97 \<le> n \<and> n \<le> 102 then Some (n - 87) else None)"

fun sample_hex :: "bytes \<Rightarrow> string" where
  "sample_hex [] = []"
| "sample_hex (w # b) = hex_digit (unat w div 16) # hex_digit (unat w mod 16) # sample_hex b"

fun sample_unhex :: "string \<Rightarrow> string + bytes" where
  "sample_unhex [] = Inr []"
| "sample_unhex [c] = Inl ''Odd number of digits''"
| "sample_unhex (c # d # s) =
     (case (hex_value c, hex_value d) of
        (Some h, Some l) \<Rightarrow> res_bind (sample_unhex s) (\<lambda>b. Inr (word_of_nat (16 * h + l) # b))
      | _ \<Rightarrow> Inl ''Invalid character'')"

definition is_special :: "char \<Rightarrow> bool" where
  "is_special c \<longleftrightarrow> c = CHR 0x22 \<or> c = CHR 0x5C"

fun sample_escape :: "string \<Rightarrow> string" where
  "sample_escape [] = []"
| "sample_escape (c # s) =
     (if is_special c then CHR 0x5C # c # sample_escape s else c # sample_escape s)"

definition sample_json_str :: "string \<Rightarrow> string" where
  "sample_json_str s = CHR 0x22 # sample_escape s @ [CHR 0x22]"

fun sample_json_rest :: "string list \<Rightarrow> string" where
  "sample_json_rest [] = '']''"
| "sample_json_rest (s # ss) = CHR '','' # sample_json_str s @ sample_json_rest ss"

definition sample_json_strs :: "string list \<Rightarrow> string" where
  "sample_json_strs ss = CHR ''['' # sample_json_rest ss"

text \<open>A checksum of two bytes, padded to 32.\<close>

definition sample_digest :: "bytes \<Rightarrow> bytes" where
  "sample_digest b =
     replicate 30 0 @ [foldl (\<lambda>a w. 3 * a + w + 1) 7 b, foldl (\<lambda>a w. 5 * a + w + 3) 1 b]"

definition pad32 :: "bytes \<Rightarrow> bytes" where
  "pad32 k = take 32 (k @ replicate 32 0)"

definition sample_signature :: "bytes \<Rightarrow> bytes \<Rightarrow> bytes" where
  "sample_signature k m = sample_digest (pad32 k) @ sample_digest m"

text \<open>A sealing is the plaintext with a checksum over key, nonce, associated data and plaintext.\<close>

definition sample_tag :: "bytes \<Rightarrow> bytes \<Rightarrow> bytes \<Rightarrow> bytes \<Rightarrow> bytes" where
  "sample_tag k n p a = drop 16 (sample_digest (k @ n @ a @ p))"

definition sample_seal :: "bytes \<Rightarrow> bytes \<Rightarrow> bytes \<Rightarrow> bytes \<Rightarrow> string + bytes" where
  "sample_seal k n p a = Inr (p @ sample_tag k n p a)"

definition sample_open :: "bytes \<Rightarrow> bytes \<Rightarrow> bytes \<Rightarrow> bytes \<Rightarrow> string + bytes" where
  "sample_open k n c a =
     (let p = take (length c - 16) c in if c = p @ sample_tag k n p a then Inr p else Inl ''aead::Error'')"

definition sample_json_object :: "(string \<times> string) list \<Rightarrow> string" where
  "sample_json_object kvs = sample_json_strs (concat (map (\<lambda>(k, w). [k, w]) kvs))"

definition sample_crates :: crates where
  "sample_crates = \<lparr> blake3_hash = sample_digest, hex_encode = sample_hex, hex_decode = sample_unhex,
     b64_encode = sample_hex, b64_decode = sample_unhex, json_str = sample_json_str, json_strs = sample_json_strs,
     ed_public = pad32,
     ed_key = (\<lambda>b. if length b = 32 then Inr b else Inl ''Cannot decompress Edwards point''),
     ed_sign = sample_signature, ed_verify = (\<lambda>k m s. if s = sample_signature k m then Inr () else Inl ''signature error''),
     p256_key = (\<lambda>b. if length b = 33 then Inr b else Inl ''signature error''), p256_der = Inr,
     p256_verify = (\<lambda>k m s. if s = sample_signature k m then Inr () else Inl ''signature error''),
     aes_seal = sample_seal, aes_open = sample_open, xchacha_seal = sample_seal, xchacha_open = sample_open,
     pbkdf2 = (\<lambda>p s i. sample_digest (p @ s)), hkdf = (\<lambda>s k i n. take n (sample_digest (k @ i))),
     json_object = sample_json_object \<rparr>"

lemma hex_value_digit: "d < 16 \<Longrightarrow> hex_value (hex_digit d) = Some d"
  by (simp add: hex_value_def hex_digit_def Let_def of_char_of)

lemma sample_unhex_hex: "sample_unhex (sample_hex b) = Inr b"
proof (induction b)
  case (Cons w b)
  have "unat w div 16 < 16" by (simp add: less_mult_imp_div_less)
  then show ?case by (simp add: Cons hex_value_digit)
qed simp

lemma length_sample_hex: "length (sample_hex b) = 2 * length b"
  by (induction b) auto

lemma is_special_simps: "is_special (CHR 0x5C)" "is_special (CHR 0x22)" "\<not> is_special c \<Longrightarrow> c \<noteq> CHR 0x22 \<and> c \<noteq> CHR 0x5C"
  by (auto simp: is_special_def)

lemma sample_escape_split:
  "sample_escape x @ CHR 0x22 # r = sample_escape y @ CHR 0x22 # s \<Longrightarrow> x = y \<and> r = s"
proof (induction x arbitrary: y)
  case Nil
  then show ?case by (cases y) (auto simp: is_special_simps split: if_splits)
next
  case (Cons c x)
  then show ?case by (cases y) (auto simp: is_special_simps split: if_splits)
qed

lemma replicate_numeral_step: "replicate (numeral k) x = x # replicate (pred_numeral k) x"
  by (simp add: numeral_eq_Suc)

lemma sample_blake3_len: "blake3_len sample_crates"
  by (simp add: blake3_len_def sample_crates_def sample_digest_def)

lemma sample_hex_ok: "hex_ok sample_crates"
  by (simp add: hex_ok_def sample_crates_def sample_unhex_hex length_sample_hex)

lemma sample_b64_ok: "b64_ok sample_crates"
  by (simp add: b64_ok_def sample_crates_def sample_unhex_hex)

lemma sample_json_str_split: "sample_json_str x @ r = sample_json_str y @ s \<Longrightarrow> x = y \<and> r = s"
  by (auto simp: sample_json_str_def dest: sample_escape_split)

lemma sample_json_rest_split: "sample_json_rest x @ r = sample_json_rest y @ s \<Longrightarrow> x = y \<and> r = s"
proof (induction x arbitrary: y)
  case Nil
  then show ?case by (cases y) auto
next
  case (Cons a x)
  show ?case
  proof (cases y)
    case (Cons b y')
    with Cons.prems have "sample_json_str a @ sample_json_rest x @ r = sample_json_str b @ sample_json_rest y' @ s"
      by simp
    from sample_json_str_split [OF this] Cons.IH [of y'] Cons show ?thesis by simp
  qed (use Cons.prems in simp)
qed

lemma sample_json_strs_split: "sample_json_strs x @ r = sample_json_strs y @ s \<Longrightarrow> x = y \<and> r = s"
  by (rule sample_json_rest_split) (simp add: sample_json_strs_def)

lemma sample_json_ok: "json_ok sample_crates"
proof -
  have "json_str sample_crates = sample_json_str" "json_strs sample_crates = sample_json_strs"
    by (simp_all add: sample_crates_def)
  moreover have "\<exists>t. sample_json_str x = CHR 0x22 # t" for x by (simp add: sample_json_str_def)
  ultimately show ?thesis
    unfolding json_ok_def using sample_json_str_split sample_json_strs_split by metis
qed

lemma length_pad32 [simp]: "length (pad32 k) = 32"
  by (simp add: pad32_def min_def)

lemma pad32_pad32 [simp]: "pad32 (pad32 k) = pad32 k"
  using length_pad32 [of k] by (simp add: pad32_def [of "pad32 k"])

lemma length_sample_digest [simp]: "length (sample_digest b) = 32"
  by (simp add: sample_digest_def)

lemma sample_ed_ok: "ed_ok sample_crates"
  by (simp add: ed_ok_def sample_crates_def sample_signature_def)

lemma length_sample_tag [simp]: "length (sample_tag k n p a) = 16"
  by (simp add: sample_tag_def)

lemma sample_aead_ok: "aead_ok sample_seal sample_open"
  by (auto simp: aead_ok_def sample_seal_def sample_open_def Let_def)

lemma sample_json_object_ok: "json_object_ok sample_crates"
proof -
  have "kvs = kvs'" if "concat (map (\<lambda>(k, w). [k, w]) kvs) = concat (map (\<lambda>(k, w). [k, w]) kvs')"
    for kvs kvs' :: "(string \<times> string) list"
    using that
  proof (induction kvs arbitrary: kvs')
    case Nil
    then show ?case by (cases kvs') auto
  next
    case (Cons a kvs)
    then show ?case by (cases a; cases kvs') auto
  qed
  moreover have "json_object sample_crates = sample_json_object" by (simp add: sample_crates_def)
  ultimately show ?thesis
    using sample_json_strs_split [where r = "[]" and s = "[]"]
    by (auto simp: json_object_ok_def sample_json_object_def intro!: injI)
qed

lemma sample_seals [simp]: "aes_seal sample_crates = sample_seal" "aes_open sample_crates = sample_open"
  "xchacha_seal sample_crates = sample_seal" "xchacha_open sample_crates = sample_open"
  by (simp_all add: sample_crates_def)

lemmas sample_crates_ok = sample_blake3_len sample_hex_ok sample_b64_ok sample_json_ok sample_ed_ok sample_aead_ok
  sample_json_object_ok

end
