(* ===== verification/Chain.thy ===== *)
theory Chain
  imports Crates
begin

text \<open>
  The BLAKE3 continuity chain of \<^verbatim>\<open>crates/core/src/chain.rs\<close>: the genesis value, the step
  \<open>chain_next\<close>, and \<open>validate_chain\<close>, which archives, the verification service and the browser
  verifier all rely on. \<open>chain_values\<close> is the specification of the running chain; \<open>validate_chain\<close>
  accepts exactly the segment lists that store it, and the last value of a chain determines
  every hash in it.
\<close>

section \<open>Operations\<close>

definition GENESIS_SEED :: bytes where
  "GENESIS_SEED = str_bytes ''sealedge:genesis''"

datatype ChainError = Gap nat | OutOfOrder string string | EndOfChainTruncated

definition blake3_hex_or_b64 :: "'x crates_scheme \<Rightarrow> bytes \<Rightarrow> string" where
  "blake3_hex_or_b64 X b = ''b3:'' @ b64_encode X b"

definition segment_hash :: "'x crates_scheme \<Rightarrow> bytes \<Rightarrow> bytes" where
  "segment_hash X ciphertext = blake3_hash X ciphertext"

text \<open>Feeding a hasher twice hashes the concatenation.\<close>

definition chain_next :: "'x crates_scheme \<Rightarrow> bytes \<Rightarrow> bytes \<Rightarrow> bytes" where
  "chain_next X prev cur = blake3_hash X (prev @ cur)"

definition genesis :: "'x crates_scheme \<Rightarrow> bytes" where
  "genesis X = blake3_hash X GENESIS_SEED"

record ChainSegment =
  index :: nat
  stored_hash :: bytes
  stored_continuity :: bytes

text \<open>The two loops of \<open>validate_chain\<close>: indices first, then the running hash.\<close>

fun check_indices :: "nat \<Rightarrow> ChainSegment list \<Rightarrow> ChainError + unit" where
  "check_indices i [] = Inr ()"
| "check_indices i (segment # segments) =
     (if index segment \<noteq> i then Inl (Gap i) else check_indices (Suc i) segments)"

fun check_continuity :: "'x crates_scheme \<Rightarrow> bytes \<Rightarrow> ChainSegment list \<Rightarrow> ChainError + unit" where
  "check_continuity X expected_continuity [] = Inr ()"
| "check_continuity X expected_continuity (segment # segments) =
     (let next = chain_next X expected_continuity (stored_hash segment) in
      if next \<noteq> stored_continuity segment
      then Inl (OutOfOrder (hex_encode X next) (hex_encode X (stored_continuity segment)))
      else check_continuity X next segments)"

definition validate_chain :: "'x crates_scheme \<Rightarrow> ChainSegment list \<Rightarrow> ChainError + unit" where
  "validate_chain X segments =
     (if segments = [] then Inr ()
      else res_bind (check_indices 0 segments) (\<lambda>_. check_continuity X (genesis X) segments))"

section \<open>Specification\<close>

fun chain_values :: "'x crates_scheme \<Rightarrow> bytes \<Rightarrow> bytes list \<Rightarrow> bytes list" where
  "chain_values X prev [] = []"
| "chain_values X prev (h # hs) = chain_next X prev h # chain_values X (chain_next X prev h) hs"

definition chain_tip :: "'x crates_scheme \<Rightarrow> bytes list \<Rightarrow> bytes" where
  "chain_tip X hs = foldl (chain_next X) (genesis X) hs"

text \<open>The inputs BLAKE3 sees while a chain over \<open>hs\<close> is computed.\<close>

fun step_inputs :: "'x crates_scheme \<Rightarrow> bytes \<Rightarrow> bytes list \<Rightarrow> bytes set" where
  "step_inputs X prev [] = {}"
| "step_inputs X prev (h # hs) = insert (prev @ h) (step_inputs X (chain_next X prev h) hs)"

definition chain_inputs :: "'x crates_scheme \<Rightarrow> bytes list \<Rightarrow> bytes set" where
  "chain_inputs X hs = insert GENESIS_SEED (step_inputs X (genesis X) hs)"

text \<open>The segments a correct producer stores for the hashes \<open>hs\<close>.\<close>

definition honest_segments :: "'x crates_scheme \<Rightarrow> bytes list \<Rightarrow> ChainSegment list" where
  "honest_segments X hs =
     map (\<lambda>i. \<lparr>index = i, stored_hash = hs ! i, stored_continuity = chain_values X (genesis X) hs ! i\<rparr>)
       [0..<length hs]"

section \<open>Lemmas\<close>

lemma length_genesis_seed [simp]: "length GENESIS_SEED = 16"
  by (simp add: GENESIS_SEED_def)

lemma length_chain_values [simp]: "length (chain_values X p hs) = length hs"
  by (induction hs arbitrary: p) auto

lemma chain_values_append:
  "chain_values X p (as @ bs) = chain_values X p as @ chain_values X (foldl (chain_next X) p as) bs"
  by (induction as arbitrary: p) auto

lemma chain_values_nth:
  "i < length hs \<Longrightarrow> chain_values X p hs ! i = foldl (chain_next X) p (take (Suc i) hs)"
  by (induction hs arbitrary: p i) (auto simp: nth_Cons split: nat.splits)

lemma last_chain_values: "hs \<noteq> [] \<Longrightarrow> last (chain_values X (genesis X) hs) = chain_tip X hs"
  by (cases hs rule: rev_cases) (simp_all add: chain_values_append chain_tip_def)

lemma step_inputs_append:
  "step_inputs X p (as @ bs) = step_inputs X p as \<union> step_inputs X (foldl (chain_next X) p as) bs"
  by (induction as arbitrary: p) auto

lemma chain_inputs_snoc: "chain_inputs X (hs @ [h]) = insert (chain_tip X hs @ h) (chain_inputs X hs)"
  by (auto simp: chain_inputs_def step_inputs_append chain_tip_def)

lemma genesis_in_inputs: "GENESIS_SEED \<in> chain_inputs X hs"
  by (simp add: chain_inputs_def)

lemma chain_tip_Nil: "chain_tip X [] = blake3_hash X GENESIS_SEED"
  by (simp add: chain_tip_def genesis_def)

lemma chain_tip_snoc: "chain_tip X (hs @ [h]) = blake3_hash X (chain_tip X hs @ h)"
  by (simp add: chain_tip_def chain_next_def)

lemma length_chain_tip: "blake3_len X \<Longrightarrow> length (chain_tip X hs) = 32"
  by (cases hs rule: rev_cases) (simp_all add: chain_tip_Nil chain_tip_snoc blake3_len_def)

lemma upt_first: "[i..<i + length (x # xs)] = i # [Suc i..<Suc i + length xs]"
  by (simp add: upt_conv_Cons del: upt_Suc)

lemma check_indices_ok_iff:
  "check_indices i segs = Inr () \<longleftrightarrow> map index segs = [i..<i + length segs]"
proof (induction segs arbitrary: i)
  case (Cons s segs)
  show ?case unfolding upt_first by (auto simp: Cons simp del: upt_Suc)
qed simp

lemma check_continuity_ok_iff:
  "check_continuity X p segs = Inr () \<longleftrightarrow>
     map stored_continuity segs = chain_values X p (map stored_hash segs)"
  by (induction segs arbitrary: p) (auto simp: Let_def)

lemma check_indices_err_iff:
  "check_indices i segs = Inl e \<longleftrightarrow>
     (\<exists>k < length segs. e = Gap (i + k) \<and> index (segs ! k) \<noteq> i + k \<and> (\<forall>j < k. index (segs ! j) = i + j))"
proof (induction segs arbitrary: i)
  case (Cons s segs)
  show ?case
    by (auto simp: Cons Ex_less_Suc2 All_less_Suc2)
qed simp

lemma check_continuity_err_iff:
  "check_continuity X p segs = Inl e \<longleftrightarrow>
     (\<exists>k < length segs. \<exists>c. c = chain_values X p (map stored_hash segs) ! k \<and>
        c \<noteq> stored_continuity (segs ! k) \<and>
        e = OutOfOrder (hex_encode X c) (hex_encode X (stored_continuity (segs ! k))) \<and>
        (\<forall>j < k. chain_values X p (map stored_hash segs) ! j = stored_continuity (segs ! j)))"
proof (induction segs arbitrary: p)
  case (Cons s segs)
  show ?case
    by (auto simp: Let_def Cons Ex_less_Suc2 All_less_Suc2)
qed simp

lemma validate_chain_ok:
  "validate_chain X segs = Inr () \<longleftrightarrow>
     map index segs = [0..<length segs] \<and>
     map stored_continuity segs = chain_values X (genesis X) (map stored_hash segs)"
  by (auto simp: validate_chain_def res_simps check_indices_ok_iff check_continuity_ok_iff)

lemma honest_segments_maps:
  "map index (honest_segments X hs) = [0..<length hs]"
  "map stored_hash (honest_segments X hs) = hs"
  "map stored_continuity (honest_segments X hs) = chain_values X (genesis X) hs"
  using map_nth [of hs] map_nth [of "chain_values X (genesis X) hs"]
  by (simp_all add: honest_segments_def comp_def del: map_nth)

lemma length_honest_segments [simp]: "length (honest_segments X hs) = length hs"
  by (simp add: honest_segments_def)

lemma honest_segments_ok: "validate_chain X (honest_segments X hs) = Inr ()"
  by (simp add: validate_chain_ok honest_segments_maps)

lemma chain_tip_determines:
  assumes len: "blake3_len X"
    and free: "no_collision X (chain_inputs X as \<union> chain_inputs X bs)"
    and "list_all (\<lambda>h. length h = 32) as" "list_all (\<lambda>h. length h = 32) bs"
    and "chain_tip X as = chain_tip X bs"
  shows "as = bs"
  using assms(2-)
proof (induction as arbitrary: bs rule: rev_induct)
  case Nil
  show ?case
  proof (cases bs rule: rev_cases)
    case (snoc bs' h)
    have "blake3_hash X GENESIS_SEED = blake3_hash X (chain_tip X bs' @ h)"
      using Nil.prems by (simp add: snoc chain_tip_Nil chain_tip_snoc)
    then have "GENESIS_SEED = chain_tip X bs' @ h"
      by (rule no_collisionD [OF Nil.prems(1), rotated 2]) (auto simp: snoc chain_inputs_snoc genesis_in_inputs)
    from arg_cong [OF this, of length] show ?thesis by (simp add: length_chain_tip [OF len])
  qed simp
next
  case (snoc h as)
  show ?case
  proof (cases bs rule: rev_cases)
    case Nil
    have "blake3_hash X GENESIS_SEED = blake3_hash X (chain_tip X as @ h)"
      using snoc.prems by (simp add: Nil chain_tip_Nil chain_tip_snoc)
    then have "GENESIS_SEED = chain_tip X as @ h"
      by (rule no_collisionD [OF snoc.prems(1), rotated 2]) (auto simp: Nil chain_inputs_snoc genesis_in_inputs)
    from arg_cong [OF this, of length] show ?thesis by (simp add: length_chain_tip [OF len])
  next
    case (snoc bs' h')
    have "blake3_hash X (chain_tip X as @ h) = blake3_hash X (chain_tip X bs' @ h')"
      using snoc.prems by (simp add: snoc chain_tip_snoc)
    then have "chain_tip X as @ h = chain_tip X bs' @ h'"
      by (rule no_collisionD [OF snoc.prems(1), rotated 2]) (auto simp: snoc chain_inputs_snoc)
    then have *: "chain_tip X as = chain_tip X bs'" "h = h'"
      by (simp_all add: length_chain_tip [OF len])
    have "no_collision X (chain_inputs X as \<union> chain_inputs X bs')"
      by (rule no_collision_mono [OF snoc.prems(1)]) (auto simp: snoc chain_inputs_snoc)
    then have "as = bs'" using snoc.IH snoc.prems * by (simp add: snoc)
    then show ?thesis by (simp add: snoc *)
  qed
qed

section \<open>Properties\<close>

lemma validate_chain_gap:
  "validate_chain X segs = Inl (Gap k) \<longleftrightarrow>
     k < length segs \<and> index (segs ! k) \<noteq> k \<and> (\<forall>j < k. index (segs ! j) = j)"
  by (auto simp: validate_chain_def res_simps check_indices_err_iff check_continuity_err_iff)

text \<open>
  C11: \<open>validate_chain\<close> accepts a segment list exactly when the indices are \<open>0, 1, 2, ...\<close> and the stored
  continuity values are the running BLAKE3 chain over the stored hashes; it answers \<open>Gap k\<close> exactly
  when \<open>k\<close> is the first position whose index is wrong, whatever the hashes are; and it answers
  \<open>OutOfOrder\<close> exactly when all indices are right, with the hex of the computed and of the stored value at
  the first position where they differ. No other result occurs (\<open>EndOfChainTruncated\<close> in particular).
\<close>

theorem validate_chain_result:
  "(validate_chain X segs = Inr () \<longleftrightarrow>
      map index segs = [0..<length segs] \<and>
      map stored_continuity segs = chain_values X (genesis X) (map stored_hash segs)) \<and>
   (validate_chain X segs = Inl (Gap k) \<longleftrightarrow>
      k < length segs \<and> index (segs ! k) \<noteq> k \<and> (\<forall>j < k. index (segs ! j) = j)) \<and>
   (validate_chain X segs = Inl (OutOfOrder a b) \<longleftrightarrow>
      map index segs = [0..<length segs] \<and>
      (\<exists>n < length segs. \<exists>c. c = chain_values X (genesis X) (map stored_hash segs) ! n \<and>
         c \<noteq> stored_continuity (segs ! n) \<and>
         a = hex_encode X c \<and> b = hex_encode X (stored_continuity (segs ! n)) \<and>
         (\<forall>j < n. chain_values X (genesis X) (map stored_hash segs) ! j = stored_continuity (segs ! j)))) \<and>
   validate_chain X segs \<noteq> Inl EndOfChainTruncated"
proof (intro conjI)
  show "validate_chain X segs = Inl (OutOfOrder a b) \<longleftrightarrow>
      map index segs = [0..<length segs] \<and>
      (\<exists>n < length segs. \<exists>c. c = chain_values X (genesis X) (map stored_hash segs) ! n \<and>
         c \<noteq> stored_continuity (segs ! n) \<and>
         a = hex_encode X c \<and> b = hex_encode X (stored_continuity (segs ! n)) \<and>
         (\<forall>j < n. chain_values X (genesis X) (map stored_hash segs) ! j = stored_continuity (segs ! j)))"
    unfolding validate_chain_def
    by (auto simp: res_simps check_indices_err_iff check_indices_ok_iff check_continuity_err_iff)
  show "validate_chain X segs \<noteq> Inl EndOfChainTruncated"
    unfolding validate_chain_def
    by (auto simp: res_simps check_indices_err_iff check_continuity_err_iff)
qed (rule validate_chain_ok validate_chain_gap)+

theorem validate_chain_result_witness:
  "validate_chain sample_crates [\<lparr>index = 0, stored_hash = [], stored_continuity = []\<rparr>,
     \<lparr>index = 2, stored_hash = [], stored_continuity = []\<rparr>] = Inl (Gap 1)"
  using validate_chain_result [of sample_crates "[\<lparr>index = 0, stored_hash = [], stored_continuity = []\<rparr>,
     \<lparr>index = 2, stored_hash = [], stored_continuity = []\<rparr>]" 1]
  by simp

text \<open>
  C10: the last continuity value of an accepted chain pins the chain. If two non-empty segment lists
  (of any lengths, with 32-byte hashes) are both accepted by \<open>validate_chain\<close> and end in the same
  continuity value, and BLAKE3 has no collision among the inputs of the two computations, then
  the lists are equal: nothing was reordered, replaced, inserted or removed.
\<close>

theorem validate_chain_tip_unique:
  assumes "blake3_len X"
    and "no_collision X (chain_inputs X (map stored_hash s) \<union> chain_inputs X (map stored_hash t))"
    and "list_all (\<lambda>c. length (stored_hash c) = 32) s" "list_all (\<lambda>c. length (stored_hash c) = 32) t"
    and "validate_chain X s = Inr ()" "validate_chain X t = Inr ()"
    and "s \<noteq> []" "t \<noteq> []" "stored_continuity (last s) = stored_continuity (last t)"
  shows "s = t"
proof -
  have last: "chain_tip X (map stored_hash u) = stored_continuity (last u)"
    if "validate_chain X u = Inr ()" "u \<noteq> []" for u
    using that last_chain_values [of "map stored_hash u" X] last_map [of u stored_continuity]
    by (simp add: validate_chain_ok)
  have h: "map stored_hash s = map stored_hash t"
    by (rule chain_tip_determines [where X = X]) (use assms last [OF assms(5,7)] last [OF assms(6,8)] in \<open>simp_all add: list_all_length\<close>)
  have c: "map stored_continuity s = map stored_continuity t" "map index s = map index t"
    using assms(5,6) h by (auto simp: validate_chain_ok dest: map_eq_imp_length_eq)
  show ?thesis
    by (rule nth_equalityI) (use h c in \<open>auto simp: list_eq_iff_nth_eq\<close>)
qed

definition sample_hash :: "nat \<Rightarrow> bytes" where
  "sample_hash n = replicate 31 0 @ [word_of_nat n]"

lemma length_sample_hash [simp]: "length (sample_hash n) = 32"
  by (simp add: sample_hash_def)

lemmas sample_eval = sample_crates_def sample_digest_def GENESIS_SEED_def str_bytes_def genesis_def
  chain_next_def sample_hash_def chain_inputs_def replicate_numeral_step

lemma honest_segments_hashes:
  "list_all (\<lambda>h. length h = 32) hs \<Longrightarrow> list_all (\<lambda>c. length (stored_hash c) = 32) (honest_segments X hs)"
  by (simp add: honest_segments_def list_all_length)

lemma honest_segments_Nil_iff [simp]: "honest_segments X hs = [] \<longleftrightarrow> hs = []"
  by (simp add: honest_segments_def)

lemma sample_chain_no_collision:
  "no_collision sample_crates (chain_inputs sample_crates [sample_hash 4, sample_hash 9])"
  by (simp add: no_collision_def sample_eval)

theorem validate_chain_tip_unique_witness:
  "\<exists>s. length s = 2 \<and> validate_chain sample_crates s = Inr () \<and>
     (\<forall>t. t = honest_segments sample_crates [sample_hash 4, sample_hash 9] \<longrightarrow> s = t)"
  using validate_chain_tip_unique [of sample_crates "honest_segments sample_crates [sample_hash 4, sample_hash 9]"
      "honest_segments sample_crates [sample_hash 4, sample_hash 9]"]
  by (intro exI [of _ "honest_segments sample_crates [sample_hash 4, sample_hash 9]"])
    (simp add: sample_crates_ok sample_chain_no_collision honest_segments_ok honest_segments_hashes honest_segments_maps)

end
