(* ===== verification/F64_Display.thy ===== *)
theory F64_Display
  imports Sealedge_Prelude
begin

text \<open>
  The \<^verbatim>\<open>Display\<close> text of an \<^verbatim>\<open>f64\<close>, which the canonical manifest writes verbatim
  (\<^verbatim>\<open>crates/seal-protocols/src/archive/manifest.rs\<close>). A value is its 64 bits. The standard
  library prints \<open>NaN\<close>, \<open>inf\<close>, a minus sign from the sign bit (also for zero), and otherwise, in positional
  notation without exponent, the shortest decimal that parses back to the same bits, the one
  nearest to the exact value when several are that short. \<open>round_f64\<close> is the correctly
  rounded (half to even) reading of a fraction. Two facts carry the manifest proofs: the text
  determines the bits of every value but NaN, and it consists of number characters only.
\<close>

section \<open>Bits of a double\<close>

type_synonym f64 = u64

definition f64_neg :: "f64 \<Rightarrow> bool" where
  "f64_neg w \<longleftrightarrow> 9223372036854775808 \<le> unat w"

text \<open>The bits without the sign, as a number: ordered as the magnitudes are.\<close>

definition f64_mag :: "f64 \<Rightarrow> nat" where
  "f64_mag w = unat w mod 9223372036854775808"

definition INF_MAG :: nat where "INF_MAG = 2047 * 2 ^ 52"

definition is_nan :: "f64 \<Rightarrow> bool" where
  "is_nan w \<longleftrightarrow> INF_MAG < f64_mag w"

text \<open>The comparison \<^verbatim>\<open>x <= 0.0\<close>.\<close>

definition f64_le_zero :: "f64 \<Rightarrow> bool" where
  "f64_le_zero w \<longleftrightarrow> \<not> is_nan w \<and> (f64_neg w \<or> f64_mag w = 0)"

text \<open>A finite magnitude as numerator and denominator.\<close>

definition f64_fraction :: "nat \<Rightarrow> nat \<times> nat" where
  "f64_fraction b =
     (let E = b div 2 ^ 52; f = b mod 2 ^ 52 in
      if E = 0 then (f, 2 ^ 1074)
      else if 1075 \<le> E then ((2 ^ 52 + f) * 2 ^ (E - 1075), 1)
      else (2 ^ 52 + f, 2 ^ (1075 - E)))"

section \<open>Reading a decimal\<close>

fun bitlen :: "nat \<Rightarrow> nat" where
  "bitlen n = (if n = 0 then 0 else Suc (bitlen (n div 2)))"

declare bitlen.simps [simp del]

definition round_half_even :: "nat \<Rightarrow> nat \<Rightarrow> nat" where
  "round_half_even n d =
     (let t = n div d; r = n mod d in if 2 * r < d \<or> 2 * r = d \<and> even t then t else t + 1)"

text \<open>The biased exponent of \<open>p / q\<close>, at least that of the subnormal numbers.\<close>

definition biased_exponent :: "nat \<Rightarrow> nat \<Rightarrow> nat" where
  "biased_exponent p q =
     (if q \<le> p then 1022 + bitlen (p div q)
      else let j = bitlen ((q - 1) div p) in if 1022 \<le> j then 1 else 1023 - j)"

definition round_f64 :: "nat \<Rightarrow> nat \<Rightarrow> nat" where
  "round_f64 p q =
     (if p = 0 then 0
      else let L = biased_exponent p q in
        min INF_MAG ((L - 1) * 2 ^ 52 + round_half_even (p * 2 ^ 1075) (q * 2 ^ L)))"

definition read_decimal :: "string \<Rightarrow> nat" where
  "read_decimal s =
     (let i = takeWhile (\<lambda>c. c \<noteq> CHR ''.'') s; f = tl (dropWhile (\<lambda>c. c \<noteq> CHR ''.'') s) in
      round_f64 (read_nat (i @ f)) (10 ^ length f))"

section \<open>Printing\<close>

text \<open>\<open>n / 10 ^ f\<close> in positional notation.\<close>

fun trim_zeros :: "nat \<Rightarrow> nat \<Rightarrow> nat \<times> nat" where
  "trim_zeros n 0 = (n, 0)"
| "trim_zeros n (Suc f) = (if n mod 10 = 0 then trim_zeros (n div 10) f else (n, Suc f))"

definition positional :: "nat \<Rightarrow> nat \<Rightarrow> string" where
  "positional n f = (case trim_zeros n f of (n, f) \<Rightarrow>
     if f = 0 then show_nat n
     else show_nat (n div 10 ^ f) @ ''.'' @ pad_left f (show_nat (n mod 10 ^ f)))"

definition decimal_text :: "nat \<Rightarrow> int \<Rightarrow> string" where
  "decimal_text d x = (if 0 \<le> x then show_nat (d * 10 ^ nat x) else positional d (nat (- x)))"

text \<open>\<open>decimal_point p q\<close> is the \<open>k\<close> with \<open>10 ^ (k - 1) \<le> p / q < 10 ^ k\<close>.\<close>

function leading_zeros :: "nat \<Rightarrow> nat \<Rightarrow> nat" where
  "leading_zeros p q = (if p = 0 \<or> q \<le> p * 10 then 0 else Suc (leading_zeros (p * 10) q))"
  by auto
termination
  by (relation "measure (\<lambda>(p, q). q - p)") auto

declare leading_zeros.simps [simp del]

definition decimal_point :: "nat \<Rightarrow> nat \<Rightarrow> int" where
  "decimal_point p q = (if q \<le> p then int (length (show_nat (p div q))) else - int (leading_zeros p q))"

text \<open>The candidates with \<open>n\<close> digits: the decimals next below and next above the exact value.\<close>

definition try_digits :: "nat \<Rightarrow> nat \<Rightarrow> string option" where
  "try_digits b n =
     (let (p, q) = f64_fraction b; x = decimal_point p q - int n;
          num = (if 0 \<le> x then p else p * 10 ^ nat (- x));
          den = (if 0 \<le> x then q * 10 ^ nat x else q);
          down = decimal_text (num div den) x; up = decimal_text (num div den + 1) x
      in if read_decimal up = b \<and> (read_decimal down \<noteq> b \<or> den \<le> 2 * (num mod den)) then Some up
         else if read_decimal down = b then Some down else None)"

definition exact_text :: "nat \<Rightarrow> string" where
  "exact_text b = (let E = b div 2 ^ 52; (p, q) = f64_fraction b in
     if q = 1 then show_nat p
     else let k = (if E = 0 then 1074 else 1075 - E) in positional (p * 5 ^ k) k)"

fun first_some :: "('a \<Rightarrow> 'b option) \<Rightarrow> 'a list \<Rightarrow> 'b option" where
  "first_some f [] = None"
| "first_some f (x # xs) = (case f x of Some y \<Rightarrow> Some y | None \<Rightarrow> first_some f xs)"

text \<open>Seventeen digits always suffice; the exact expansion closes the search.\<close>

definition shortest_text :: "nat \<Rightarrow> string" where
  "shortest_text b = (case first_some (try_digits b) [1..<18] of Some s \<Rightarrow> s | None \<Rightarrow> exact_text b)"

definition show_f64 :: "f64 \<Rightarrow> string" where
  "show_f64 w =
     (if is_nan w then ''NaN''
      else (if f64_neg w then ''-'' else []) @
        (if f64_mag w = INF_MAG then ''inf''
         else if f64_mag w = 0 then ''0'' else shortest_text (f64_mag w)))"

section \<open>Rounding an exact value gives it back\<close>

lemma bitlen_bounds: "0 < n \<Longrightarrow> 2 ^ (bitlen n - 1) \<le> n \<and> n < 2 ^ bitlen n"
proof (induction n rule: bitlen.induct)
  case (1 n)
  show ?case
  proof (cases "n = 1")
    case True
    then show ?thesis by (simp add: bitlen.simps)
  next
    case False
    with 1(2) have pos: "0 < n div 2" by auto
    with 1 have IH: "2 ^ (bitlen (n div 2) - 1) \<le> n div 2" "n div 2 < 2 ^ bitlen (n div 2)" by auto
    have b: "bitlen n = Suc (bitlen (n div 2))" using 1(2) by (simp add: bitlen.simps [of n])
    have "0 < bitlen (n div 2)" using pos by (simp add: bitlen.simps [of "n div 2"])
    then obtain k where k: "bitlen (n div 2) = Suc k" by (cases "bitlen (n div 2)") auto
    show ?thesis using IH unfolding b k by auto
  qed
qed

lemma bitlen_eq: "2 ^ k \<le> n \<Longrightarrow> n < 2 ^ Suc k \<Longrightarrow> bitlen n = Suc k"
proof -
  assume a: "2 ^ k \<le> n" "n < (2 :: nat) ^ Suc k"
  then have "0 < n" by (metis gr0I leD one_le_numeral one_le_power zero_less_one)
  note b = bitlen_bounds [OF this]
  from a b have "(2 :: nat) ^ k < 2 ^ bitlen n" "(2 :: nat) ^ (bitlen n - 1) < 2 ^ Suc k" by linarith+
  then have "k < bitlen n" "bitlen n - 1 < Suc k" by (auto simp only: power_strict_increasing_iff one_less_numeral_iff semiring_norm)
  then show ?thesis by linarith
qed

lemma round_half_even_exact: "0 < d \<Longrightarrow> round_half_even (m * d) d = m"
  by (simp add: round_half_even_def)

lemma round_half_even_scale:
  "0 < c \<Longrightarrow> round_half_even (c * n) (c * d) = round_half_even n d"
  by (auto simp: round_half_even_def Let_def mod_mult_mult1 mult.left_commute [of 2 c])

lemma biased_exponent_scale:
  assumes "0 < c" "0 < q"
  shows "biased_exponent (c * p) (c * q) = biased_exponent p q"
proof -
  have "(c * q - 1) div c = q - 1"
    using assms by (intro div_nat_eqI) (auto simp: diff_mult_distrib2)
  then have "(c * q - 1) div (c * p) = (q - 1) div p" by (simp add: div_mult2_eq)
  then show ?thesis using assms by (simp add: biased_exponent_def)
qed

lemma round_f64_scale:
  assumes "0 < c" "0 < q"
  shows "round_f64 (c * p) (c * q) = round_f64 p q"
proof -
  have "round_half_even (c * p * 2 ^ 1075) (c * q * 2 ^ L) = round_half_even (p * 2 ^ 1075) (q * 2 ^ L)" for L
    using round_half_even_scale [OF assms(1), of "p * 2 ^ 1075" "q * 2 ^ L"] by (simp only: mult.assoc)
  then show ?thesis using assms by (simp add: round_f64_def biased_exponent_scale)
qed

lemma pow_split: "a \<le> k \<Longrightarrow> (2 :: nat) ^ k = 2 ^ (k - a) * 2 ^ a"
  by (simp flip: power_add)

lemma biased_exponent_int:
  assumes "2 ^ 52 \<le> m" "m < 2 ^ 53"
  shows "biased_exponent (m * 2 ^ a) 1 = 1075 + a"
proof -
  have "bitlen (m * 2 ^ a) = Suc (52 + a)"
    using assms by (intro bitlen_eq) (auto simp: power_add)
  moreover have "1 \<le> m * 2 ^ a" using assms by (simp add: Suc_leI)
  ultimately show ?thesis by (simp add: biased_exponent_def)
qed

lemma biased_exponent_frac:
  assumes m: "2 ^ 52 \<le> m" "m < 2 ^ 53" and k: "1 \<le> k" "k \<le> 1074"
  shows "biased_exponent m (2 ^ k) = 1075 - k"
proof (cases "k \<le> 52")
  case True
  then have le: "(2 :: nat) ^ k \<le> 2 ^ 52" by (rule power_increasing) simp
  have "bitlen (m div 2 ^ k) = Suc (52 - k)"
  proof (rule bitlen_eq)
    show "2 ^ (52 - k) \<le> m div 2 ^ k"
      using m(1) True by (simp add: less_eq_div_iff_mult_less_eq flip: power_add)
    show "m div 2 ^ k < 2 ^ Suc (52 - k)"
      using m(2) True by (simp add: div_less_iff_less_mult Suc_diff_le flip: power_add power_Suc)
  qed
  then show ?thesis using m le True by (simp add: biased_exponent_def)
next
  case False
  then have "(2 :: nat) ^ 53 \<le> 2 ^ k" by (intro power_increasing) simp_all
  with m(2) have lt: "m < 2 ^ k" by linarith
  have pos: "0 < m" by (rule less_le_trans [OF _ m(1)]) simp
  have "bitlen ((2 ^ k - 1) div m) = Suc (k - 53)"
  proof (rule bitlen_eq)
    have "2 ^ (k - 53) * m < 2 ^ (k - 53) * 2 ^ 53" using m by simp
    also have "\<dots> = 2 ^ k" by (rule pow_split [symmetric]) (use False in simp)
    finally show "2 ^ (k - 53) \<le> (2 ^ k - 1) div m"
      using pos by (simp add: less_eq_div_iff_mult_less_eq)
    have "(2 :: nat) ^ k = 2 ^ (k - 52) * 2 ^ 52" by (rule pow_split) (use False in simp)
    also have "\<dots> \<le> 2 ^ (k - 52) * m" using m by simp
    finally have "2 ^ k - 1 < 2 ^ (k - 52) * m" using pos by (simp add: less_eq_Suc_le)
    moreover have "Suc (k - 53) = k - 52" using False by simp
    ultimately show "(2 ^ k - 1) div m < 2 ^ Suc (k - 53)"
      using pos by (simp add: div_less_iff_less_mult)
  qed
  then show ?thesis using lt False k by (simp add: biased_exponent_def Let_def) linarith
qed

lemma biased_exponent_subnormal:
  assumes "0 < f" "f < 2 ^ 52" "k = 1074"
  shows "biased_exponent f (2 ^ k) = 1"
proof -
  have lt: "f < 2 ^ k"
    by (rule less_le_trans [OF assms(2)]) (rule power_increasing, simp_all add: assms)
  have "2 ^ (k - 53) * f \<le> 2 ^ (k - 53) * 2 ^ 52" using assms by simp
  also have "\<dots> = 2 ^ (k - 1)" using assms by (simp del: power_numeral flip: power_add)
  also have "\<dots> \<le> 2 ^ k - 1"
  proof -
    have "(2 :: nat) ^ k = 2 * 2 ^ (k - 1)" using assms by (simp del: power_numeral flip: power_Suc)
    moreover have "0 < (2 :: nat) ^ (k - 1)" by simp
    ultimately show ?thesis by linarith
  qed
  finally have le: "2 ^ (k - 53) \<le> (2 ^ k - 1) div f"
    using assms(1) by (simp add: less_eq_div_iff_mult_less_eq del: power_numeral)
  define n where "n = (2 ^ k - 1) div f"
  have "0 < n" using less_le_trans [OF _ le, of 0] by (simp add: n_def)
  then have "2 ^ (k - 53) < (2 :: nat) ^ bitlen n" using bitlen_bounds [of n] le unfolding n_def [symmetric] by linarith
  then have "k - 53 < bitlen n" by (simp only: power_strict_increasing_iff one_less_numeral_iff semiring_norm)
  then have "1022 \<le> bitlen n" using assms(3) by simp
  then show ?thesis using lt by (simp add: biased_exponent_def Let_def n_def del: power_numeral)
qed

lemma round_f64_parts:
  assumes "0 < m" "0 < L" "m * q * 2 ^ L = p * 2 ^ 1075" "biased_exponent p q = L" "0 < p" "0 < q"
  shows "round_f64 p q = min INF_MAG ((L - 1) * 2 ^ 52 + m)"
proof -
  have "round_half_even (p * 2 ^ 1075) (q * 2 ^ L) = m"
    using round_half_even_exact [of "q * 2 ^ L" m] assms by (simp only: mult.assoc [symmetric]) simp
  then show ?thesis using assms by (simp add: round_f64_def del: power_numeral)
qed

lemma round_f64_fraction:
  assumes "0 < b" "b < INF_MAG" "f64_fraction b = (p, q)"
  shows "round_f64 p q = b"
proof -
  define E f where "E = b div 2 ^ 52" and "f = b mod 2 ^ 52"
  have b: "b = E * 2 ^ 52 + f" and f: "f < 2 ^ 52" by (simp_all add: E_def f_def)
  have m: "(2 :: nat) ^ 52 \<le> 2 ^ 52 + f" "2 ^ 52 + f < 2 ^ 53" "0 < 2 ^ 52 + f" using f by simp_all
  have INF: "min INF_MAG b = b" using assms(2) by simp
  have pq: "(p, q) = (if E = 0 then (f, 2 ^ 1074) else if 1075 \<le> E then ((2 ^ 52 + f) * 2 ^ (E - 1075), 1)
      else (2 ^ 52 + f, 2 ^ (1075 - E)))"
    using assms(3) by (simp only: f64_fraction_def Let_def E_def f_def)
  have norm: "(E - 1) * 2 ^ 52 + (2 ^ 52 + f) = b" if "0 < E"
    using that b by (cases E) auto
  consider "E = 0" | "1075 \<le> E" | "0 < E" "E < 1075" by linarith
  then show ?thesis
  proof cases
    case 1
    define k :: nat where "k = 1074"
    have p: "p = f" "q = 2 ^ k" using pq 1 by (simp_all only: k_def simp_thms if_True prod.inject)
    have "0 < f" using assms(1) 1 b by simp
    moreover have "biased_exponent f (2 ^ k) = 1"
      by (rule biased_exponent_subnormal) (use \<open>0 < f\<close> f k_def in simp_all)
    moreover have "f * 2 ^ k * 2 ^ 1 = f * 2 ^ Suc k" by simp
    ultimately show ?thesis
      using round_f64_parts [of f 1 q p] 1 b INF unfolding p by (simp add: k_def del: power_numeral)
  next
    case 2
    then have p: "p = (2 ^ 52 + f) * 2 ^ (E - 1075)" "q = 1" using pq by auto
    have "(2 ^ 52 + f) * q * 2 ^ E = p * 2 ^ 1075"
      unfolding p using pow_split [OF 2] by (simp only: mult.assoc mult_1_left mult_1_right)
    moreover have "biased_exponent p q = E" unfolding p using 2 biased_exponent_int [OF m(1,2)] by simp
    ultimately have "round_f64 p q = min INF_MAG ((E - 1) * 2 ^ 52 + (2 ^ 52 + f))"
      by (intro round_f64_parts [OF m(3)]) (use 2 p in simp_all)
    then show ?thesis using norm INF 2 by (simp del: power_numeral)
  next
    case 3
    then have p: "p = 2 ^ 52 + f" "q = 2 ^ (1075 - E)" using pq by auto
    have "(2 ^ 52 + f) * q * 2 ^ E = p * 2 ^ 1075"
      unfolding p using pow_split [of E 1075] 3 by (simp only: mult.assoc less_imp_le)
    moreover have "biased_exponent p q = E" unfolding p using 3 by (subst biased_exponent_frac [OF m(1,2)]) auto
    ultimately have "round_f64 p q = min INF_MAG ((E - 1) * 2 ^ 52 + (2 ^ 52 + f))"
      by (intro round_f64_parts [OF m(3)]) (use 3 p in simp_all)
    then show ?thesis using norm INF 3 by (simp del: power_numeral)
  qed
qed

section \<open>The text determines the value\<close>

lemma digit_not_point: "is_digit c \<Longrightarrow> c \<noteq> CHR ''.''"
  by (auto simp: is_digit_def)

lemma digits_no_point: "list_all is_digit s \<Longrightarrow> takeWhile (\<lambda>c. c \<noteq> CHR ''.'') (s @ r) = s @ takeWhile (\<lambda>c. c \<noteq> CHR ''.'') r"
  "list_all is_digit s \<Longrightarrow> dropWhile (\<lambda>c. c \<noteq> CHR ''.'') (s @ r) = dropWhile (\<lambda>c. c \<noteq> CHR ''.'') r"
  by (induction s) (auto dest: digit_not_point)

lemma show_nat_all_digits [simp]: "list_all is_digit (show_nat n)"
  by (auto simp: list_all_iff dest: show_nat_digits)

lemma read_decimal_show_nat: "read_decimal (show_nat n) = round_f64 n 1"
proof -
  have "takeWhile (\<lambda>c. c \<noteq> CHR ''.'') (show_nat n) = show_nat n" "dropWhile (\<lambda>c. c \<noteq> CHR ''.'') (show_nat n) = []"
    using digits_no_point [OF show_nat_all_digits, of n "[]"]
    by (simp_all only: append_Nil2 takeWhile.simps dropWhile.simps)
  then show ?thesis
    by (simp only: read_decimal_def Let_def list.sel append_Nil2 read_show_nat list.size power_0)
qed

lemma trim_zeros_spec: "trim_zeros n f = (n', f') \<Longrightarrow> f' \<le> f \<and> n = 10 ^ (f - f') * n'"
proof (induction n f rule: trim_zeros.induct)
  case (2 n f)
  show ?case
  proof (cases "n mod 10 = 0")
    case True
    then have *: "f' \<le> f" "n div 10 = 10 ^ (f - f') * n'" using 2 by auto
    from True have "n = 10 * (n div 10)" by auto
    with * show ?thesis by (simp add: Suc_diff_le)
  next
    case False
    then show ?thesis using 2 by auto
  qed
qed simp

lemma length_pad_left: "length s \<le> w \<Longrightarrow> length (pad_left w s) = w"
  by (simp add: pad_left_def)

lemma read_decimal_positional: "read_decimal (positional n f) = round_f64 n (10 ^ f)"
proof -
  obtain n' f' where t: "trim_zeros n f = (n', f')" by fastforce
  note spec = trim_zeros_spec [OF t]
  have scale: "round_f64 n (10 ^ f) = round_f64 n' (10 ^ f')"
    using round_f64_scale [of "10 ^ (f - f')" "10 ^ f'" n'] spec by (simp flip: power_add)
  show ?thesis
  proof (cases "f' = 0")
    case True
    then show ?thesis using scale by (simp add: positional_def t read_decimal_show_nat)
  next
    case False
    have len: "length (pad_left f' (show_nat (n' mod 10 ^ f'))) = f'"
      by (rule length_pad_left, rule length_show_nat) (use False in simp_all)
    have "positional n f = show_nat (n' div 10 ^ f') @ CHR ''.'' # pad_left f' (show_nat (n' mod 10 ^ f'))"
      using False by (simp add: positional_def t)
    then show ?thesis
      by (simp add: scale read_decimal_def digits_no_point len read_nat_append read_nat_pad div_mult_mod_eq)
  qed
qed

lemma read_decimal_exact:
  assumes "0 < b" "b < INF_MAG"
  shows "read_decimal (exact_text b) = b"
proof -
  define E where "E = b div 2 ^ 52"
  obtain p q where pq: "f64_fraction b = (p, q)" by fastforce
  note r = round_f64_fraction [OF assms pq]
  show ?thesis
  proof (cases "q = 1")
    case True
    then show ?thesis using r by (simp add: exact_text_def pq Let_def read_decimal_show_nat del: power_numeral)
  next
    case False
    define k where "k = (if E = 0 then 1074 else 1075 - E)"
    have q: "q = 2 ^ k"
      using pq False by (auto simp: f64_fraction_def Let_def k_def E_def simp del: power_numeral split: if_splits)
    have "exact_text b = positional (p * 5 ^ k) k"
      using False by (simp add: exact_text_def pq Let_def k_def E_def del: power_numeral)
    moreover have "(10 :: nat) ^ k = 5 ^ k * q" by (simp add: q flip: power_mult_distrib)
    ultimately show ?thesis
      using r round_f64_scale [of "5 ^ k" q p] q by (simp add: read_decimal_positional mult.commute [of p] del: power_numeral)
  qed
qed

lemma first_some_Some: "first_some f xs = Some y \<Longrightarrow> \<exists>x \<in> set xs. f x = Some y"
  by (induction xs) (auto split: option.splits)

lemma read_decimal_shortest: "0 < b \<Longrightarrow> b < INF_MAG \<Longrightarrow> read_decimal (shortest_text b) = b"
  by (auto simp: shortest_text_def read_decimal_exact try_digits_def Let_def
      dest!: first_some_Some split: option.splits if_splits prod.splits)

section \<open>The characters of the text\<close>

definition num_char :: "char \<Rightarrow> bool" where
  "num_char c \<longleftrightarrow> is_digit c \<or> c = CHR ''.''"

definition f64_char :: "char \<Rightarrow> bool" where
  "f64_char c \<longleftrightarrow> num_char c \<or> c \<in> set ''-Nainf''"

lemma num_chars_digits: "list_all is_digit s \<Longrightarrow> list_all num_char s"
  by (auto simp: list_all_iff num_char_def)

lemma num_chars_show_nat [simp]: "list_all num_char (show_nat n)"
  by (simp add: num_chars_digits)

lemma num_chars_positional [simp]: "list_all num_char (positional n f)"
  by (auto simp: positional_def pad_left_def num_char_def is_digit_def list_all_iff
      dest: show_nat_digits split: prod.splits)

lemma num_chars_shortest: "list_all num_char (shortest_text b)"
  by (auto simp: shortest_text_def exact_text_def try_digits_def decimal_text_def Let_def
      simp del: power_numeral dest!: first_some_Some split: option.splits prod.splits if_splits)

definition magnitude_text :: "nat \<Rightarrow> string" where
  "magnitude_text b = (if b = INF_MAG then ''inf'' else if b = 0 then ''0'' else shortest_text b)"

lemma show_f64_magnitude:
  "\<not> is_nan w \<Longrightarrow> show_f64 w = (if f64_neg w then ''-'' else []) @ magnitude_text (f64_mag w)"
  by (simp add: show_f64_def magnitude_text_def)

lemma magnitude_text_finite:
  assumes "b < INF_MAG"
  shows "list_all num_char (magnitude_text b) \<and> read_decimal (magnitude_text b) = b"
proof (cases "b = 0")
  case True
  have "magnitude_text 0 = show_nat 0"
    by (simp add: magnitude_text_def INF_MAG_def show_nat.simps digit_def flip: of_char_eq_iff [where ?'a = nat])
  moreover have "read_decimal (show_nat 0) = 0" by (simp add: read_decimal_show_nat round_f64_def)
  ultimately show ?thesis using True by simp
next
  case False
  with assms have "magnitude_text b = shortest_text b" by (simp add: magnitude_text_def)
  with False assms show ?thesis by (simp add: num_chars_shortest read_decimal_shortest)
qed

lemma magnitude_text_inf: "\<not> list_all num_char (magnitude_text INF_MAG)"
  by (simp add: magnitude_text_def num_char_def is_digit_def)

lemma magnitude_text_inj:
  assumes "b \<le> INF_MAG" "b' \<le> INF_MAG" "magnitude_text b = magnitude_text b'"
  shows "b = b'"
proof -
  consider "b = INF_MAG" "b' = INF_MAG" | "b < INF_MAG" "b' < INF_MAG" | "b < INF_MAG" "b' = INF_MAG" | "b = INF_MAG" "b' < INF_MAG"
    using assms by linarith
  then show ?thesis
  proof cases
    case 2
    then show ?thesis using magnitude_text_finite assms(3) by metis
  qed (use magnitude_text_finite magnitude_text_inf assms(3) in metis)+
qed

lemma magnitude_text_head: "magnitude_text b \<noteq> CHR ''-'' # s"
proof -
  have "\<not> num_char (CHR ''-'')" by (simp add: num_char_def is_digit_def)
  then show ?thesis using num_chars_shortest [of b] by (auto simp: magnitude_text_def)
qed

lemma mod_below_double: "a < n + n \<Longrightarrow> a mod n = (if a < n then a else a - n)" for a n :: nat
  by (simp add: mod_if)

lemma f64_unat: "unat w = (if f64_neg w then 9223372036854775808 else 0) + f64_mag w"
proof -
  have "unat w < 9223372036854775808 + 9223372036854775808" using unat_u64_less [of w] by simp
  from mod_below_double [OF this] show ?thesis by (simp add: f64_neg_def f64_mag_def)
qed

lemma f64_bits: "f64_neg v = f64_neg w \<Longrightarrow> f64_mag v = f64_mag w \<Longrightarrow> v = w"
  using f64_unat [of v] f64_unat [of w] by (simp add: word_unat_eq_iff)

lemma show_f64_inj:
  assumes "\<not> is_nan v" "\<not> is_nan w" "show_f64 v = show_f64 w"
  shows "v = w"
proof -
  have "f64_neg v = f64_neg w \<and> magnitude_text (f64_mag v) = magnitude_text (f64_mag w)"
    using assms magnitude_text_head by (auto simp: show_f64_magnitude split: if_splits) (metis magnitude_text_head)+
  then show ?thesis
    using assms(1,2) by (intro f64_bits) (auto simp: is_nan_def intro!: magnitude_text_inj)
qed

lemma show_f64_chars: "list_all f64_char (show_f64 w)"
proof -
  have "list_all f64_char s" if "list_all num_char s" for s
    using that by (auto simp: list_all_iff f64_char_def)
  then show ?thesis
    using num_chars_shortest [of "f64_mag w"] by (auto simp: show_f64_def f64_char_def num_char_def is_digit_def)
qed

interpretation printed_f64: delimited show_f64 "\<lambda>w. \<not> is_nan w" "not_starting f64_char"
proof
  fix x y r s
  assume a: "\<not> is_nan x" "\<not> is_nan y" "not_starting f64_char r" "not_starting f64_char s"
    "show_f64 x @ r = show_f64 y @ s"
  from class_split [OF show_f64_chars show_f64_chars a(3-5)] have "show_f64 x = show_f64 y" "r = s" by auto
  with show_f64_inj [OF a(1,2)] show "x = y \<and> r = s" by simp
qed

end
