(* ===== verification/Manifest.thy ===== *)
theory Manifest
  imports Crates F64_Display
begin

text \<open>
  The manifest of \<^verbatim>\<open>crates/seal-protocols/src/archive/manifest.rs\<close>: its types, the five
  constructors, the canonical text that is signed (\<open>serialize_canonical\<close>, \<open>to_canonical_bytes\<close>) and
  \<open>validate\<close>. Record fields carry a short prefix where several Rust structs share a field
  name. A \<^verbatim>\<open>BTreeMap<String, String>\<close> is the list of its entries in key order. The main result is
  that the canonical text determines every signed field, so a signature covers all of them.
\<close>

section \<open>Types\<close>

datatype ManifestFormatError = Serialization string | InvalidField string

record GenericMetadata =
  ge_started_at :: string
  ge_ended_at :: string
  ge_data_type :: "string option"
  ge_source :: "string option"
  ge_description :: "string option"
  ge_mime_type :: "string option"
  ge_labels :: "(string \<times> string) list"

record CamVideoMetadata =
  cv_started_at :: string
  cv_ended_at :: string
  cv_timezone :: string
  cv_fps :: f64
  cv_resolution :: string
  cv_codec :: string

record SensorMetadata =
  se_started_at :: string
  se_ended_at :: string
  se_sample_rate_hz :: f64
  se_unit :: string
  se_sensor_model :: string
  se_latitude :: "f64 option"
  se_longitude :: "f64 option"
  se_altitude :: "f64 option"
  se_labels :: "(string \<times> string) list"

record AudioMetadata =
  au_started_at :: string
  au_ended_at :: string
  au_sample_rate_hz :: u32
  au_bit_depth :: u16
  au_channels :: u8
  au_codec :: string

record LogMetadata =
  lo_started_at :: string
  lo_ended_at :: string
  lo_application :: string
  lo_host :: string
  lo_log_level :: string
  lo_log_format :: string

datatype ProfileMetadata =
    CamVideo CamVideoMetadata
  | Sensor SensorMetadata
  | Audio AudioMetadata
  | Log LogMetadata
  | Generic GenericMetadata

record DeviceInfo =
  dev_id :: string
  dev_model :: string
  firmware_version :: string
  public_key :: string
  key_agreement_public :: "string option"
  key_epoch :: "u32 option"

record ChunkInfo =
  size_bytes :: u64
  chunk_duration_seconds :: f64

record SegmentInfo =
  chunk_file :: string
  seg_blake3_hash :: string
  start_time :: string
  seg_duration_seconds :: f64
  continuity_hash :: string

record HpkeSuite =
  hpke_kem :: string
  hpke_kdf :: string
  hpke_aead :: string

record RecipientEntry =
  recipient_id :: string
  recipient_pub :: string
  recipient_enc :: string
  wrapped_cek :: string

record EncryptionBlock =
  content_aead :: string
  hpke :: HpkeSuite
  recipients :: "RecipientEntry list"

record TrstManifest =
  trst_version :: string
  profile :: string
  device :: DeviceInfo
  metadata :: ProfileMetadata
  chunk_info :: ChunkInfo
  segments :: "SegmentInfo list"
  claims :: "string list"
  encryption :: "EncryptionBlock option"
  sequence :: "u64 option"
  prev_archive_hash :: "string option"
  man_signature :: "string option"

section \<open>Constructors\<close>

definition F64_2 :: f64 where "F64_2 = 0x4000000000000000"
definition F64_30 :: f64 where "F64_30 = 0x403E000000000000"
definition F64_100 :: f64 where "F64_100 = 0x4059000000000000"

definition default_device :: "string \<Rightarrow> DeviceInfo" where
  "default_device model = \<lparr> dev_id = [], dev_model = model, firmware_version = ''1.0.0'', public_key = [],
     key_agreement_public = None, key_epoch = None \<rparr>"

definition default_chunk :: ChunkInfo where
  "default_chunk = \<lparr> size_bytes = 1048576, chunk_duration_seconds = F64_2 \<rparr>"

definition manifest_new :: TrstManifest where
  "manifest_new = \<lparr> trst_version = ''0.2.0'', profile = ''generic'', device = default_device ''TrustEdgeRefCam'',
     metadata = Generic \<lparr> ge_started_at = [], ge_ended_at = [], ge_data_type = None, ge_source = None,
       ge_description = None, ge_mime_type = None, ge_labels = [] \<rparr>,
     chunk_info = default_chunk, segments = [], claims = [], encryption = None, sequence = None,
     prev_archive_hash = None, man_signature = None \<rparr>"

definition new_cam_video :: TrstManifest where
  "new_cam_video = \<lparr> trst_version = ''0.2.0'', profile = ''cam.video'', device = default_device ''TrustEdgeRefCam'',
     metadata = CamVideo \<lparr> cv_started_at = [], cv_ended_at = [], cv_timezone = ''UTC'', cv_fps = F64_30,
       cv_resolution = ''1920x1080'', cv_codec = ''raw'' \<rparr>,
     chunk_info = default_chunk, segments = [], claims = [], encryption = None, sequence = None,
     prev_archive_hash = None, man_signature = None \<rparr>"

definition new_sensor :: TrstManifest where
  "new_sensor = \<lparr> trst_version = ''0.2.0'', profile = ''sensor'', device = default_device ''TrustEdgeRefSensor'',
     metadata = Sensor \<lparr> se_started_at = [], se_ended_at = [], se_sample_rate_hz = F64_100, se_unit = [],
       se_sensor_model = [], se_latitude = None, se_longitude = None, se_altitude = None, se_labels = [] \<rparr>,
     chunk_info = default_chunk, segments = [], claims = [], encryption = None, sequence = None,
     prev_archive_hash = None, man_signature = None \<rparr>"

definition new_audio :: TrstManifest where
  "new_audio = \<lparr> trst_version = ''0.2.0'', profile = ''audio'', device = default_device ''TrustEdgeRefAudio'',
     metadata = Audio \<lparr> au_started_at = [], au_ended_at = [], au_sample_rate_hz = 44100, au_bit_depth = 16,
       au_channels = 2, au_codec = ''pcm'' \<rparr>,
     chunk_info = default_chunk, segments = [], claims = [], encryption = None, sequence = None,
     prev_archive_hash = None, man_signature = None \<rparr>"

definition new_log :: TrstManifest where
  "new_log = \<lparr> trst_version = ''0.2.0'', profile = ''log'', device = default_device ''TrustEdgeRefLog'',
     metadata = Log \<lparr> lo_started_at = [], lo_ended_at = [], lo_application = [], lo_host = [],
       lo_log_level = ''info'', lo_log_format = ''json'' \<rparr>,
     chunk_info = default_chunk, segments = [], claims = [], encryption = None, sequence = None,
     prev_archive_hash = None, man_signature = None \<rparr>"

definition set_signature :: "TrstManifest \<Rightarrow> string \<Rightarrow> TrstManifest" where
  "set_signature m s = m\<lparr> man_signature := Some s \<rparr>"

section \<open>Canonical text\<close>

text \<open>\<open>jkey k\<close> is the text \<^verbatim>\<open>"k":\<close> and \<open>ckey k\<close> the same after a comma.\<close>

definition jkey :: "string \<Rightarrow> string" where
  "jkey k = CHR 0x22 # k @ [CHR 0x22, CHR '':'']"

definition ckey :: "string \<Rightarrow> string" where
  "ckey k = CHR '','' # jkey k"

definition opt_field :: "string \<Rightarrow> ('a \<Rightarrow> string) \<Rightarrow> 'a option \<Rightarrow> string" where
  "opt_field k enc v = (case v of None \<Rightarrow> [] | Some x \<Rightarrow> ckey k @ enc x)"

text \<open>The loops that write a comma before every element but the first.\<close>

fun comma_rest :: "('a \<Rightarrow> string) \<Rightarrow> 'a list \<Rightarrow> string" where
  "comma_rest enc [] = []"
| "comma_rest enc (x # xs) = CHR '','' # enc x @ comma_rest enc xs"

fun comma_list :: "('a \<Rightarrow> string) \<Rightarrow> 'a list \<Rightarrow> string" where
  "comma_list enc [] = []"
| "comma_list enc (x # xs) = enc x @ comma_rest enc xs"

definition canon_epoch :: "u32 option \<Rightarrow> string" where
  "canon_epoch e = (case e of None \<Rightarrow> [] | Some epoch \<Rightarrow>
     if 0 < epoch then ckey ''key_epoch'' @ show_nat (unat epoch) else [])"

definition canon_device :: "'x crates_scheme \<Rightarrow> DeviceInfo \<Rightarrow> string" where
  "canon_device X d =
     CHR ''{'' # jkey ''id'' @ json_str X (dev_id d) @ ckey ''model'' @ json_str X (dev_model d) @
     ckey ''firmware_version'' @ json_str X (firmware_version d) @
     ckey ''public_key'' @ json_str X (public_key d) @
     opt_field ''key_agreement_public'' (json_str X) (key_agreement_public d) @
     canon_epoch (key_epoch d) @ ''}''"

definition canon_label :: "'x crates_scheme \<Rightarrow> string \<times> string \<Rightarrow> string" where
  "canon_label X kv = json_str X (fst kv) @ CHR '':'' # json_str X (snd kv)"

definition canon_labels :: "'x crates_scheme \<Rightarrow> (string \<times> string) list \<Rightarrow> string" where
  "canon_labels X ls =
     (if ls = [] then [] else ckey ''labels'' @ CHR ''{'' # comma_list (canon_label X) ls @ ''}'')"

definition canon_times :: "'x crates_scheme \<Rightarrow> string \<Rightarrow> string \<Rightarrow> string" where
  "canon_times X started ended =
     CHR ''{'' # jkey ''started_at'' @ json_str X started @ ckey ''ended_at'' @ json_str X ended"

fun canon_metadata :: "'x crates_scheme \<Rightarrow> ProfileMetadata \<Rightarrow> string" where
  "canon_metadata X (CamVideo m) =
     canon_times X (cv_started_at m) (cv_ended_at m) @ ckey ''timezone'' @ json_str X (cv_timezone m) @
     ckey ''fps'' @ show_f64 (cv_fps m) @ ckey ''resolution'' @ json_str X (cv_resolution m) @
     ckey ''codec'' @ json_str X (cv_codec m) @ ''}''"
| "canon_metadata X (Sensor m) =
     canon_times X (se_started_at m) (se_ended_at m) @
     ckey ''sample_rate_hz'' @ show_f64 (se_sample_rate_hz m) @ ckey ''unit'' @ json_str X (se_unit m) @
     ckey ''sensor_model'' @ json_str X (se_sensor_model m) @
     opt_field ''latitude'' show_f64 (se_latitude m) @ opt_field ''longitude'' show_f64 (se_longitude m) @
     opt_field ''altitude'' show_f64 (se_altitude m) @ canon_labels X (se_labels m) @ ''}''"
| "canon_metadata X (Audio m) =
     canon_times X (au_started_at m) (au_ended_at m) @
     ckey ''sample_rate_hz'' @ show_nat (unat (au_sample_rate_hz m)) @
     ckey ''bit_depth'' @ show_nat (unat (au_bit_depth m)) @
     ckey ''channels'' @ show_nat (unat (au_channels m)) @
     ckey ''codec'' @ json_str X (au_codec m) @ ''}''"
| "canon_metadata X (Log m) =
     canon_times X (lo_started_at m) (lo_ended_at m) @
     ckey ''application'' @ json_str X (lo_application m) @ ckey ''host'' @ json_str X (lo_host m) @
     ckey ''log_level'' @ json_str X (lo_log_level m) @ ckey ''log_format'' @ json_str X (lo_log_format m) @ ''}''"
| "canon_metadata X (Generic m) =
     canon_times X (ge_started_at m) (ge_ended_at m) @
     opt_field ''data_type'' (json_str X) (ge_data_type m) @ opt_field ''source'' (json_str X) (ge_source m) @
     opt_field ''description'' (json_str X) (ge_description m) @
     opt_field ''mime_type'' (json_str X) (ge_mime_type m) @ canon_labels X (ge_labels m) @ ''}''"

definition canon_chunk :: "ChunkInfo \<Rightarrow> string" where
  "canon_chunk c =
     CHR ''{'' # jkey ''size_bytes'' @ show_nat (unat (size_bytes c)) @
     ckey ''duration_seconds'' @ show_f64 (chunk_duration_seconds c) @ ''}''"

definition canon_segment :: "'x crates_scheme \<Rightarrow> SegmentInfo \<Rightarrow> string" where
  "canon_segment X s =
     CHR ''{'' # jkey ''chunk_file'' @ json_str X (chunk_file s) @
     ckey ''blake3_hash'' @ json_str X (seg_blake3_hash s) @ ckey ''start_time'' @ json_str X (start_time s) @
     ckey ''duration_seconds'' @ show_f64 (seg_duration_seconds s) @
     ckey ''continuity_hash'' @ json_str X (continuity_hash s) @ ''}''"

definition canon_recipient :: "'x crates_scheme \<Rightarrow> RecipientEntry \<Rightarrow> string" where
  "canon_recipient X r =
     CHR ''{'' # jkey ''recipient_id'' @ json_str X (recipient_id r) @
     ckey ''recipient_pub'' @ json_str X (recipient_pub r) @ ckey ''enc'' @ json_str X (recipient_enc r) @
     ckey ''wrapped_cek'' @ json_str X (wrapped_cek r) @ ''}''"

definition canon_encryption :: "'x crates_scheme \<Rightarrow> EncryptionBlock \<Rightarrow> string" where
  "canon_encryption X e =
     CHR ''{'' # jkey ''content_aead'' @ json_str X (content_aead e) @
     ckey ''hpke'' @ CHR ''{'' # jkey ''kem'' @ json_str X (hpke_kem (hpke e)) @
     ckey ''kdf'' @ json_str X (hpke_kdf (hpke e)) @ ckey ''aead'' @ json_str X (hpke_aead (hpke e)) @
     CHR ''}'' # ckey ''recipients'' @ CHR ''['' # comma_list (canon_recipient X) (recipients e) @ '']}''"

definition serialize_canonical :: "'x crates_scheme \<Rightarrow> TrstManifest \<Rightarrow> string" where
  "serialize_canonical X m =
     CHR ''{'' # jkey ''trst_version'' @ json_str X (trst_version m) @
     ckey ''profile'' @ json_str X (profile m) @
     ckey ''device'' @ canon_device X (device m) @
     ckey ''metadata'' @ canon_metadata X (metadata m) @
     ckey ''chunk'' @ canon_chunk (chunk_info m) @
     ckey ''segments'' @ CHR ''['' # comma_list (canon_segment X) (segments m) @ CHR '']'' #
     ckey ''claims'' @ json_strs X (claims m) @
     opt_field ''encryption'' (canon_encryption X) (encryption m) @
     opt_field ''sequence'' (\<lambda>n. show_nat (unat n)) (sequence m) @
     opt_field ''prev_archive_hash'' (json_str X) (prev_archive_hash m) @ ''}''"

definition to_canonical_bytes :: "'x crates_scheme \<Rightarrow> TrstManifest \<Rightarrow> bytes" where
  "to_canonical_bytes X m = str_bytes (serialize_canonical X (m\<lparr> man_signature := None \<rparr>))"

section \<open>Validation\<close>

definition is_ascii_hexdigit :: "char \<Rightarrow> bool" where
  "is_ascii_hexdigit c \<longleftrightarrow>
     (let n = (of_char c :: nat) in 48 \<le> n \<and> n \<le> 57 \<or> 65 \<le> n \<and> n \<le> 70 \<or> 97 \<le> n \<and> n \<le> 102)"

definition squoted :: "string \<Rightarrow> string" where
  "squoted s = CHR 0x27 # s @ [CHR 0x27]"

definition field_ok :: "bool \<Rightarrow> string \<Rightarrow> ManifestFormatError + unit" where
  "field_ok b msg = ensure b (InvalidField msg)"

definition validate_times :: "string \<Rightarrow> string \<Rightarrow> (ManifestFormatError + unit) list" where
  "validate_times started ended =
     [field_ok (started \<noteq> []) ''metadata.started_at cannot be empty'',
      field_ok (ended \<noteq> []) ''metadata.ended_at cannot be empty'']"

fun validate_metadata :: "ProfileMetadata \<Rightarrow> ManifestFormatError + unit" where
  "validate_metadata (CamVideo m) = all_of (validate_times (cv_started_at m) (cv_ended_at m))"
| "validate_metadata (Sensor m) = all_of (validate_times (se_started_at m) (se_ended_at m) @
     [field_ok (\<not> f64_le_zero (se_sample_rate_hz m)) ''metadata.sample_rate_hz must be > 0'',
      field_ok (se_unit m \<noteq> []) ''metadata.unit cannot be empty'',
      field_ok (se_sensor_model m \<noteq> []) ''metadata.sensor_model cannot be empty''])"
| "validate_metadata (Audio m) = all_of (validate_times (au_started_at m) (au_ended_at m) @
     [field_ok (au_sample_rate_hz m \<noteq> 0) ''metadata.sample_rate_hz must be > 0'',
      field_ok (au_bit_depth m \<noteq> 0) ''metadata.bit_depth must be > 0'',
      field_ok (au_channels m \<noteq> 0) ''metadata.channels must be > 0'',
      field_ok (au_codec m \<noteq> []) ''metadata.codec cannot be empty''])"
| "validate_metadata (Log m) = all_of (validate_times (lo_started_at m) (lo_ended_at m) @
     [field_ok (lo_application m \<noteq> []) ''metadata.application cannot be empty'',
      field_ok (lo_host m \<noteq> []) ''metadata.host cannot be empty'',
      field_ok (lo_log_level m \<noteq> []) ''metadata.log_level cannot be empty'',
      field_ok (lo_log_format m \<noteq> []) ''metadata.log_format cannot be empty''])"
| "validate_metadata (Generic m) = all_of (validate_times (ge_started_at m) (ge_ended_at m))"

definition segment_msg :: "nat \<Rightarrow> string \<Rightarrow> string" where
  "segment_msg i f = ''segment['' @ show_nat i @ '']'' @ f"

fun validate_segments :: "nat \<Rightarrow> SegmentInfo list \<Rightarrow> ManifestFormatError + unit" where
  "validate_segments i [] = Inr ()"
| "validate_segments i (s # ss) =
     res_bind (all_of
       [field_ok (chunk_file s \<noteq> []) (segment_msg i ''.chunk_file cannot be empty''),
        field_ok (seg_blake3_hash s \<noteq> []) (segment_msg i ''.blake3_hash cannot be empty''),
        field_ok (continuity_hash s \<noteq> []) (segment_msg i ''.continuity_hash cannot be empty'')])
      (\<lambda>_. validate_segments (Suc i) ss)"

definition prev_well_formed :: "string \<Rightarrow> bool" where
  "prev_well_formed prev =
     (case strip_prefix ''b3:'' prev of None \<Rightarrow> False | Some h \<Rightarrow> length h = 64 \<and> list_all is_ascii_hexdigit h)"

fun validate_chronicle_fields :: "u64 option \<Rightarrow> string option \<Rightarrow> ManifestFormatError + unit" where
  "validate_chronicle_fields None None = Inr ()"
| "validate_chronicle_fields None (Some p) = Inl (InvalidField ''prev_archive_hash requires a sequence'')"
| "validate_chronicle_fields (Some n) None =
     field_ok (n = 0) ''sequence > 0 requires prev_archive_hash''"
| "validate_chronicle_fields (Some n) (Some prev) =
     (if n = 0 then Inl (InvalidField ''genesis archive (sequence 0) must not set prev_archive_hash'')
      else field_ok (prev_well_formed prev) (''prev_archive_hash must be '' @ squoted ''b3:<64 hex>''))"

definition manifest_validate :: "TrstManifest \<Rightarrow> ManifestFormatError + unit" where
  "manifest_validate m = all_of
     [field_ok (trst_version m \<noteq> []) ''trst_version cannot be empty'',
      field_ok (profile m \<in> set [''generic'', ''cam.video'', ''sensor'', ''audio'', ''log''])
        (''profile must be '' @ squoted ''generic'' @ '', '' @ squoted ''cam.video'' @ '', '' @
         squoted ''sensor'' @ '', '' @ squoted ''audio'' @ '', or '' @ squoted ''log'' @ '', got '' @
         squoted (profile m)),
      field_ok (dev_id (device m) \<noteq> []) ''device.id cannot be empty'',
      field_ok (public_key (device m) \<noteq> []) ''device.public_key cannot be empty'',
      validate_metadata (metadata m),
      field_ok (segments m \<noteq> []) ''segments cannot be empty'',
      validate_segments 0 (segments m),
      field_ok (case encryption m of None \<Rightarrow> True | Some e \<Rightarrow> recipients e \<noteq> [])
        ''encryption.recipients cannot be empty (use sign-only mode for no encryption)'',
      validate_chronicle_fields (sequence m) (prev_archive_hash m),
      field_ok (key_epoch (device m) \<noteq> Some 0)
        ''device.key_epoch must be >= 1 when present (epoch 0 is represented by absence)'']"

section \<open>Splitting canonical text\<close>

named_theorems canon "rewrite rules that split canonical text field by field"

lemma quote_free_split:
  assumes "CHR 0x22 \<notin> set k" "CHR 0x22 \<notin> set k'" "k @ CHR 0x22 # r = k' @ CHR 0x22 # s"
  shows "k = k' \<and> r = s"
  using assms
proof (induction k arbitrary: k')
  case Nil
  then show ?case by (cases k') auto
next
  case (Cons c k)
  then show ?case by (cases k') auto
qed

lemma ckey_split [canon]:
  "CHR 0x22 \<notin> set k \<Longrightarrow> CHR 0x22 \<notin> set k' \<Longrightarrow> ckey k @ r = ckey k' @ s \<longleftrightarrow> k = k' \<and> r = s"
  by (auto simp: ckey_def jkey_def dest: quote_free_split)

lemma jkey_split [canon]: "jkey k @ r = jkey k @ s \<longleftrightarrow> r = s"
  by (simp add: jkey_def)

lemma ckey_brace [canon]: "ckey k @ r \<noteq> CHR ''}'' # s" "CHR ''}'' # s \<noteq> ckey k @ r"
  by (simp_all add: ckey_def)

lemma starts_with_ckey [canon]:
  "CHR 0x22 \<notin> set k \<Longrightarrow> CHR 0x22 \<notin> set k' \<Longrightarrow> starts_with (ckey k) (ckey k' @ r) \<longleftrightarrow> k = k'"
  "\<not> starts_with (ckey k) (CHR ''}'' # r)"
  by (auto simp: starts_with_iff ckey_split ckey_brace)

lemma starts_with_opt [canon]:
  "CHR 0x22 \<notin> set k \<Longrightarrow> CHR 0x22 \<notin> set k' \<Longrightarrow> k \<noteq> k' \<Longrightarrow>
     starts_with (ckey k) (opt_field k' enc v @ r) \<longleftrightarrow> v = None \<and> starts_with (ckey k) r"
  by (cases v) (simp_all add: opt_field_def starts_with_ckey)

lemma not_starting_ckey [canon]:
  "not_starting P (ckey k @ r) \<longleftrightarrow> \<not> P CHR '',''"
  by (simp add: ckey_def)

lemma not_starting_opt [canon]:
  "\<not> P CHR '','' \<Longrightarrow> not_starting P r \<Longrightarrow> not_starting P (opt_field k enc v @ r)"
  by (cases v) (simp_all add: opt_field_def not_starting_ckey)

lemma stop_chars [canon, simp]:
  "\<not> is_digit CHR '',''" "\<not> is_digit CHR ''}''" "\<not> f64_char CHR '',''" "\<not> f64_char CHR ''}''"
  by (simp_all add: is_digit_def f64_char_def num_char_def)

lemma opt_field_split:
  assumes item: "\<And>x y. a = Some x \<Longrightarrow> b = Some y \<Longrightarrow> enc x @ r = enc y @ s \<Longrightarrow> x = y \<and> r = s"
    and r: "\<not> starts_with (ckey k) r" and s: "\<not> starts_with (ckey k) s"
  shows "opt_field k enc a @ r = opt_field k enc b @ s \<longleftrightarrow> a = b \<and> r = s"
proof
  assume eq: "opt_field k enc a @ r = opt_field k enc b @ s"
  show "a = b \<and> r = s"
  proof (cases a)
    case None
    then show ?thesis using eq r by (cases b) (auto simp: opt_field_def)
  next
    case (Some x)
    then obtain y where y: "b = Some y" using eq s by (cases b) (auto simp: opt_field_def)
    then have "enc x @ r = enc y @ s" using eq Some by (simp add: opt_field_def)
    from item [OF Some y this] show ?thesis by (simp add: Some y)
  qed
qed simp

lemma opt_json_split [canon]:
  "json_ok X \<Longrightarrow> \<not> starts_with (ckey k) r \<Longrightarrow> \<not> starts_with (ckey k) s \<Longrightarrow>
     opt_field k (json_str X) a @ r = opt_field k (json_str X) b @ s \<longleftrightarrow> a = b \<and> r = s"
  by (rule opt_field_split) (simp_all add: json_str_split)

lemma f64_split [canon]:
  "\<not> is_nan x \<Longrightarrow> \<not> is_nan y \<Longrightarrow> not_starting f64_char r \<Longrightarrow> not_starting f64_char s \<Longrightarrow>
     show_f64 x @ r = show_f64 y @ s \<longleftrightarrow> x = y \<and> r = s"
  using printed_f64.split [of x y r s] by auto

lemma nat_split [canon]:
  "not_starting is_digit r \<Longrightarrow> not_starting is_digit s \<Longrightarrow>
     show_nat x @ r = show_nat y @ s \<longleftrightarrow> x = y \<and> r = s"
  using printed_nat.split [of r s x y] by auto

lemma opt_f64_split [canon]:
  assumes "pred_option (\<lambda>x. \<not> is_nan x) a" "pred_option (\<lambda>x. \<not> is_nan x) b"
    and "not_starting f64_char r" "not_starting f64_char s"
    and "\<not> starts_with (ckey k) r" "\<not> starts_with (ckey k) s"
  shows "opt_field k show_f64 a @ r = opt_field k show_f64 b @ s \<longleftrightarrow> a = b \<and> r = s"
  by (rule opt_field_split) (use assms in \<open>auto simp: f64_split\<close>)

lemma opt_u64_split [canon]:
  assumes "not_starting is_digit r" "not_starting is_digit s"
    and "\<not> starts_with (ckey k) r" "\<not> starts_with (ckey k) s"
  shows "opt_field k (\<lambda>n. show_nat (unat n)) a @ r = opt_field k (\<lambda>n. show_nat (unat n)) b @ s \<longleftrightarrow> a = b \<and> r = s"
  by (rule opt_field_split) (use assms in \<open>auto simp: nat_split word_unat_eq_iff\<close>)

lemmas json_split [canon] = json_str_split json_strs_split

lemma comma_rest_split:
  assumes "\<And>x y r s. x \<in> set xs \<Longrightarrow> y \<in> set ys \<Longrightarrow> enc x @ r = enc y @ s \<Longrightarrow> x = y \<and> r = s"
    and "c \<noteq> CHR '',''" "comma_rest enc xs @ c # r = comma_rest enc ys @ c # s"
  shows "xs = ys \<and> r = s"
  using assms
proof (induction xs arbitrary: ys)
  case Nil
  then show ?case by (cases ys) auto
next
  case (Cons x xs)
  from Cons.prems(2,3) obtain y ys' where ys: "ys = y # ys'" by (cases ys) auto
  have "enc x @ comma_rest enc xs @ c # r = enc y @ comma_rest enc ys' @ c # s" using Cons.prems(3) ys by simp
  then have *: "x = y" "comma_rest enc xs @ c # r = comma_rest enc ys' @ c # s"
    using Cons.prems(1) [of x y] ys by auto
  have "xs = ys' \<and> r = s"
    by (rule Cons.IH [OF _ Cons.prems(2) *(2)]) (use Cons.prems(1) ys in auto)
  with * ys show ?case by simp
qed

lemma comma_list_split:
  assumes item: "\<And>x y r s. x \<in> set xs \<Longrightarrow> y \<in> set ys \<Longrightarrow> enc x @ r = enc y @ s \<Longrightarrow> x = y \<and> r = s"
    and head: "\<And>x t. enc x @ t \<noteq> c # u" "\<And>x t. enc x @ t \<noteq> c # v"
    and c: "c \<noteq> CHR '',''"
  shows "comma_list enc xs @ c # u = comma_list enc ys @ c # v \<longleftrightarrow> xs = ys \<and> u = v"
proof
  assume eq: "comma_list enc xs @ c # u = comma_list enc ys @ c # v"
  show "xs = ys \<and> u = v"
  proof (cases xs)
    case Nil
    then show ?thesis using eq head(1) by (cases ys) (auto simp: eq_commute)
  next
    case (Cons x xs')
    then obtain y ys' where ys: "ys = y # ys'" using eq head(2) by (cases ys) auto
    have "x = y" "comma_rest enc xs' @ c # u = comma_rest enc ys' @ c # v"
      using item [of x y] eq Cons ys by auto
    moreover have "xs' = ys' \<and> u = v"
      by (rule comma_rest_split [OF _ c]) (use item Cons ys calculation in auto)
    ultimately show ?thesis using Cons ys by simp
  qed
qed simp

lemma ckey_opt [canon]:
  assumes "CHR 0x22 \<notin> set k" "CHR 0x22 \<notin> set k'" "k \<noteq> k'"
  shows "ckey k @ r = opt_field k' enc v @ s \<longleftrightarrow> v = None \<and> ckey k @ r = s"
    "opt_field k' enc v @ s = ckey k @ r \<longleftrightarrow> v = None \<and> s = ckey k @ r"
  using assms by (cases v; simp add: opt_field_def ckey_split)+

lemma f64_nat_split [canon]:
  assumes "not_starting f64_char r" "not_starting f64_char s"
  shows "show_f64 x @ r = show_nat n @ s \<longleftrightarrow> show_f64 x = show_nat n \<and> r = s"
    "show_nat n @ s = show_f64 x @ r \<longleftrightarrow> show_nat n = show_f64 x \<and> s = r"
proof -
  have "list_all f64_char (show_nat n)"
    by (auto simp: list_all_iff f64_char_def num_char_def dest: show_nat_digits)
  from class_split [OF show_f64_chars this assms] class_split [OF this show_f64_chars assms(2,1)]
  show "show_f64 x @ r = show_nat n @ s \<longleftrightarrow> show_f64 x = show_nat n \<and> r = s"
    "show_nat n @ s = show_f64 x @ r \<longleftrightarrow> show_nat n = show_f64 x \<and> s = r" by auto
qed

lemma canon_epoch_opt: "e \<noteq> Some 0 \<Longrightarrow> canon_epoch e = opt_field ''key_epoch'' (\<lambda>n. show_nat (unat n)) e"
  by (cases e) (auto simp: canon_epoch_def opt_field_def word_gt_0)

lemma canon_device_split:
  assumes "json_ok X" "key_epoch d \<noteq> Some 0" "key_epoch d' \<noteq> Some 0"
    and "canon_device X d @ r = canon_device X d' @ s"
  shows "d = d' \<and> r = s"
  using assms by (cases d; cases d') (simp add: canon_device_def canon_epoch_opt canon)

lemma canon_label_split:
  "json_ok X \<Longrightarrow> canon_label X a @ r = canon_label X b @ s \<Longrightarrow> a = b \<and> r = s"
  by (cases a; cases b) (simp add: canon_label_def canon)

lemma canon_label_head: "json_ok X \<Longrightarrow> canon_label X a @ t \<noteq> CHR ''}'' # u"
  using json_str_head [of X "fst a"] by (auto simp: canon_label_def)

lemma canon_labels_opt:
  "canon_labels X ls = opt_field ''labels'' (\<lambda>l. CHR ''{'' # comma_list (canon_label X) l @ ''}'')
     (if ls = [] then None else Some ls)"
  by (simp add: canon_labels_def opt_field_def)

lemma canon_labels_front [canon]:
  "\<not> P CHR '','' \<Longrightarrow> not_starting P r \<Longrightarrow> not_starting P (canon_labels X ls @ r)"
  "CHR 0x22 \<notin> set k \<Longrightarrow> k \<noteq> ''labels'' \<Longrightarrow>
     starts_with (ckey k) (canon_labels X ls @ r) \<longleftrightarrow> ls = [] \<and> starts_with (ckey k) r"
  "CHR 0x22 \<notin> set k \<Longrightarrow> k \<noteq> ''labels'' \<Longrightarrow> ckey k @ r = canon_labels X ls @ s \<longleftrightarrow> ls = [] \<and> ckey k @ r = s"
  "CHR 0x22 \<notin> set k \<Longrightarrow> k \<noteq> ''labels'' \<Longrightarrow> canon_labels X ls @ s = ckey k @ r \<longleftrightarrow> ls = [] \<and> s = ckey k @ r"
  by (simp_all add: canon_labels_opt not_starting_opt starts_with_opt ckey_opt)

lemma canon_labels_split [canon]:
  assumes "json_ok X" "\<not> starts_with (ckey ''labels'') r" "\<not> starts_with (ckey ''labels'') s"
  shows "canon_labels X a @ r = canon_labels X b @ s \<longleftrightarrow> a = b \<and> r = s"
proof -
  have "opt_field ''labels'' (\<lambda>l. CHR ''{'' # comma_list (canon_label X) l @ ''}'') (if a = [] then None else Some a) @ r =
      opt_field ''labels'' (\<lambda>l. CHR ''{'' # comma_list (canon_label X) l @ ''}'') (if b = [] then None else Some b) @ s \<longleftrightarrow>
      (if a = [] then None else Some a) = (if b = [] then None else Some b) \<and> r = s"
  proof (rule opt_field_split [OF _ assms(2,3)])
    fix x y
    assume "(CHR ''{'' # comma_list (canon_label X) x @ ''}'') @ r = (CHR ''{'' # comma_list (canon_label X) y @ ''}'') @ s"
    then have "comma_list (canon_label X) x @ CHR ''}'' # r = comma_list (canon_label X) y @ CHR ''}'' # s" by simp
    moreover have "comma_list (canon_label X) x @ CHR ''}'' # r = comma_list (canon_label X) y @ CHR ''}'' # s \<longleftrightarrow> x = y \<and> r = s"
      by (rule comma_list_split [OF canon_label_split [OF assms(1)] canon_label_head canon_label_head])
        (simp_all add: assms(1))
    ultimately show "x = y \<and> r = s" by simp
  qed
  then show ?thesis unfolding canon_labels_opt by (auto split: if_splits)
qed

lemma canon_times_split [canon]:
  "json_ok X \<Longrightarrow> canon_times X a b @ r = canon_times X c d @ s \<longleftrightarrow> a = c \<and> b = d \<and> r = s"
  by (auto simp: canon_times_def canon)

fun metadata_finite :: "ProfileMetadata \<Rightarrow> bool" where
  "metadata_finite (CamVideo m) \<longleftrightarrow> \<not> is_nan (cv_fps m)"
| "metadata_finite (Sensor m) \<longleftrightarrow> \<not> is_nan (se_sample_rate_hz m) \<and> pred_option (\<lambda>x. \<not> is_nan x) (se_latitude m) \<and>
     pred_option (\<lambda>x. \<not> is_nan x) (se_longitude m) \<and> pred_option (\<lambda>x. \<not> is_nan x) (se_altitude m)"
| "metadata_finite _ \<longleftrightarrow> True"

lemma canon_metadata_same:
  assumes "json_ok X"
  shows "metadata_finite (CamVideo a) \<Longrightarrow> metadata_finite (CamVideo b) \<Longrightarrow>
      canon_metadata X (CamVideo a) @ r = canon_metadata X (CamVideo b) @ s \<Longrightarrow> a = b \<and> r = s"
    and "metadata_finite (Sensor c) \<Longrightarrow> metadata_finite (Sensor d) \<Longrightarrow>
      canon_metadata X (Sensor c) @ r = canon_metadata X (Sensor d) @ s \<Longrightarrow> c = d \<and> r = s"
    and "canon_metadata X (Audio e) @ r = canon_metadata X (Audio f) @ s \<Longrightarrow> e = f \<and> r = s"
    and "canon_metadata X (Log g) @ r = canon_metadata X (Log h) @ s \<Longrightarrow> g = h \<and> r = s"
    and "canon_metadata X (Generic i) @ r = canon_metadata X (Generic j) @ s \<Longrightarrow> i = j \<and> r = s"
proof -
  assume "metadata_finite (CamVideo a)" "metadata_finite (CamVideo b)"
    "canon_metadata X (CamVideo a) @ r = canon_metadata X (CamVideo b) @ s"
  then show "a = b \<and> r = s" using assms by (cases a; cases b) (simp add: canon)
next
  assume "metadata_finite (Sensor c)" "metadata_finite (Sensor d)"
    "canon_metadata X (Sensor c) @ r = canon_metadata X (Sensor d) @ s"
  then show "c = d \<and> r = s" using assms by (cases c; cases d) (simp add: canon)
next
  assume "canon_metadata X (Audio e) @ r = canon_metadata X (Audio f) @ s"
  then show "e = f \<and> r = s" using assms by (cases e; cases f) (simp add: canon word_unat_eq_iff)
next
  assume "canon_metadata X (Log g) @ r = canon_metadata X (Log h) @ s"
  then show "g = h \<and> r = s" using assms by (cases g; cases h) (simp add: canon)
next
  assume "canon_metadata X (Generic i) @ r = canon_metadata X (Generic j) @ s"
  then show "i = j \<and> r = s" using assms by (cases i; cases j) (simp add: canon)
qed

fun metadata_tag :: "ProfileMetadata \<Rightarrow> nat" where
  "metadata_tag (CamVideo _) = 0" | "metadata_tag (Sensor _) = 1" | "metadata_tag (Audio _) = 2"
| "metadata_tag (Log _) = 3" | "metadata_tag (Generic _) = 4"

lemma canon_metadata_tag:
  assumes "json_ok X" "canon_metadata X m @ r = canon_metadata X m' @ s"
  shows "metadata_tag m = metadata_tag m'"
  using assms by (cases m; cases m') (simp_all add: canon)

lemma canon_metadata_split:
  assumes "json_ok X" "metadata_finite m" "metadata_finite m'"
    and "canon_metadata X m @ r = canon_metadata X m' @ s"
  shows "m = m' \<and> r = s"
proof -
  note tag = canon_metadata_tag [OF assms(1,4)]
  note same = canon_metadata_same [OF assms(1)]
  show ?thesis
  proof (cases m)
    case (CamVideo a)
    with tag obtain b where m': "m' = CamVideo b" by (cases m') auto
    show ?thesis using same(1) [of a b r s] assms(2-4) unfolding CamVideo m' by blast
  next
    case (Sensor a)
    with tag obtain b where m': "m' = Sensor b" by (cases m') auto
    show ?thesis using same(2) [of a b r s] assms(2-4) unfolding Sensor m' by blast
  next
    case (Audio a)
    with tag obtain b where m': "m' = Audio b" by (cases m') auto
    show ?thesis using same(3) [of a r b s] assms(4) unfolding Audio m' by blast
  next
    case (Log a)
    with tag obtain b where m': "m' = Log b" by (cases m') auto
    show ?thesis using same(4) [of a r b s] assms(4) unfolding Log m' by blast
  next
    case (Generic a)
    with tag obtain b where m': "m' = Generic b" by (cases m') auto
    show ?thesis using same(5) [of a r b s] assms(4) unfolding Generic m' by blast
  qed
qed

lemma canon_chunk_split:
  assumes "\<not> is_nan (chunk_duration_seconds c)" "\<not> is_nan (chunk_duration_seconds c')"
    and "canon_chunk c @ r = canon_chunk c' @ s"
  shows "c = c' \<and> r = s"
  using assms by (cases c; cases c') (simp add: canon_chunk_def canon word_unat_eq_iff)

lemma canon_segment_split:
  assumes "json_ok X" "\<not> is_nan (seg_duration_seconds a)" "\<not> is_nan (seg_duration_seconds b)"
    and "canon_segment X a @ r = canon_segment X b @ s"
  shows "a = b \<and> r = s"
  using assms by (cases a; cases b) (simp add: canon_segment_def canon)

lemma canon_recipient_split:
  assumes "json_ok X" "canon_recipient X a @ r = canon_recipient X b @ s"
  shows "a = b \<and> r = s"
  using assms by (cases a; cases b) (simp add: canon_recipient_def canon)

lemma canon_recipients_split:
  assumes "json_ok X"
  shows "comma_list (canon_recipient X) xs @ CHR '']'' # u = comma_list (canon_recipient X) ys @ CHR '']'' # v \<longleftrightarrow>
     xs = ys \<and> u = v"
  by (rule comma_list_split [OF canon_recipient_split [OF assms]]) (simp_all add: canon_recipient_def)

lemma canon_encryption_split:
  assumes "json_ok X" "canon_encryption X a @ r = canon_encryption X b @ s"
  shows "a = b \<and> r = s"
proof -
  have "content_aead a = content_aead b \<and> hpke_kem (hpke a) = hpke_kem (hpke b) \<and> hpke_kdf (hpke a) = hpke_kdf (hpke b) \<and>
      hpke_aead (hpke a) = hpke_aead (hpke b) \<and> recipients a = recipients b \<and> r = s"
    using assms by (simp add: canon_encryption_def canon canon_recipients_split)
  then show ?thesis by (auto intro: EncryptionBlock.equality HpkeSuite.equality)
qed

lemma opt_json_eq [canon]:
  "json_ok X \<Longrightarrow> opt_field k (json_str X) a = opt_field k (json_str X) b \<longleftrightarrow> a = b"
  using opt_json_split [of X k "''}''" "''}''" a b] by (simp add: canon)

lemma canon_segments_split:
  assumes "json_ok X" "list_all (\<lambda>x. \<not> is_nan (seg_duration_seconds x)) xs" "list_all (\<lambda>x. \<not> is_nan (seg_duration_seconds x)) ys"
  shows "comma_list (canon_segment X) xs @ CHR '']'' # u = comma_list (canon_segment X) ys @ CHR '']'' # v \<longleftrightarrow>
     xs = ys \<and> u = v"
proof (rule comma_list_split)
  fix x y r s
  assume "x \<in> set xs" "y \<in> set ys" "canon_segment X x @ r = canon_segment X y @ s"
  then show "x = y \<and> r = s" using canon_segment_split [OF assms(1), of x y] assms(2,3) by (auto simp: list_all_iff)
qed (simp_all add: canon_segment_def)

lemma opt_encryption_split:
  assumes "json_ok X" "\<not> starts_with (ckey ''encryption'') r" "\<not> starts_with (ckey ''encryption'') s"
  shows "opt_field ''encryption'' (canon_encryption X) a @ r = opt_field ''encryption'' (canon_encryption X) b @ s \<longleftrightarrow>
    a = b \<and> r = s"
  by (rule opt_field_split) (use assms canon_encryption_split in blast)+

text \<open>No float of the manifest is NaN and no key epoch is an explicit zero.\<close>

definition manifest_finite :: "TrstManifest \<Rightarrow> bool" where
  "manifest_finite m \<longleftrightarrow> metadata_finite (metadata m) \<and> \<not> is_nan (chunk_duration_seconds (chunk_info m)) \<and>
     list_all (\<lambda>x. \<not> is_nan (seg_duration_seconds x)) (segments m)"

lemma serialize_canonical_split:
  assumes ok: "json_ok X" and fin: "manifest_finite m" "manifest_finite n"
    and epoch: "key_epoch (device m) \<noteq> Some 0" "key_epoch (device n) \<noteq> Some 0"
    and eq: "serialize_canonical X m = serialize_canonical X n"
  shows "m\<lparr> man_signature := None \<rparr> = n\<lparr> man_signature := None \<rparr>"
proof -
  define tail where "tail m = ckey ''segments'' @ CHR ''['' # comma_list (canon_segment X) (segments m) @ CHR '']'' #
     ckey ''claims'' @ json_strs X (claims m) @
     opt_field ''encryption'' (canon_encryption X) (encryption m) @
     opt_field ''sequence'' (\<lambda>n. show_nat (unat n)) (sequence m) @
     opt_field ''prev_archive_hash'' (json_str X) (prev_archive_hash m) @ ''}''" for m :: TrstManifest
  have parts: "serialize_canonical X m = CHR ''{'' # jkey ''trst_version'' @ json_str X (trst_version m) @
     ckey ''profile'' @ json_str X (profile m) @ ckey ''device'' @ canon_device X (device m) @
     ckey ''metadata'' @ canon_metadata X (metadata m) @ ckey ''chunk'' @ canon_chunk (chunk_info m) @ tail m" for m
    by (simp add: serialize_canonical_def tail_def)
  have head: "trst_version m = trst_version n" "profile m = profile n"
    "canon_device X (device m) @ ckey ''metadata'' @ canon_metadata X (metadata m) @ ckey ''chunk'' @ canon_chunk (chunk_info m) @ tail m =
     canon_device X (device n) @ ckey ''metadata'' @ canon_metadata X (metadata n) @ ckey ''chunk'' @ canon_chunk (chunk_info n) @ tail n"
    using eq ok unfolding parts by (simp_all add: canon)
  from canon_device_split [OF ok epoch head(3)] have dev: "device m = device n"
    "canon_metadata X (metadata m) @ ckey ''chunk'' @ canon_chunk (chunk_info m) @ tail m =
     canon_metadata X (metadata n) @ ckey ''chunk'' @ canon_chunk (chunk_info n) @ tail n"
    by (simp_all add: canon)
  from canon_metadata_split [OF ok _ _ dev(2)] fin have met: "metadata m = metadata n"
    "canon_chunk (chunk_info m) @ tail m = canon_chunk (chunk_info n) @ tail n"
    by (simp_all add: canon manifest_finite_def)
  from canon_chunk_split [OF _ _ met(2)] fin have chu: "chunk_info m = chunk_info n" "tail m = tail n"
    by (simp_all add: manifest_finite_def)
  from chu(2) fin ok have "segments m = segments n" "claims m = claims n" "encryption m = encryption n"
    "sequence m = sequence n" "prev_archive_hash m = prev_archive_hash n"
    unfolding tail_def manifest_finite_def
    by (simp_all add: canon canon_segments_split opt_encryption_split)
  with head dev met chu show ?thesis by simp
qed

section \<open>What validation accepts\<close>

lemma field_ok_iff [res_simps]: "field_ok b e = Inr () \<longleftrightarrow> b" "field_ok b e = Inl x \<longleftrightarrow> \<not> b \<and> x = InvalidField e"
  by (auto simp: field_ok_def res_simps)

lemma all_of_append: "all_of (as @ bs) = Inr () \<longleftrightarrow> all_of as = Inr () \<and> all_of bs = Inr ()"
  by (induction as) (auto split: sum.splits)

lemma all_of_ok_iff: "all_of rs = Inr () \<longleftrightarrow> list_all (\<lambda>r. r = Inr ()) rs"
  by (induction rs) (auto split: sum.splits)

lemma validate_segments_ok_iff:
  "validate_segments i ss = Inr () \<longleftrightarrow>
     list_all (\<lambda>s. chunk_file s \<noteq> [] \<and> seg_blake3_hash s \<noteq> [] \<and> continuity_hash s \<noteq> []) ss"
  by (induction ss arbitrary: i) (auto simp: res_simps all_of_ok_iff simp del: all_of.simps)

lemma validate_chronicle_fields_ok_iff:
  "validate_chronicle_fields q p = Inr () \<longleftrightarrow>
     (case q of None \<Rightarrow> p = None | Some n \<Rightarrow> if n = 0 then p = None else \<exists>h. p = Some h \<and> prev_well_formed h)"
  by (cases q; cases p) (auto simp: res_simps)

definition times_of :: "ProfileMetadata \<Rightarrow> string \<times> string" where
  "times_of m = (case m of CamVideo c \<Rightarrow> (cv_started_at c, cv_ended_at c) | Sensor c \<Rightarrow> (se_started_at c, se_ended_at c)
     | Audio c \<Rightarrow> (au_started_at c, au_ended_at c) | Log c \<Rightarrow> (lo_started_at c, lo_ended_at c)
     | Generic c \<Rightarrow> (ge_started_at c, ge_ended_at c))"

definition metadata_complete :: "ProfileMetadata \<Rightarrow> bool" where
  "metadata_complete m \<longleftrightarrow> fst (times_of m) \<noteq> [] \<and> snd (times_of m) \<noteq> [] \<and>
     (case m of
        Sensor c \<Rightarrow> \<not> f64_le_zero (se_sample_rate_hz c) \<and> se_unit c \<noteq> [] \<and> se_sensor_model c \<noteq> []
      | Audio c \<Rightarrow> au_sample_rate_hz c \<noteq> 0 \<and> au_bit_depth c \<noteq> 0 \<and> au_channels c \<noteq> 0 \<and> au_codec c \<noteq> []
      | Log c \<Rightarrow> lo_application c \<noteq> [] \<and> lo_host c \<noteq> [] \<and> lo_log_level c \<noteq> [] \<and> lo_log_format c \<noteq> []
      | _ \<Rightarrow> True)"

lemma validate_metadata_ok_iff: "validate_metadata m = Inr () \<longleftrightarrow> metadata_complete m"
  by (cases m) (simp_all add: metadata_complete_def times_of_def all_of_ok_iff validate_times_def res_simps del: all_of.simps)

definition manifest_valid :: "TrstManifest \<Rightarrow> bool" where
  "manifest_valid m \<longleftrightarrow>
     trst_version m \<noteq> [] \<and> profile m \<in> set [''generic'', ''cam.video'', ''sensor'', ''audio'', ''log''] \<and>
     dev_id (device m) \<noteq> [] \<and> public_key (device m) \<noteq> [] \<and> metadata_complete (metadata m) \<and>
     segments m \<noteq> [] \<and>
     list_all (\<lambda>s. chunk_file s \<noteq> [] \<and> seg_blake3_hash s \<noteq> [] \<and> continuity_hash s \<noteq> []) (segments m) \<and>
     (\<forall>e. encryption m = Some e \<longrightarrow> recipients e \<noteq> []) \<and>
     (case sequence m of None \<Rightarrow> prev_archive_hash m = None
      | Some n \<Rightarrow> if n = 0 then prev_archive_hash m = None
          else \<exists>h. prev_archive_hash m = Some h \<and> prev_well_formed h) \<and>
     key_epoch (device m) \<noteq> Some 0"

lemma manifest_validate_ok_iff: "manifest_validate m = Inr () \<longleftrightarrow> manifest_valid m"
  unfolding manifest_validate_def manifest_valid_def all_of_ok_iff
  by (auto simp: res_simps validate_metadata_ok_iff validate_segments_ok_iff validate_chronicle_fields_ok_iff
      split: option.splits)

text \<open>
  The sample rate of a sensor may be NaN: the test \<^verbatim>\<open>sample_rate_hz <= 0.0\<close> is false of it, so
  \<open>validate\<close> accepts it, and its canonical text is the same for every NaN.
\<close>

lemma nan_sample_rate_accepted:
  "is_nan 0x7FF8000000000000 \<and> \<not> f64_le_zero 0x7FF8000000000000 \<and>
   show_f64 0x7FF8000000000000 = show_f64 0x7FF8000000000001"
  by (simp add: is_nan_def f64_mag_def INF_MAG_def f64_le_zero_def show_f64_def)

lemma set_signature_keeps [simp]:
  "manifest_validate (set_signature m s) = manifest_validate m"
  "manifest_finite (set_signature m s) = manifest_finite m"
  by (simp_all add: set_signature_def manifest_validate_def manifest_finite_def)

section \<open>Properties\<close>

definition sample_segment :: SegmentInfo where
  "sample_segment = \<lparr> chunk_file = ''00000.bin'', seg_blake3_hash = ''aa'', start_time = ''t0'',
     seg_duration_seconds = F64_2, continuity_hash = ''bb'' \<rparr>"

definition sample_manifest :: TrstManifest where
  "sample_manifest = manifest_new\<lparr> device := (default_device ''m'')\<lparr> dev_id := ''d1'', public_key := ''ed25519:k'' \<rparr>,
     metadata := Generic \<lparr> ge_started_at = ''t0'', ge_ended_at = ''t1'', ge_data_type = None, ge_source = None,
       ge_description = None, ge_mime_type = None, ge_labels = [] \<rparr>,
     segments := [sample_segment] \<rparr>"

lemma sample_manifest_valid: "manifest_validate sample_manifest = Inr ()"
  unfolding manifest_validate_ok_iff
  by (simp add: manifest_valid_def sample_manifest_def manifest_new_def default_device_def metadata_complete_def
      times_of_def sample_segment_def)

lemma sample_manifest_segments:
  "ss \<noteq> [] \<Longrightarrow> list_all (\<lambda>s. chunk_file s \<noteq> [] \<and> seg_blake3_hash s \<noteq> [] \<and> continuity_hash s \<noteq> []) ss \<Longrightarrow>
     manifest_validate (sample_manifest\<lparr> segments := ss \<rparr>) = Inr ()"
  unfolding manifest_validate_ok_iff
  by (simp add: manifest_valid_def sample_manifest_def manifest_new_def default_device_def metadata_complete_def times_of_def)

lemma sample_manifest_finite: "manifest_finite sample_manifest"
  by (simp add: manifest_finite_def sample_manifest_def manifest_new_def default_chunk_def sample_segment_def
      is_nan_def F64_2_def f64_mag_def INF_MAG_def)

lemma canonical_bytes_valid_inj:
  assumes "json_ok X" "manifest_valid m" "manifest_valid n" "manifest_finite m" "manifest_finite n"
    and "to_canonical_bytes X m = to_canonical_bytes X n"
  shows "m\<lparr> man_signature := None \<rparr> = n\<lparr> man_signature := None \<rparr>"
proof -
  from assms(6) have "serialize_canonical X (m\<lparr> man_signature := None \<rparr>) = serialize_canonical X (n\<lparr> man_signature := None \<rparr>)"
    by (simp add: to_canonical_bytes_def)
  from serialize_canonical_split [OF assms(1) _ _ _ _ this] assms(2-5)
  show ?thesis by (simp add: manifest_finite_def manifest_valid_def)
qed

text \<open>
  C9: the signed bytes determine the manifest. For manifests \<open>validate\<close> accepts whose floats are
  numbers, the canonical bytes are equal exactly when the manifests agree in every field except the
  signature: all optional fields, the profile variant, labels, segments, recipients, sequence and
  predecessor included. (\<open>validate\<close> is needed to exclude an explicit epoch 0, which is not written.)
\<close>

theorem canonical_bytes_injective:
  assumes "json_ok X" "manifest_validate m = Inr ()" "manifest_validate n = Inr ()"
    and "manifest_finite m" "manifest_finite n"
  shows "to_canonical_bytes X m = to_canonical_bytes X n \<longleftrightarrow>
    m\<lparr> man_signature := None \<rparr> = n\<lparr> man_signature := None \<rparr>"
proof
  assume "to_canonical_bytes X m = to_canonical_bytes X n"
  with canonical_bytes_valid_inj [OF assms(1) _ _ assms(4,5)] assms(2,3)
  show "m\<lparr> man_signature := None \<rparr> = n\<lparr> man_signature := None \<rparr>" by (simp add: manifest_validate_ok_iff)
qed (simp add: to_canonical_bytes_def)

theorem canonical_bytes_injective_witness:
  "to_canonical_bytes sample_crates sample_manifest =
   to_canonical_bytes sample_crates (set_signature sample_manifest ''sig'')"
  using canonical_bytes_injective [of sample_crates sample_manifest "set_signature sample_manifest ''sig''"]
  by (simp add: sample_json_ok sample_manifest_valid sample_manifest_finite) (simp add: set_signature_def)


end
