(* ===== verification/Utf8.thy ===== *)
theory Utf8
  imports Sealedge_Prelude
begin

text \<open>
  UTF-8 in the standard library: validation (\<^verbatim>\<open>str::from_utf8\<close>) and lossy decoding
  (\<^verbatim>\<open>String::from_utf8_lossy\<close>), which replaces every maximal ill-formed prefix by U+FFFD. Strings are the
  bytes of their UTF-8 form.
\<close>

definition utf8_cont :: "u8 \<Rightarrow> bool" where
  "utf8_cont b \<longleftrightarrow> 0x80 \<le> b \<and> b \<le> 0xBF"

text \<open>The second bytes that may follow a leading byte of a three- or four-byte sequence.\<close>

definition second3 :: "u8 \<Rightarrow> u8 \<Rightarrow> bool" where
  "second3 b c \<longleftrightarrow> b = 0xE0 \<and> 0xA0 \<le> c \<and> c \<le> 0xBF \<or> 0xE1 \<le> b \<and> b \<le> 0xEC \<and> utf8_cont c \<or>
     b = 0xED \<and> 0x80 \<le> c \<and> c \<le> 0x9F \<or> 0xEE \<le> b \<and> b \<le> 0xEF \<and> utf8_cont c"

definition second4 :: "u8 \<Rightarrow> u8 \<Rightarrow> bool" where
  "second4 b c \<longleftrightarrow> b = 0xF0 \<and> 0x90 \<le> c \<and> c \<le> 0xBF \<or> 0xF1 \<le> b \<and> b \<le> 0xF3 \<and> utf8_cont c \<or>
     b = 0xF4 \<and> 0x80 \<le> c \<and> c \<le> 0x8F"

text \<open>
  One step of the decoder on a non-empty input: whether a well-formed character comes first, and
  the number of bytes it or the ill-formed prefix takes.
\<close>

definition utf8_step :: "u8 \<Rightarrow> bytes \<Rightarrow> bool \<times> nat" where
  "utf8_step b r =
     (let at = (\<lambda>i P. i < length r \<and> P (r ! i)) in
      if b < 0x80 then (True, 1)
      else if 0xC2 \<le> b \<and> b \<le> 0xDF then (if at 0 utf8_cont then (True, 2) else (False, 1))
      else if 0xE0 \<le> b \<and> b \<le> 0xEF then
        (if \<not> at 0 (second3 b) then (False, 1) else if \<not> at 1 utf8_cont then (False, 2) else (True, 3))
      else if 0xF0 \<le> b \<and> b \<le> 0xF4 then
        (if \<not> at 0 (second4 b) then (False, 1) else if \<not> at 1 utf8_cont then (False, 2)
         else if \<not> at 2 utf8_cont then (False, 3) else (True, 4))
      else (False, 1))"

lemma utf8_step_pos: "0 < snd (utf8_step b r)"
  by (simp add: utf8_step_def Let_def)

function utf8_valid :: "bytes \<Rightarrow> bool" where
  "utf8_valid [] = True"
| "utf8_valid (b # r) = (fst (utf8_step b r) \<and> utf8_valid (drop (snd (utf8_step b r)) (b # r)))"
  by pat_completeness auto
termination
  by (relation "measure length") (auto simp: utf8_step_pos)

function from_utf8_lossy :: "bytes \<Rightarrow> bytes" where
  "from_utf8_lossy [] = []"
| "from_utf8_lossy (b # r) =
     (if fst (utf8_step b r) then take (snd (utf8_step b r)) (b # r) else [0xEF, 0xBF, 0xBD]) @
     from_utf8_lossy (drop (snd (utf8_step b r)) (b # r))"
  by pat_completeness auto
termination
  by (relation "measure length") (auto simp: utf8_step_pos)

lemma from_utf8_lossy_valid: "utf8_valid b \<Longrightarrow> from_utf8_lossy b = b"
proof (induction b rule: utf8_valid.induct)
  case (2 b r)
  then show ?case using append_take_drop_id [of "snd (utf8_step b r)" "b # r"] by simp
qed simp

lemma utf8_step_ascii: "b < 0x80 \<Longrightarrow> utf8_step b r = (True, 1)"
  by (simp add: utf8_step_def)

lemma utf8_valid_ascii: "list_all (\<lambda>b. b < 0x80) b \<Longrightarrow> utf8_valid b"
  by (induction b) (simp_all add: utf8_step_ascii)

text \<open>An ASCII text.\<close>

definition ascii :: "string \<Rightarrow> bool" where
  "ascii s \<longleftrightarrow> list_all (\<lambda>c. of_char c < (128 :: nat)) s"

lemma utf8_valid_str: "ascii s \<Longrightarrow> utf8_valid (str_bytes s)"
  by (rule utf8_valid_ascii) (auto simp: ascii_def str_bytes_def list_all_iff word_less_nat_alt)

end
