(* ===== verification/Archive.thy ===== *)
theory Archive
  imports Chain Manifest Utf8 "HOL-Library.AList"
begin

text \<open>
  The \<^verbatim>\<open>.seal\<close> directory of \<^verbatim>\<open>crates/core/src/archive.rs\<close>: the streaming writer, the bounded readers and
  \<open>validate_archive\<close>. The directory is a record of its files; the entries of \<^verbatim>\<open>chunks/\<close> are a list in
  the order \<^verbatim>\<open>read_dir\<close> returns them. A missing file is an I/O error; other faults of the file
  system (permissions, full disk, files that change while they are read) are not modelled. The JSON text of a manifest
  is printed and parsed by serde_json, which the record \<open>man_json\<close> stands for.
\<close>

section \<open>Errors, constants, state\<close>

datatype ArchiveError =
    Io string
  | ManifestE ManifestFormatError
  | Json string
  | SchemaMismatch string
  | MissingChunk string
  | UnreferencedChunk string
  | InvalidChunkIndex nat nat
  | SignatureMismatch
  | ChainE ChainError
  | ValidationFailed string

definition MANIFEST_MAX_BYTES :: nat where "MANIFEST_MAX_BYTES = 8 * 1024 * 1024"
definition SIG_MAX_BYTES :: nat where "SIG_MAX_BYTES = 4 * 1024"
definition MAX_CHUNK_SIZE_BYTES :: nat where "MAX_CHUNK_SIZE_BYTES = 256 * 1024 * 1024"
definition MAX_STORED_CHUNK_BYTES :: nat where "MAX_STORED_CHUNK_BYTES = MAX_CHUNK_SIZE_BYTES + 24 + 16"

record archive_dir =
  base_path :: string
  manifest_file :: "bytes option"
  sig_file :: "bytes option"
  chunk_entries :: "(string \<times> bytes) list option"

record man_json =
  man_print :: "TrstManifest \<Rightarrow> string + string"
  man_parse :: "bytes \<Rightarrow> string + TrstManifest"

definition not_found :: ArchiveError where
  "not_found = Io ''No such file or directory (os error 2)''"

fun manifest_error_text :: "ManifestFormatError \<Rightarrow> string" where
  "manifest_error_text (Serialization e) = ''Serialization error: '' @ e"
| "manifest_error_text (InvalidField e) = ''Invalid field value: '' @ e"

section \<open>Reading\<close>

definition read_capped :: "string \<Rightarrow> bytes option \<Rightarrow> nat \<Rightarrow> ArchiveError + bytes" where
  "read_capped path f cap =
     (case f of None \<Rightarrow> Inl not_found
      | Some content \<Rightarrow>
          let buf = take (cap + 1) content in
          if length buf > cap
          then Inl (SchemaMismatch (path @ '' exceeds the '' @ show_nat cap @ ''-byte cap''))
          else Inr buf)"

definition chunk_content :: "archive_dir \<Rightarrow> string \<Rightarrow> bytes option" where
  "chunk_content D name = (case chunk_entries D of None \<Rightarrow> None | Some es \<Rightarrow> map_of es name)"

definition open_chunk :: "archive_dir \<Rightarrow> string \<Rightarrow> ArchiveError + bytes" where
  "open_chunk D filename = ok_or (MissingChunk filename) (chunk_content D filename)"

definition chunk_cap_error :: "string \<Rightarrow> ArchiveError" where
  "chunk_cap_error filename =
     SchemaMismatch (''chunk '' @ filename @ '' exceeds the '' @ show_nat MAX_STORED_CHUNK_BYTES @ ''-byte cap'')"

text \<open>
  The read loop: each read returns at most 64 KiB (a non-empty piece until the end of the file); the
  hasher state is what was fed so far.
\<close>

definition BUF_LEN :: nat where "BUF_LEN = 64 * 1024"

fun hash_loop :: "'x crates_scheme \<Rightarrow> string \<Rightarrow> nat \<Rightarrow> bytes \<Rightarrow> bytes list \<Rightarrow> ArchiveError + bytes" where
  "hash_loop X filename count fed [] = Inr (blake3_hash X fed)"
| "hash_loop X filename count fed (buf # rest) =
     (let count = min (count + length buf) (2 ^ 64 - 1) in
      if count > MAX_STORED_CHUNK_BYTES then Inl (chunk_cap_error filename)
      else hash_loop X filename count (fed @ buf) rest)"

definition stream_hash_chunk :: "'x crates_scheme \<Rightarrow> archive_dir \<Rightarrow> string \<Rightarrow> ArchiveError + bytes" where
  "stream_hash_chunk X D filename =
     res_bind (open_chunk D filename) (\<lambda>f. hash_loop X filename 0 [] (chunks BUF_LEN f))"

definition read_manifest :: "man_json \<Rightarrow> archive_dir \<Rightarrow> ArchiveError + TrstManifest \<times> bytes" where
  "read_manifest J D =
     res_bind (read_capped (base_path D @ ''/manifest.json'') (manifest_file D) MANIFEST_MAX_BYTES) (\<lambda>manifest_bytes.
     res_bind (map_err Json (man_parse J manifest_bytes)) (\<lambda>manifest.
     res_bind (read_capped (base_path D @ ''/signatures/manifest.sig'') (sig_file D) SIG_MAX_BYTES) (\<lambda>detached_sig.
     case man_signature manifest of
       Some embedded_sig \<Rightarrow>
         if str_bytes embedded_sig \<noteq> from_utf8_lossy detached_sig then Inl SignatureMismatch
         else Inr (manifest, detached_sig)
     | None \<Rightarrow> Inr (manifest, detached_sig))))"

text \<open>\<^verbatim>\<open>str::parse::<usize>\<close>: an optional plus sign, then digits that fit 64 bits.\<close>

definition parse_usize :: "string \<Rightarrow> nat option" where
  "parse_usize s =
     (let d = (if starts_with ''+'' s then drop 1 s else s) in
      if d \<noteq> [] \<and> list_all is_digit d \<and> read_nat d < 2 ^ 64 then Some (read_nat d) else None)"

definition parse_chunk_index :: "string \<Rightarrow> ArchiveError + nat" where
  "parse_chunk_index filename =
     (if \<not> ends_with ''.bin'' filename \<or> length filename \<noteq> 9
      then Inl (SchemaMismatch (''Invalid chunk filename format: '' @ filename))
      else ok_or (SchemaMismatch (''Invalid chunk index in filename: '' @ filename))
        (parse_usize (take 5 filename)))"

definition chunk_filename :: "nat \<Rightarrow> string" where
  "chunk_filename i = show_nat05 i @ ''.bin''"

fun read_chunks :: "archive_dir \<Rightarrow> nat \<Rightarrow> SegmentInfo list \<Rightarrow> ArchiveError + (nat \<times> bytes) list" where
  "read_chunks D expected_index [] = Inr []"
| "read_chunks D expected_index (segment # rest) =
     (let name = chunk_filename expected_index in
      if chunk_file segment \<noteq> name
      then res_bind (parse_chunk_index (chunk_file segment)) (\<lambda>found. Inl (InvalidChunkIndex expected_index found))
      else res_bind (open_chunk D name) (\<lambda>f.
        let chunk_bytes = take (MAX_STORED_CHUNK_BYTES + 1) f in
        if length chunk_bytes > MAX_STORED_CHUNK_BYTES then Inl (chunk_cap_error name)
        else res_bind (read_chunks D (Suc expected_index) rest) (\<lambda>cs. Inr ((expected_index, chunk_bytes) # cs))))"

definition read_archive :: "man_json \<Rightarrow> archive_dir \<Rightarrow> ArchiveError + TrstManifest \<times> (nat \<times> bytes) list" where
  "read_archive J D =
     res_bind (read_manifest J D) (\<lambda>(manifest, _).
     res_bind (read_chunks D 0 (segments manifest)) (\<lambda>chunk_data. Inr (manifest, chunk_data)))"

section \<open>Validation\<close>

fun check_unreferenced :: "string set \<Rightarrow> (string \<times> bytes) list \<Rightarrow> ArchiveError + unit" where
  "check_unreferenced expected [] = Inr ()"
| "check_unreferenced expected ((name, _) # es) =
     (let file_name = bytes_str (from_utf8_lossy (str_bytes name)) in
      if ends_with ''.bin'' file_name \<and> file_name \<notin> expected then Inl (UnreferencedChunk file_name)
      else check_unreferenced expected es)"

definition check_segment :: "'x crates_scheme \<Rightarrow> archive_dir \<Rightarrow> nat \<Rightarrow> SegmentInfo \<Rightarrow> ArchiveError + ChainSegment" where
  "check_segment X D i segment =
     (let name = chunk_filename i in
      if chunk_file segment \<noteq> name
      then res_bind (parse_chunk_index (chunk_file segment)) (\<lambda>found. Inl (InvalidChunkIndex i found))
      else
      res_bind (stream_hash_chunk X D name) (\<lambda>computed_hash.
      let computed_hash_hex = hex_encode X computed_hash in
      if seg_blake3_hash segment \<noteq> computed_hash_hex
      then Inl (ValidationFailed (''Chunk '' @ show_nat i @ '' hash mismatch: expected '' @ seg_blake3_hash segment @
        '', computed '' @ computed_hash_hex))
      else
      res_bind (map_err (\<lambda>_. ValidationFailed (''Invalid continuity hash format: '' @ continuity_hash segment))
        (hex_decode X (continuity_hash segment))) (\<lambda>stored.
      if length stored \<noteq> 32
      then Inl (ValidationFailed (''Continuity hash must be 32 bytes, got '' @ show_nat (length stored)))
      else Inr \<lparr> index = i, stored_hash = computed_hash, stored_continuity = stored \<rparr>)))"

fun check_segments :: "'x crates_scheme \<Rightarrow> archive_dir \<Rightarrow> nat \<Rightarrow> SegmentInfo list \<Rightarrow> ArchiveError + ChainSegment list" where
  "check_segments X D i [] = Inr []"
| "check_segments X D i (segment # rest) =
     res_bind (check_segment X D i segment) (\<lambda>c.
     res_bind (check_segments X D (Suc i) rest) (\<lambda>cs. Inr (c # cs)))"

definition validate_archive :: "'x crates_scheme \<Rightarrow> man_json \<Rightarrow> archive_dir \<Rightarrow> ArchiveError + unit" where
  "validate_archive X J D =
     res_bind (read_manifest J D) (\<lambda>(manifest, _).
     res_bind (case chunk_entries D of None \<Rightarrow> Inr ()
       | Some es \<Rightarrow> check_unreferenced (set (map chunk_file (segments manifest))) es) (\<lambda>_.
     res_bind (map_err (\<lambda>e. ValidationFailed (''Manifest validation failed: '' @ manifest_error_text e))
       (manifest_validate manifest)) (\<lambda>_.
     res_bind (check_segments X D 0 (segments manifest)) (\<lambda>chain_segments.
     map_err ChainE (validate_chain X chain_segments)))))"

definition archive_dir_name :: "string \<Rightarrow> string" where
  "archive_dir_name i = ''clip-'' @ i @ ''.seal''"

section \<open>Writing\<close>

record ChunkOutcome =
  out_index :: u32
  out_blake3 :: bytes
  out_continuity :: bytes
  stored_len :: nat

text \<open>The writer carries the directory it writes into.\<close>

record ArchiveWriter =
  w_dir :: archive_dir
  next_index :: u32
  chain_state :: bytes

text \<open>\<open>create\<close> makes the directories that are missing and keeps what is in them.\<close>

definition writer_create :: "'x crates_scheme \<Rightarrow> archive_dir \<Rightarrow> ArchiveWriter" where
  "writer_create X D =
     \<lparr> w_dir = D\<lparr> chunk_entries := Some (case chunk_entries D of None \<Rightarrow> [] | Some es \<Rightarrow> es) \<rparr>,
       next_index = 0, chain_state = genesis X \<rparr>"

definition write_chunk :: "archive_dir \<Rightarrow> string \<Rightarrow> bytes \<Rightarrow> archive_dir" where
  "write_chunk D name content =
     D\<lparr> chunk_entries := map_option (AList.update name content) (chunk_entries D) \<rparr>"

definition push_chunk :: "'x crates_scheme \<Rightarrow> ArchiveWriter \<Rightarrow> bytes \<Rightarrow> ArchiveWriter \<times> ChunkOutcome" where
  "push_chunk X w stored_bytes =
     (let blake3 = segment_hash X stored_bytes; continuity = chain_next X (chain_state w) blake3 in
      (w\<lparr> w_dir := write_chunk (w_dir w) (chunk_filename (unat (next_index w))) stored_bytes,
          chain_state := continuity, next_index := next_index w + 1 \<rparr>,
       \<lparr> out_index = next_index w, out_blake3 = blake3, out_continuity = continuity,
         stored_len = length stored_bytes \<rparr>))"

definition finalize :: "man_json \<Rightarrow> ArchiveWriter \<Rightarrow> TrstManifest \<Rightarrow> bytes \<Rightarrow> ArchiveError + archive_dir" where
  "finalize J w manifest detached_sig =
     (if length (segments manifest) \<noteq> unat (next_index w)
      then Inl (SchemaMismatch (''Chunk count mismatch: '' @ show_nat (unat (next_index w)) @ '' chunks written, '' @
        show_nat (length (segments manifest)) @ '' segments in manifest''))
      else
      res_bind (map_err Json (man_print J manifest)) (\<lambda>manifest_json.
      if length manifest_json > MANIFEST_MAX_BYTES
      then Inl (SchemaMismatch (''manifest exceeds the reader cap ('' @ show_nat (length manifest_json) @ '' > '' @
        show_nat MANIFEST_MAX_BYTES @ '' bytes); increase --chunk-size''))
      else Inr ((w_dir w)\<lparr> manifest_file := Some (str_bytes manifest_json), sig_file := Some detached_sig \<rparr>)))"

fun write_chunks :: "archive_dir \<Rightarrow> nat \<Rightarrow> bytes list \<Rightarrow> archive_dir" where
  "write_chunks D i [] = D"
| "write_chunks D i (c # cs) = write_chunks (write_chunk D (chunk_filename i) c) (Suc i) cs"

definition write_archive :: "man_json \<Rightarrow> archive_dir \<Rightarrow> TrstManifest \<Rightarrow> bytes list \<Rightarrow> bytes \<Rightarrow> ArchiveError + archive_dir" where
  "write_archive J D manifest chunk_ciphertexts detached_sig =
     (if length chunk_ciphertexts \<noteq> length (segments manifest)
      then Inl (SchemaMismatch (''Chunk count mismatch: '' @ show_nat (length chunk_ciphertexts) @ '' chunks provided, '' @
        show_nat (length (segments manifest)) @ '' segments in manifest''))
      else
      res_bind (map_err Json (man_print J manifest)) (\<lambda>manifest_json.
      Inr (write_chunks
        (D\<lparr> chunk_entries := Some (case chunk_entries D of None \<Rightarrow> [] | Some es \<Rightarrow> es),
            manifest_file := Some (str_bytes manifest_json), sig_file := Some detached_sig \<rparr>)
        0 chunk_ciphertexts)))"

section \<open>Lemmas on reading\<close>

lemma read_capped_iff: "read_capped p f cap = Inr b \<longleftrightarrow> f = Some b \<and> length b \<le> cap"
  by (auto simp: read_capped_def Let_def split: option.splits)

lemma hash_loop_spec:
  assumes "count \<le> MAX_STORED_CHUNK_BYTES"
  shows "hash_loop X name count fed ps =
    (if count + length (concat ps) > MAX_STORED_CHUNK_BYTES then Inl (chunk_cap_error name)
     else Inr (blake3_hash X (fed @ concat ps)))"
  using assms
proof (induction ps arbitrary: count fed)
  case (Cons b ps)
  have M: "MAX_STORED_CHUNK_BYTES < 2 ^ 64 - 1" by (simp add: MAX_STORED_CHUNK_BYTES_def MAX_CHUNK_SIZE_BYTES_def)
  show ?case
  proof (cases "count + length b > MAX_STORED_CHUNK_BYTES")
    case True
    then have "min (count + length b) (2 ^ 64 - 1) > MAX_STORED_CHUNK_BYTES" using M by simp
    then show ?thesis using True by (simp add: Let_def)
  next
    case False
    then have "min (count + length b) (2 ^ 64 - 1) = count + length b" using M by simp
    then show ?thesis using False Cons.IH [of "count + length b" "fed @ b"] by (simp add: Let_def add.assoc)
  qed
qed simp

lemma BUF_LEN_pos: "0 < BUF_LEN"
  by (simp add: BUF_LEN_def)

lemma stream_hash_spec:
  "stream_hash_chunk X D name = res_bind (open_chunk D name) (\<lambda>f.
     if length f > MAX_STORED_CHUNK_BYTES then Inl (chunk_cap_error name) else Inr (segment_hash X f))"
proof -
  have "hash_loop X name 0 [] (chunks BUF_LEN f) =
      (if length f > MAX_STORED_CHUNK_BYTES then Inl (chunk_cap_error name) else Inr (segment_hash X f))" for f
    using hash_loop_spec [of 0 X name "[]" "chunks BUF_LEN f"] by (simp add: BUF_LEN_pos segment_hash_def)
  then show ?thesis by (simp add: stream_hash_chunk_def)
qed

lemma chunk_filename_inj [simp]: "chunk_filename i = chunk_filename j \<longleftrightarrow> i = j"
  by (simp add: chunk_filename_def)

lemma chunk_filename_ascii: "ascii (chunk_filename i)"
proof -
  have "of_char c < (128 :: nat)" if "is_digit c" for c using that by (simp add: is_digit_def)
  then have "ascii (show_nat i)" by (auto simp: ascii_def list_all_iff dest: show_nat_digits)
  then show ?thesis by (auto simp: chunk_filename_def show_nat05_def pad_left_def ascii_def list_all_iff)
qed

lemma chunk_filename_lossy [simp]: "bytes_str (from_utf8_lossy (str_bytes (chunk_filename i))) = chunk_filename i"
  by (simp add: from_utf8_lossy_valid utf8_valid_str chunk_filename_ascii)

lemma chunk_filename_nonempty [simp]: "chunk_filename i \<noteq> []"
  by (simp add: chunk_filename_def)

definition chunk_intact :: "'x crates_scheme \<Rightarrow> archive_dir \<Rightarrow> nat \<Rightarrow> SegmentInfo \<Rightarrow> bytes \<Rightarrow> bytes \<Rightarrow> bool" where
  "chunk_intact X D i s f c \<longleftrightarrow> chunk_file s = chunk_filename i \<and> chunk_content D (chunk_filename i) = Some f \<and>
     length f \<le> MAX_STORED_CHUNK_BYTES \<and> seg_blake3_hash s = hex_encode X (segment_hash X f) \<and>
     hex_decode X (continuity_hash s) = Inr c \<and> length c = 32"

lemma check_segment_iff:
  "check_segment X D i s = Inr cs \<longleftrightarrow>
     (\<exists>f c. chunk_intact X D i s f c \<and> cs = \<lparr> index = i, stored_hash = segment_hash X f, stored_continuity = c \<rparr>)"
proof
  assume "check_segment X D i s = Inr cs"
  then show "\<exists>f c. chunk_intact X D i s f c \<and> cs = \<lparr> index = i, stored_hash = segment_hash X f, stored_continuity = c \<rparr>"
    by (auto simp: check_segment_def chunk_intact_def stream_hash_spec open_chunk_def Let_def res_simps split: if_splits)
qed (auto simp: check_segment_def chunk_intact_def stream_hash_spec open_chunk_def Let_def)

lemma check_segments_iff:
  "check_segments X D i ss = Inr cs \<longleftrightarrow>
     length cs = length ss \<and> (\<forall>k < length ss. check_segment X D (i + k) (ss ! k) = Inr (cs ! k))"
proof (induction ss arbitrary: i cs)
  case (Cons s ss)
  show ?case
    by (cases cs) (auto simp: res_simps Cons All_less_Suc2)
qed auto

lemma check_segments_intact:
  "check_segments X D 0 ss = Inr cs \<longleftrightarrow>
     (\<exists>fs. length fs = length ss \<and> length cs = length ss \<and>
        (\<forall>k < length ss. chunk_intact X D k (ss ! k) (fs ! k) (stored_continuity (cs ! k)) \<and>
           cs ! k = \<lparr> index = k, stored_hash = segment_hash X (fs ! k), stored_continuity = stored_continuity (cs ! k) \<rparr>))"
  (is "?l \<longleftrightarrow> ?r")
proof
  assume ?l
  then have *: "length cs = length ss" "\<forall>k < length ss. check_segment X D k (ss ! k) = Inr (cs ! k)"
    by (auto simp: check_segments_iff)
  have "\<exists>f. chunk_intact X D k (ss ! k) f (stored_continuity (cs ! k)) \<and>
      cs ! k = \<lparr> index = k, stored_hash = segment_hash X f, stored_continuity = stored_continuity (cs ! k) \<rparr>"
    if k: "k < length ss" for k
  proof -
    from *(2) k obtain f c where "chunk_intact X D k (ss ! k) f c"
      "cs ! k = \<lparr> index = k, stored_hash = segment_hash X f, stored_continuity = c \<rparr>"
      by (auto simp: check_segment_iff)
    then show ?thesis by (intro exI [of _ f]) simp
  qed
  then obtain g where g: "\<forall>k < length ss. chunk_intact X D k (ss ! k) (g k) (stored_continuity (cs ! k)) \<and>
      cs ! k = \<lparr> index = k, stored_hash = segment_hash X (g k), stored_continuity = stored_continuity (cs ! k) \<rparr>"
    by metis
  show ?r by (rule exI [of _ "map g [0..<length ss]"]) (use g * in auto)
next
  assume ?r
  then show ?l by (auto simp: check_segments_iff check_segment_iff)
qed

lemma check_unreferenced_iff:
  "check_unreferenced E es = Inr () \<longleftrightarrow>
     (\<forall>n \<in> fst ` set es. let s = bytes_str (from_utf8_lossy (str_bytes n)) in ends_with ''.bin'' s \<longrightarrow> s \<in> E)"
  by (induction E es rule: check_unreferenced.induct) (auto simp: Let_def)

text \<open>No file of the chunks directory is foreign to the manifest.\<close>

definition no_stray_chunks :: "archive_dir \<Rightarrow> TrstManifest \<Rightarrow> bool" where
  "no_stray_chunks D m \<longleftrightarrow> (\<forall>es. chunk_entries D = Some es \<longrightarrow>
     (\<forall>n \<in> fst ` set es. let s = bytes_str (from_utf8_lossy (str_bytes n)) in
        ends_with ''.bin'' s \<longrightarrow> s \<in> set (map chunk_file (segments m))))"

text \<open>The chunk files \<open>fs\<close> are exactly those the manifest's segments describe, and the chain runs over them.\<close>

definition archive_intact :: "'x crates_scheme \<Rightarrow> archive_dir \<Rightarrow> TrstManifest \<Rightarrow> bytes list \<Rightarrow> bool" where
  "archive_intact X D m fs \<longleftrightarrow> no_stray_chunks D m \<and> manifest_valid m \<and> length fs = length (segments m) \<and>
     (\<forall>k < length fs. chunk_intact X D k (segments m ! k) (fs ! k)
        (chain_values X (genesis X) (map (segment_hash X) fs) ! k))"

lemma chain_over_chunks:
  "(\<exists>cs. check_segments X D 0 ss = Inr cs \<and> validate_chain X cs = Inr ()) \<longleftrightarrow>
   (\<exists>fs. length fs = length ss \<and>
      (\<forall>k < length fs. chunk_intact X D k (ss ! k) (fs ! k) (chain_values X (genesis X) (map (segment_hash X) fs) ! k)))"
  (is "?l \<longleftrightarrow> ?r")
proof
  assume ?l
  then obtain cs fs where v: "validate_chain X cs = Inr ()" and l: "length fs = length ss" "length cs = length ss"
    and k: "\<And>k. k < length ss \<Longrightarrow> chunk_intact X D k (ss ! k) (fs ! k) (stored_continuity (cs ! k))"
      "\<And>k. k < length ss \<Longrightarrow> cs ! k = \<lparr> index = k, stored_hash = segment_hash X (fs ! k), stored_continuity = stored_continuity (cs ! k) \<rparr>"
    by (auto simp: check_segments_intact)
  have "stored_hash (cs ! k) = segment_hash X (fs ! k)" if "k < length ss" for k
    using arg_cong [OF k(2) [OF that], of stored_hash] by simp
  then have h: "map stored_hash cs = map (segment_hash X) fs"
    using l by (intro nth_equalityI) auto
  have "map stored_continuity cs ! k = chain_values X (genesis X) (map (segment_hash X) fs) ! k" for k
    using v h by (simp add: validate_chain_ok)
  then have "stored_continuity (cs ! k) = chain_values X (genesis X) (map (segment_hash X) fs) ! k" if "k < length ss" for k
    using that l by (metis nth_map)
  then show ?r using l k(1) by (intro exI [of _ fs]) simp
next
  assume ?r
  then obtain fs where fs: "length fs = length ss" "\<forall>k < length fs. chunk_intact X D k (ss ! k) (fs ! k)
      (chain_values X (genesis X) (map (segment_hash X) fs) ! k)" by blast
  have "check_segments X D 0 ss = Inr (honest_segments X (map (segment_hash X) fs))"
    unfolding check_segments_intact by (rule exI [of _ fs]) (use fs in \<open>simp add: honest_segments_def\<close>)
  then show ?l using honest_segments_ok by blast
qed

lemma validate_archive_iff:
  "validate_archive X J D = Inr () \<longleftrightarrow>
     (\<exists>m sig fs. read_manifest J D = Inr (m, sig) \<and> archive_intact X D m fs)"
proof -
  have unref: "(case chunk_entries D of None \<Rightarrow> Inr () | Some es \<Rightarrow> check_unreferenced (set (map chunk_file (segments m))) es) = Inr () \<longleftrightarrow>
      no_stray_chunks D m" for m
    by (auto simp: no_stray_chunks_def check_unreferenced_iff split: option.splits)
  have "validate_archive X J D = Inr () \<longleftrightarrow> (\<exists>m sig. read_manifest J D = Inr (m, sig) \<and> no_stray_chunks D m \<and>
      manifest_valid m \<and> (\<exists>cs. check_segments X D 0 (segments m) = Inr cs \<and> validate_chain X cs = Inr ()))"
    by (simp add: validate_archive_def res_simps unref manifest_validate_ok_iff case_prod_beta')
  then show ?thesis unfolding chain_over_chunks archive_intact_def by blast
qed

section \<open>The writer\<close>

text \<open>
  Writer states reachable from \<open>writer_create\<close>, together with the chunks pushed so far. The index is a
  32-bit counter; the steps stop before it would wrap.
\<close>

definition writer_step :: "'x crates_scheme \<Rightarrow> ArchiveWriter \<times> bytes list \<Rightarrow> ArchiveWriter \<times> bytes list \<Rightarrow> bool" where
  "writer_step X s t \<longleftrightarrow> (\<exists>c. fst t = fst (push_chunk X (fst s) c) \<and> snd t = snd s @ [c] \<and> length (snd t) < 2 ^ 32)"

definition writer_inv :: "'x crates_scheme \<Rightarrow> archive_dir \<Rightarrow> ArchiveWriter \<times> bytes list \<Rightarrow> bool" where
  "writer_inv X D s \<longleftrightarrow> (case s of (w, cs) \<Rightarrow>
     length cs < 2 ^ 32 \<and> next_index w = word_of_nat (length cs) \<and>
     chain_state w = chain_tip X (map (segment_hash X) cs) \<and>
     (\<exists>es. chunk_entries (w_dir w) = Some es \<and>
        (\<forall>k < length cs. map_of es (chunk_filename k) = Some (cs ! k)) \<and>
        fst ` set es = (case chunk_entries D of None \<Rightarrow> {} | Some old \<Rightarrow> fst ` set old) \<union> chunk_filename ` {..<length cs}))"

lemma unat_index: "n < 2 ^ 32 \<Longrightarrow> unat (word_of_nat n :: u32) = n"
  by (simp add: unat_of_nat take_bit_nat_eq_self)

lemma writer_inv_create: "writer_inv X D (writer_create X D, [])"
  by (auto simp: writer_inv_def writer_create_def chain_tip_def split: option.splits)

lemma writer_inv_push:
  assumes "writer_inv X D s" "writer_step X s t"
  shows "writer_inv X D t"
proof -
  obtain w cs where s: "s = (w, cs)" by (cases s)
  from assms(2) obtain c where t: "t = (fst (push_chunk X w c), cs @ [c])" and l: "length cs + 1 < 2 ^ 32"
    unfolding writer_step_def s by (cases t) auto
  from assms(1) obtain es where inv: "next_index w = word_of_nat (length cs)" "chain_state w = chain_tip X (map (segment_hash X) cs)"
    "chunk_entries (w_dir w) = Some es" "\<And>k. k < length cs \<Longrightarrow> map_of es (chunk_filename k) = Some (cs ! k)"
    "fst ` set es = (case chunk_entries D of None \<Rightarrow> {} | Some old \<Rightarrow> fst ` set old) \<union> chunk_filename ` {..<length cs}"
    unfolding writer_inv_def s by auto
  have n: "unat (next_index w) = length cs" using inv(1) l by (simp add: unat_index)
  let ?es = "AList.update (chunk_filename (length cs)) c es"
  have "chunk_entries (w_dir (fst (push_chunk X w c))) = Some ?es"
    by (simp add: push_chunk_def Let_def write_chunk_def inv(3) n)
  moreover have "map_of ?es (chunk_filename k) = Some ((cs @ [c]) ! k)" if "k < Suc (length cs)" for k
    using that inv(4) [of k] by (auto simp: update_conv' nth_append less_Suc_eq)
  moreover have "fst ` set ?es = (case chunk_entries D of None \<Rightarrow> {} | Some old \<Rightarrow> fst ` set old) \<union> chunk_filename ` {..<Suc (length cs)}"
    by (simp add: dom_update inv(5) lessThan_Suc)
  moreover have "chain_state (fst (push_chunk X w c)) = chain_tip X (map (segment_hash X) (cs @ [c]))"
    by (simp add: push_chunk_def Let_def inv(2) chain_tip_def)
  moreover have "next_index (fst (push_chunk X w c)) = word_of_nat (length (cs @ [c]))"
    by (simp add: push_chunk_def Let_def inv(1))
  ultimately show ?thesis
    using l unfolding writer_inv_def t by simp
qed

interpretation writer: invariant_system "\<lambda>s. s = (writer_create X D, [])" "writer_step X" "writer_inv X D" for X D
  by unfold_locales (auto intro: writer_inv_create writer_inv_push)

definition writer_run :: "'x crates_scheme \<Rightarrow> archive_dir \<Rightarrow> bytes list \<Rightarrow> ArchiveWriter" where
  "writer_run X D cs = foldl (\<lambda>w c. fst (push_chunk X w c)) (writer_create X D) cs"

lemma writer_run_steps:
  "length cs < 2 ^ 32 \<Longrightarrow> (writer_step X)\<^sup>*\<^sup>* (writer_create X D, []) (writer_run X D cs, cs)"
proof (induction cs rule: rev_induct)
  case (snoc c cs)
  have "writer_step X (writer_run X D cs, cs) (writer_run X D (cs @ [c]), cs @ [c])"
    using snoc.prems by (simp add: writer_step_def writer_run_def)
  with snoc show ?case by (simp add: rtranclp.rtrancl_into_rtrancl)
qed (simp add: writer_run_def)

lemma writer_run_inv: "length cs < 2 ^ 32 \<Longrightarrow> writer_inv X D (writer_run X D cs, cs)"
  by (rule writer.inv_reachable [OF refl writer_run_steps])

text \<open>The segment a producer records for the \<open>k\<close>-th chunk.\<close>

definition segment_for :: "'x crates_scheme \<Rightarrow> bytes list \<Rightarrow> nat \<Rightarrow> SegmentInfo \<Rightarrow> bool" where
  "segment_for X cs k s \<longleftrightarrow> chunk_file s = chunk_filename k \<and>
     seg_blake3_hash s = hex_encode X (segment_hash X (cs ! k)) \<and>
     continuity_hash s = hex_encode X (chain_values X (genesis X) (map (segment_hash X) cs) ! k)"

text \<open>serde_json reads back the manifest it printed.\<close>

definition man_json_ok :: "man_json \<Rightarrow> TrstManifest \<Rightarrow> bool" where
  "man_json_ok J m \<longleftrightarrow> (\<forall>t. man_print J m = Inr t \<longrightarrow> man_parse J (str_bytes t) = Inr m)"

text \<open>The directory holds no chunk file before the archive is written.\<close>

definition no_chunk_files :: "archive_dir \<Rightarrow> bool" where
  "no_chunk_files D \<longleftrightarrow> (\<forall>es. chunk_entries D = Some es \<longrightarrow>
     (\<forall>n \<in> fst ` set es. \<not> ends_with ''.bin'' (bytes_str (from_utf8_lossy (str_bytes n)))))"

lemma length_chain_values_nth:
  "blake3_len X \<Longrightarrow> k < length hs \<Longrightarrow> length (chain_values X (genesis X) hs ! k) = 32"
  using length_chain_tip [of X "take (Suc k) hs"] by (simp add: chain_values_nth chain_tip_def)

lemma written_archive_intact:
  assumes "hex_ok X" "blake3_len X" "no_chunk_files D" "manifest_valid m"
    and len: "length cs = length (segments m)" "length cs < 2 ^ 32"
    and cap: "list_all (\<lambda>c. length c \<le> MAX_STORED_CHUNK_BYTES) cs"
    and seg: "\<And>k. k < length cs \<Longrightarrow> segment_for X cs k (segments m ! k)"
    and D': "chunk_entries D' = chunk_entries (w_dir (writer_run X D cs))"
  shows "archive_intact X D' m cs"
proof -
  from writer_run_inv [OF len(2), of X D] obtain es where es: "chunk_entries D' = Some es"
    "\<And>k. k < length cs \<Longrightarrow> map_of es (chunk_filename k) = Some (cs ! k)"
    "fst ` set es = (case chunk_entries D of None \<Rightarrow> {} | Some old \<Rightarrow> fst ` set old) \<union> chunk_filename ` {..<length cs}"
    unfolding writer_inv_def D' by auto
  have old: "\<not> ends_with ''.bin'' (bytes_str (from_utf8_lossy (str_bytes n)))"
    if "n \<in> (case chunk_entries D of None \<Rightarrow> {} | Some old \<Rightarrow> fst ` set old)" for n
    using that assms(3) by (cases "chunk_entries D") (auto simp: no_chunk_files_def)
  have new: "chunk_filename k \<in> set (map chunk_file (segments m))" if "k < length cs" for k
    using that seg [OF that] len by (force simp: segment_for_def in_set_conv_nth)
  have "\<forall>n \<in> fst ` set es. let s = bytes_str (from_utf8_lossy (str_bytes n)) in
      ends_with ''.bin'' s \<longrightarrow> s \<in> set (map chunk_file (segments m))"
    unfolding es(3) using old new by (auto simp: Let_def)
  then have "no_stray_chunks D' m" unfolding no_stray_chunks_def es(1) by simp
  moreover have "chunk_intact X D' k (segments m ! k) (cs ! k) (chain_values X (genesis X) (map (segment_hash X) cs) ! k)"
    if "k < length cs" for k
    using that seg [OF that] es(2) [OF that] cap assms(1,2)
    by (simp add: chunk_intact_def segment_for_def chunk_content_def es(1) hex_ok_simps list_all_length length_chain_values_nth)
  ultimately show ?thesis using assms(4) len by (simp add: archive_intact_def)
qed

lemma check_unreferenced_error: "check_unreferenced E es = Inr () \<or> (\<exists>n. check_unreferenced E es = Inl (UnreferencedChunk n))"
  by (induction E es rule: check_unreferenced.induct) (auto simp: Let_def)

lemma intact_tip:
  assumes "archive_intact X D m fs"
  shows "hex_decode X (continuity_hash (last (segments m))) = Inr (chain_tip X (map (segment_hash X) fs))"
proof -
  have l: "length fs = length (segments m)" "segments m \<noteq> []" "fs \<noteq> []"
    using assms by (auto simp: archive_intact_def manifest_valid_def)
  let ?k = "length fs - 1"
  have "chunk_intact X D ?k (segments m ! ?k) (fs ! ?k) (chain_values X (genesis X) (map (segment_hash X) fs) ! ?k)"
    using assms l by (simp add: archive_intact_def)
  moreover have "chain_values X (genesis X) (map (segment_hash X) fs) ! ?k = chain_tip X (map (segment_hash X) fs)"
    using l by (simp add: chain_values_nth chain_tip_def take_map flip: length_greater_0_conv)
  moreover have "segments m ! ?k = last (segments m)" using l by (simp add: last_conv_nth)
  ultimately show ?thesis by (simp add: chunk_intact_def)
qed

text \<open>The bytes of the chunk files in segment order.\<close>

definition payload :: "archive_dir \<Rightarrow> TrstManifest \<Rightarrow> bytes list" where
  "payload D m = map (\<lambda>k. case chunk_content D (chunk_filename k) of None \<Rightarrow> [] | Some f \<Rightarrow> f) [0..<length (segments m)]"

lemma intact_payload: "archive_intact X D m fs \<Longrightarrow> fs = payload D m"
  by (rule nth_equalityI) (auto simp: archive_intact_def chunk_intact_def payload_def)

section \<open>Properties\<close>

text \<open>
  C18: an archive that was written is accepted. Pushing any chunks (fewer than 2^32, none above the stored-chunk
  cap) into a directory without chunk files and finalizing with a valid manifest whose segments record their names, hashes
  and continuity values succeeds when the printed manifest fits the cap, and
  \<open>validate_archive\<close> accepts the resulting directory; the embedded signature, if any, is the detached one.
\<close>

theorem written_archive_validates:
  assumes "hex_ok X" "blake3_len X" "no_chunk_files D" "manifest_validate m = Inr ()" "man_json_ok J m"
    and "man_print J m = Inr t" "length t \<le> MANIFEST_MAX_BYTES" "length sig \<le> SIG_MAX_BYTES"
    and "\<And>s. man_signature m = Some s \<Longrightarrow> sig = str_bytes s \<and> utf8_valid sig"
    and "length cs = length (segments m)" "length cs < 2 ^ 32"
    and "list_all (\<lambda>c. length c \<le> MAX_STORED_CHUNK_BYTES) cs"
    and "\<And>k. k < length cs \<Longrightarrow> segment_for X cs k (segments m ! k)"
  shows "\<exists>D'. finalize J (writer_run X D cs) m sig = Inr D' \<and> validate_archive X J D' = Inr ()"
proof -
  let ?D = "(w_dir (writer_run X D cs))\<lparr> manifest_file := Some (str_bytes t), sig_file := Some sig \<rparr>"
  have "unat (next_index (writer_run X D cs)) = length (segments m)"
    using writer_run_inv [OF assms(11), of X D] assms(10,11) by (auto simp: writer_inv_def unat_index)
  then have "finalize J (writer_run X D cs) m sig = Inr ?D"
    using assms(6,7) by (simp add: finalize_def)
  moreover have "archive_intact X ?D m cs"
    by (rule written_archive_intact [OF assms(1-3) _ assms(10-13)])
      (use assms(4) in \<open>simp_all add: manifest_validate_ok_iff\<close>)
  moreover have "read_manifest J ?D = Inr (m, sig)"
    using assms(5-9) by (auto simp: read_manifest_def res_simps read_capped_iff man_json_ok_def from_utf8_lossy_valid
        split: option.splits)
  ultimately show ?thesis using validate_archive_iff by blast
qed

text \<open>
  C4: \<open>validate_archive\<close> accepts a directory exactly when its manifest is readable and valid, no \<^verbatim>\<open>.bin\<close>
  file is foreign to it, and the chunk files exist, stay within the cap, carry the hashes the segments record and
  form the continuity chain; a foreign chunk file is reported before anything else is checked.
\<close>

theorem validate_archive_exact:
  "(validate_archive X J D = Inr () \<longleftrightarrow> (\<exists>m sig fs. read_manifest J D = Inr (m, sig) \<and> archive_intact X D m fs)) \<and>
   (\<forall>m sig. read_manifest J D = Inr (m, sig) \<and> \<not> no_stray_chunks D m \<longrightarrow>
      (\<exists>n. validate_archive X J D = Inl (UnreferencedChunk n)))"
proof (intro conjI allI impI)
  show "validate_archive X J D = Inr () \<longleftrightarrow> (\<exists>m sig fs. read_manifest J D = Inr (m, sig) \<and> archive_intact X D m fs)"
    by (rule validate_archive_iff)
next
  fix m sig
  assume a: "read_manifest J D = Inr (m, sig) \<and> \<not> no_stray_chunks D m"
  then obtain es where es: "chunk_entries D = Some es" by (auto simp: no_stray_chunks_def)
  with a have "check_unreferenced (set (map chunk_file (segments m))) es \<noteq> Inr ()"
    by (auto simp: no_stray_chunks_def check_unreferenced_iff)
  then obtain n where "check_unreferenced (set (map chunk_file (segments m))) es = Inl (UnreferencedChunk n)"
    using check_unreferenced_error [of "set (map chunk_file (segments m))" es] by blast
  then show "\<exists>n. validate_archive X J D = Inl (UnreferencedChunk n)"
    using a es by (simp add: validate_archive_def)
qed

text \<open>
  C8: the continuity tip pins the payload. If \<open>validate_archive\<close> accepts two archives and their manifests end in the
  same continuity hash, then, unless BLAKE3 collides on the chunks or chain inputs of the two,
  both have the same number of chunks with the same bytes.
\<close>

theorem validated_payload_unique:
  assumes "blake3_len X"
    and "validate_archive X J D = Inr ()" "validate_archive X J D' = Inr ()"
    and "read_manifest J D = Inr (m, s)" "read_manifest J D' = Inr (m', s')"
    and "continuity_hash (last (segments m)) = continuity_hash (last (segments m'))"
    and "no_collision X (set (payload D m) \<union> set (payload D' m') \<union>
       chain_inputs X (map (segment_hash X) (payload D m)) \<union> chain_inputs X (map (segment_hash X) (payload D' m')))"
  shows "length (segments m) = length (segments m') \<and> payload D m = payload D' m' \<and>
    (\<forall>k < length (segments m). chunk_content D (chunk_filename k) = chunk_content D' (chunk_filename k) \<and>
       chunk_content D (chunk_filename k) \<noteq> None)"
proof -
  from assms(2-5) obtain fs fs' where fs: "archive_intact X D m fs" "archive_intact X D' m' fs'"
    unfolding validate_archive_iff by auto
  note free = assms(7) [folded intact_payload [OF fs(1)] intact_payload [OF fs(2)]]
  have "chain_tip X (map (segment_hash X) fs) = chain_tip X (map (segment_hash X) fs')"
    using intact_tip [OF fs(1)] intact_tip [OF fs(2)] assms(6) by simp
  moreover have "no_collision X (chain_inputs X (map (segment_hash X) fs) \<union> chain_inputs X (map (segment_hash X) fs'))"
    by (rule no_collision_mono [OF free]) auto
  moreover have "list_all (\<lambda>h. length h = 32) (map (segment_hash X) gs)" for gs
    using assms(1) by (simp add: list_all_length segment_hash_def blake3_len_def)
  ultimately have h: "map (segment_hash X) fs = map (segment_hash X) fs'"
    by (intro chain_tip_determines [OF assms(1)]) auto
  have "inj_on (segment_hash X) (set fs \<union> set fs')"
    using no_collision_mono [OF free, of "set fs \<union> set fs'"] by (auto simp: no_collision_def segment_hash_def inj_on_def)
  then have "fs = fs'" using h by (simp add: inj_on_map_eq_map)
  then show ?thesis
    using fs intact_payload [OF fs(1)] intact_payload [OF fs(2)] by (auto simp: archive_intact_def chunk_intact_def)
qed

text \<open>A one-chunk archive and a JSON codec for its manifest, for the witnesses.\<close>

definition sample_chunk :: bytes where "sample_chunk = [1, 2, 3]"

definition sample_sealed :: TrstManifest where
  "sample_sealed = sample_manifest\<lparr> segments := [sample_segment\<lparr> chunk_file := chunk_filename 0,
     seg_blake3_hash := hex_encode sample_crates (segment_hash sample_crates sample_chunk),
     continuity_hash := hex_encode sample_crates
       (chain_next sample_crates (genesis sample_crates) (segment_hash sample_crates sample_chunk)) \<rparr>] \<rparr>"

definition sample_man_json :: man_json where
  "sample_man_json = \<lparr> man_print = (\<lambda>_. Inr ''{}''), man_parse = (\<lambda>_. Inr sample_sealed) \<rparr>"

definition empty_dir :: archive_dir where
  "empty_dir = \<lparr> base_path = ''a.seal'', manifest_file = None, sig_file = None, chunk_entries = None \<rparr>"

lemma hex_sample_nonempty: "hex_encode sample_crates (sample_digest b) \<noteq> []"
  using hex_ok_simps(2) [OF sample_hex_ok, of "sample_digest b"] by (cases "hex_encode sample_crates (sample_digest b)") auto

lemma sample_sealed_valid: "manifest_validate sample_sealed = Inr ()"
proof -
  have "blake3_hash sample_crates = sample_digest" by (simp add: sample_crates_def)
  then show ?thesis
    unfolding sample_sealed_def
    by (intro sample_manifest_segments) (simp_all add: segment_hash_def chain_next_def hex_sample_nonempty)
qed

lemma sample_sealed_segment: "segment_for sample_crates [sample_chunk] 0 (segments sample_sealed ! 0)"
  by (simp add: segment_for_def sample_sealed_def)

lemma sample_writes:
  "\<exists>D'. finalize sample_man_json (writer_run sample_crates empty_dir [sample_chunk]) sample_sealed [7] = Inr D' \<and>
     chunk_entries D' = Some [(chunk_filename 0, sample_chunk)] \<and> read_manifest sample_man_json D' = Inr (sample_sealed, [7])"
  by (simp add: finalize_def writer_run_def push_chunk_def Let_def writer_create_def write_chunk_def empty_dir_def
      sample_man_json_def sample_sealed_def MANIFEST_MAX_BYTES_def read_manifest_def read_capped_def SIG_MAX_BYTES_def
      sample_manifest_def manifest_new_def)

theorem written_archive_validates_witness:
  "\<exists>D'. finalize sample_man_json (writer_run sample_crates empty_dir [sample_chunk]) sample_sealed [7] = Inr D' \<and>
     validate_archive sample_crates sample_man_json D' = Inr ()"
proof (rule written_archive_validates [OF sample_hex_ok sample_blake3_len _ sample_sealed_valid])
  show "segment_for sample_crates [sample_chunk] k (segments sample_sealed ! k)" if "k < length [sample_chunk]" for k
    using that sample_sealed_segment by simp
  show "length [sample_chunk] = length (segments sample_sealed)" by (simp add: sample_sealed_def)
  show "man_print sample_man_json sample_sealed = Inr ''{}''" by (simp add: sample_man_json_def)
qed (auto simp: no_chunk_files_def empty_dir_def man_json_ok_def sample_man_json_def MANIFEST_MAX_BYTES_def SIG_MAX_BYTES_def
    sample_sealed_def sample_manifest_def manifest_new_def sample_chunk_def MAX_STORED_CHUNK_BYTES_def MAX_CHUNK_SIZE_BYTES_def)

definition stray_dir :: archive_dir where
  "stray_dir = \<lparr> base_path = ''a.seal'', manifest_file = Some [], sig_file = Some [], chunk_entries = Some [(''x.bin'', [])] \<rparr>"

lemma stray_dir_read: "read_manifest sample_man_json stray_dir = Inr (sample_sealed, [])"
  by (simp add: read_manifest_def stray_dir_def read_capped_def sample_man_json_def sample_sealed_def sample_manifest_def manifest_new_def)

lemma stray_dir_stray: "\<not> no_stray_chunks stray_dir sample_sealed"
proof -
  have "length (chunk_filename 0) = 9" by (simp add: chunk_filename_def show_nat05_def pad_left_def show_nat.simps)
  then have "length ''x.bin'' \<noteq> length (chunk_filename 0)" by simp
  then have "''x.bin'' \<noteq> chunk_filename 0" by metis
  moreover have "bytes_str (from_utf8_lossy (str_bytes ''x.bin'')) = ''x.bin''"
    by (subst from_utf8_lossy_valid [OF utf8_valid_str]) (simp_all add: ascii_def)
  moreover have "ends_with ''.bin'' ''x.bin''" by (simp add: ends_with_def)
  ultimately show ?thesis by (simp add: no_stray_chunks_def stray_dir_def sample_sealed_def Let_def)
qed

theorem validate_archive_exact_witness:
  "\<exists>n. validate_archive sample_crates sample_man_json stray_dir = Inl (UnreferencedChunk n)"
  using validate_archive_exact [of sample_crates sample_man_json stray_dir] stray_dir_read stray_dir_stray by blast

lemma sample_dir_intact:
  assumes "finalize sample_man_json (writer_run sample_crates empty_dir [sample_chunk]) sample_sealed [7] = Inr D"
  shows "archive_intact sample_crates D sample_sealed [sample_chunk]"
proof (rule written_archive_intact [OF sample_hex_ok sample_blake3_len])
  show "manifest_valid sample_sealed" using sample_sealed_valid by (simp add: manifest_validate_ok_iff)
  show "no_chunk_files empty_dir" by (simp add: no_chunk_files_def empty_dir_def)
  show "segment_for sample_crates [sample_chunk] k (segments sample_sealed ! k)" if "k < length [sample_chunk]" for k
    using that sample_sealed_segment by simp
  show "chunk_entries D = chunk_entries (w_dir (writer_run sample_crates empty_dir [sample_chunk]))"
    using assms by (auto simp: finalize_def res_simps split: if_splits)
qed (simp_all add: sample_sealed_def sample_chunk_def MAX_STORED_CHUNK_BYTES_def MAX_CHUNK_SIZE_BYTES_def)

theorem validated_payload_unique_witness:
  "\<exists>D. validate_archive sample_crates sample_man_json D = Inr () \<and> payload D sample_sealed = [sample_chunk]"
proof -
  from sample_writes obtain D where D: "finalize sample_man_json (writer_run sample_crates empty_dir [sample_chunk]) sample_sealed [7] = Inr D"
    "read_manifest sample_man_json D = Inr (sample_sealed, [7])" by blast
  note intact = sample_dir_intact [OF D(1)]
  have v: "validate_archive sample_crates sample_man_json D = Inr ()"
    using intact D(2) validate_archive_iff by blast
  have pay: "payload D sample_sealed = [sample_chunk]" using intact_payload [OF intact] by simp
  have "no_collision sample_crates (set [sample_chunk] \<union> set [sample_chunk] \<union>
      chain_inputs sample_crates (map (segment_hash sample_crates) [sample_chunk]) \<union>
      chain_inputs sample_crates (map (segment_hash sample_crates) [sample_chunk]))"
  proof (rule no_collision_mono)
    show "no_collision sample_crates (set [sample_chunk, GENESIS_SEED, genesis sample_crates @ segment_hash sample_crates sample_chunk])"
      by (rule no_collision_list) (simp add: sample_eval segment_hash_def sample_chunk_def)
  qed (auto simp: chain_inputs_def)
  then show ?thesis
    using validated_payload_unique [OF sample_blake3_len v v D(2) D(2)] v pay by auto
qed

end
