(* ===== verification/Format.thy ===== *)
theory Format
  imports Crates
begin

text \<open>
  The binary record format of \<^verbatim>\<open>crates/core/src/format.rs\<close>: algorithm identifiers and their
  validation, the 66-byte file header and its 58-byte predecessor, the associated data of an encrypted
  record, the stream preamble with migration from version 1, and domain-separated manifest
  signatures. Arrays of fixed size are byte lists; \<open>header_wf\<close> states the sizes their types fix.
\<close>

section \<open>Constants and algorithm identifiers\<close>

definition NONCE_LEN :: nat where "NONCE_LEN = 12"
definition AAD_LEN :: nat where "AAD_LEN = 32 + 8 + NONCE_LEN + 32 + 4"
definition HEADER_LEN :: nat where "HEADER_LEN = 66"
definition MAGIC :: bytes where "MAGIC = str_bytes ''SEAL''"
definition VERSION :: u8 where "VERSION = 2"
definition MANIFEST_DOMAIN_SEP :: bytes where "MANIFEST_DOMAIN_SEP = str_bytes ''sealedge.manifest.v1''"

datatype AeadAlgorithm = Aes256Gcm | ChaCha20Poly1305 | Aes256Siv
datatype SignatureAlgorithm = Ed25519 | EcdsaP256 | EcdsaP384 | RsaPss2048 | RsaPss4096 | Dilithium3 | Falcon512
datatype HashAlgorithm = Blake3 | Sha256 | Sha384 | Sha512 | Sha3_256 | Sha3_512
datatype KdfAlgorithm = Pbkdf2Sha256 | Argon2id | Scrypt | Hkdf

text \<open>The discriminants (\<^verbatim>\<open>alg as u8\<close>) and the checked conversions back.\<close>

fun aead_u8 :: "AeadAlgorithm \<Rightarrow> u8" where
  "aead_u8 Aes256Gcm = 1" | "aead_u8 ChaCha20Poly1305 = 2" | "aead_u8 Aes256Siv = 3"

definition aead_try_from :: "u8 \<Rightarrow> anyhow + AeadAlgorithm" where
  "aead_try_from value =
    (if value = 1 then Inr Aes256Gcm else if value = 2 then Inr ChaCha20Poly1305
     else if value = 3 then Inr Aes256Siv
     else Inl [''Unsupported AEAD algorithm: '' @ show_nat (unat value)])"

fun sig_u8 :: "SignatureAlgorithm \<Rightarrow> u8" where
  "sig_u8 Ed25519 = 1" | "sig_u8 EcdsaP256 = 2" | "sig_u8 EcdsaP384 = 3" | "sig_u8 RsaPss2048 = 4"
| "sig_u8 RsaPss4096 = 5" | "sig_u8 Dilithium3 = 6" | "sig_u8 Falcon512 = 7"

definition sig_try_from :: "u8 \<Rightarrow> anyhow + SignatureAlgorithm" where
  "sig_try_from value =
    (if value = 1 then Inr Ed25519 else if value = 2 then Inr EcdsaP256
     else if value = 3 then Inr EcdsaP384 else if value = 4 then Inr RsaPss2048
     else if value = 5 then Inr RsaPss4096 else if value = 6 then Inr Dilithium3
     else if value = 7 then Inr Falcon512
     else Inl [''Unsupported signature algorithm: '' @ show_nat (unat value)])"

fun hash_u8 :: "HashAlgorithm \<Rightarrow> u8" where
  "hash_u8 Blake3 = 1" | "hash_u8 Sha256 = 2" | "hash_u8 Sha384 = 3" | "hash_u8 Sha512 = 4"
| "hash_u8 Sha3_256 = 5" | "hash_u8 Sha3_512 = 6"

definition hash_try_from :: "u8 \<Rightarrow> anyhow + HashAlgorithm" where
  "hash_try_from value =
    (if value = 1 then Inr Blake3 else if value = 2 then Inr Sha256
     else if value = 3 then Inr Sha384 else if value = 4 then Inr Sha512
     else if value = 5 then Inr Sha3_256 else if value = 6 then Inr Sha3_512
     else Inl [''Unsupported hash algorithm: '' @ show_nat (unat value)])"

fun kdf_u8 :: "KdfAlgorithm \<Rightarrow> u8" where
  "kdf_u8 Pbkdf2Sha256 = 1" | "kdf_u8 Argon2id = 2" | "kdf_u8 Scrypt = 3" | "kdf_u8 Hkdf = 4"

definition kdf_try_from :: "u8 \<Rightarrow> anyhow + KdfAlgorithm" where
  "kdf_try_from value =
    (if value = 1 then Inr Pbkdf2Sha256 else if value = 2 then Inr Argon2id
     else if value = 3 then Inr Scrypt else if value = 4 then Inr Hkdf
     else Inl [''Unsupported KDF algorithm: '' @ show_nat (unat value)])"

text \<open>Each conversion is the exact inverse of the discriminant.\<close>

definition accepted :: "'e + 'a \<Rightarrow> 'a option" where
  "accepted r = (case r of Inl _ \<Rightarrow> None | Inr x \<Rightarrow> Some x)"

lemma accepted_simps [simp]: "accepted (Inr x) = Some x" "accepted (Inl e) = None"
  by (simp_all add: accepted_def)

lemma accepted_Some_iff: "accepted r = Some x \<longleftrightarrow> r = Inr x"
  by (cases r) auto

interpretation aead_alg: strict_codec aead_u8 "\<lambda>b. accepted (aead_try_from b)" "\<lambda>_. True"
proof
  show "accepted (aead_try_from (aead_u8 x)) = Some x" for x
    by (cases x) (simp_all add: aead_try_from_def)
qed (auto simp: aead_try_from_def accepted_Some_iff split: if_splits)

interpretation sig_alg: strict_codec sig_u8 "\<lambda>b. accepted (sig_try_from b)" "\<lambda>_. True"
proof
  show "accepted (sig_try_from (sig_u8 x)) = Some x" for x
    by (cases x) (simp_all add: sig_try_from_def)
qed (auto simp: sig_try_from_def accepted_Some_iff split: if_splits)

interpretation hash_alg: strict_codec hash_u8 "\<lambda>b. accepted (hash_try_from b)" "\<lambda>_. True"
proof
  show "accepted (hash_try_from (hash_u8 x)) = Some x" for x
    by (cases x) (simp_all add: hash_try_from_def)
qed (auto simp: hash_try_from_def accepted_Some_iff split: if_splits)

interpretation kdf_alg: strict_codec kdf_u8 "\<lambda>b. accepted (kdf_try_from b)" "\<lambda>_. True"
proof
  show "accepted (kdf_try_from (kdf_u8 x)) = Some x" for x
    by (cases x) (simp_all add: kdf_try_from_def)
qed (auto simp: kdf_try_from_def accepted_Some_iff split: if_splits)

section \<open>File header\<close>

record FileHeader =
  version :: u8
  aead_alg :: u8
  sig_alg :: u8
  hash_alg :: u8
  kdf_alg :: u8
  reserved :: bytes
  key_id :: bytes
  device_id_hash :: bytes
  nonce_prefix :: bytes
  chunk_size :: u32

text \<open>The array sizes of the Rust type.\<close>

definition header_wf :: "FileHeader \<Rightarrow> bool" where
  "header_wf h \<longleftrightarrow> length (reserved h) = 3 \<and> length (key_id h) = 16 \<and> length (device_id_hash h) = 32 \<and>
     length (nonce_prefix h) = 4"

definition slice :: "nat \<Rightarrow> nat \<Rightarrow> 'a list \<Rightarrow> 'a list" where
  "slice a b xs = take (b - a) (drop a xs)"

definition to_bytes :: "FileHeader \<Rightarrow> bytes" where
  "to_bytes h =
     [version h, aead_alg h, sig_alg h, hash_alg h, kdf_alg h] @ reserved h @ key_id h @
     device_id_hash h @ nonce_prefix h @ u32_to_be_bytes (chunk_size h) @ [0, 0]"

definition from_bytes :: "bytes \<Rightarrow> anyhow + FileHeader" where
  "from_bytes b =
     res_bind (with_context ''Invalid AEAD algorithm'' (aead_try_from (b ! 1))) (\<lambda>_.
     res_bind (with_context ''Invalid signature algorithm'' (sig_try_from (b ! 2))) (\<lambda>_.
     res_bind (with_context ''Invalid hash algorithm'' (hash_try_from (b ! 3))) (\<lambda>_.
     res_bind (with_context ''Invalid KDF algorithm'' (kdf_try_from (b ! 4))) (\<lambda>_.
     Inr \<lparr> version = b ! 0, aead_alg = b ! 1, sig_alg = b ! 2, hash_alg = b ! 3, kdf_alg = b ! 4,
       reserved = slice 5 8 b, key_id = slice 8 24 b, device_id_hash = slice 24 56 b,
       nonce_prefix = slice 56 60 b,
       chunk_size = u32_from_be_bytes [b ! 60, b ! 61, b ! 62, b ! 63] \<rparr>))))"

definition new_with_defaults :: FileHeader where
  "new_with_defaults = \<lparr> version = VERSION, aead_alg = aead_u8 Aes256Gcm, sig_alg = sig_u8 Ed25519,
     hash_alg = hash_u8 Blake3, kdf_alg = kdf_u8 Pbkdf2Sha256, reserved = replicate 3 0,
     key_id = replicate 16 0, device_id_hash = replicate 32 0, nonce_prefix = replicate 4 0,
     chunk_size = 0 \<rparr>"

text \<open>The identifiers \<^const>\<open>from_bytes\<close> insists on.\<close>

definition header_algs_ok :: "FileHeader \<Rightarrow> bool" where
  "header_algs_ok h \<longleftrightarrow> is_ok (aead_try_from (aead_alg h)) \<and> is_ok (sig_try_from (sig_alg h)) \<and>
     is_ok (hash_try_from (hash_alg h)) \<and> is_ok (kdf_try_from (kdf_alg h))"

lemma length_to_bytes: "header_wf h \<Longrightarrow> length (to_bytes h) = HEADER_LEN"
  by (simp add: to_bytes_def header_wf_def HEADER_LEN_def)

lemma list4: "length xs = 4 \<Longrightarrow> [xs ! 0, xs ! Suc 0, xs ! 2, xs ! 3] = xs"
  by (auto simp: numeral_eq_Suc length_Suc_conv)

lemma slice_nths: "d = c + 4 \<Longrightarrow> length b \<ge> d \<Longrightarrow> slice c d b = [b ! c, b ! (c + 1), b ! (c + 2), b ! (c + 3)]"
  by (auto simp: slice_def list_eq_iff_nth_eq nth_Cons less_Suc_eq numeral_eq_Suc split: nat.splits)

lemma chunk_size_slice:
  "length b = 66 \<Longrightarrow> u32_from_be_bytes [b ! 60, b ! 61, b ! 62, b ! 63] = u32_from_be_bytes (slice 60 64 b)"
  by (simp add: slice_nths [of 64 60])

lemma from_bytes_to_bytes:
  assumes "header_wf h" "header_algs_ok h"
  shows "from_bytes (to_bytes h) = Inr h"
proof -
  have "length (to_bytes h) = 66" using length_to_bytes [OF assms(1)] by (simp add: HEADER_LEN_def)
  note cs = chunk_size_slice [OF this]
  have *: "slice 5 8 (to_bytes h) = reserved h" "slice 8 24 (to_bytes h) = key_id h"
    "slice 24 56 (to_bytes h) = device_id_hash h" "slice 56 60 (to_bytes h) = nonce_prefix h"
    "slice 60 64 (to_bytes h) = u32_to_be_bytes (chunk_size h)"
    using assms(1) by (simp_all add: to_bytes_def header_wf_def slice_def)
  have nth: "to_bytes h ! 0 = version h" "to_bytes h ! 1 = aead_alg h" "to_bytes h ! 2 = sig_alg h"
    "to_bytes h ! 3 = hash_alg h" "to_bytes h ! 4 = kdf_alg h"
    by (simp_all add: to_bytes_def)
  from assms(2) show ?thesis
    unfolding from_bytes_def cs * nth by (auto simp: header_algs_ok_def is_ok_iff)
qed

lemma slice_append: "a \<le> b \<Longrightarrow> b \<le> c \<Longrightarrow> slice a b xs @ slice b c xs = slice a c xs"
proof -
  assume "a \<le> b" "b \<le> c"
  then have "drop b xs = drop (b - a) (drop a xs)" "c - a = (b - a) + (c - b)" by simp_all
  then show ?thesis by (simp only: slice_def take_add)
qed

lemma to_bytes_from_bytes:
  assumes len: "length b = HEADER_LEN" and ok: "from_bytes b = Inr h"
  shows "header_wf h \<and> header_algs_ok h \<and> to_bytes h = take 64 b @ [0, 0]"
proof -
  have l: "length b = 66" using len by (simp add: HEADER_LEN_def)
  note h = ok [unfolded from_bytes_def chunk_size_slice [OF l]]
  have wf: "header_wf h" "header_algs_ok h"
    using h l by (auto simp: res_simps header_wf_def header_algs_ok_def slice_def)
  have five: "take 5 b = [b ! 0, b ! 1, b ! 2, b ! 3, b ! 4]"
    using l by (auto simp: list_eq_iff_nth_eq nth_Cons less_Suc_eq numeral_eq_Suc split: nat.splits)
  have "to_bytes h = take 5 b @ slice 5 8 b @ slice 8 24 b @ slice 24 56 b @ slice 56 60 b @ slice 60 64 b @ [0, 0]"
    using h l unfolding five by (auto simp: res_simps to_bytes_def slice_def)
  also have "\<dots> = take 5 b @ slice 5 64 b @ [0, 0]"
    by (simp add: slice_append flip: append_assoc)
  also have "\<dots> = take 64 b @ [0, 0]"
    using take_add [of 5 59 b] by (simp add: slice_def)
  finally show ?thesis using wf by simp
qed

section \<open>Associated data\<close>

text \<open>\<open>build_aad\<close> copies five fields of fixed width, one after the other, into an array of \<open>AAD_LEN\<close> bytes.\<close>

definition build_aad :: "bytes \<Rightarrow> u64 \<Rightarrow> bytes \<Rightarrow> bytes \<Rightarrow> u32 \<Rightarrow> bytes" where
  "build_aad header_hash seq nonce manifest_hash chunk_len =
     header_hash @ u64_to_be_bytes seq @ nonce @ manifest_hash @ u32_to_be_bytes chunk_len"

section \<open>Stream header and preamble\<close>

record StreamHeader =
  sh_v :: u8
  sh_header :: bytes
  sh_header_hash :: bytes

record FileHeaderV1 =
  version1 :: u8
  alg1 :: u8
  key_id1 :: bytes
  device_id_hash1 :: bytes
  nonce_prefix1 :: bytes
  chunk_size1 :: u32

definition from_bytes_V1 :: "bytes \<Rightarrow> FileHeaderV1" where
  "from_bytes_V1 b = \<lparr> version1 = b ! 0, alg1 = b ! 1, key_id1 = slice 2 18 b,
     device_id_hash1 = slice 18 50 b, nonce_prefix1 = slice 50 54 b,
     chunk_size1 = u32_from_be_bytes [b ! 54, b ! 55, b ! 56, b ! 57] \<rparr>"

text \<open>\<open>StreamHeaderV1\<close> has the fields of \<open>StreamHeader\<close>; only its header bytes are 58 long.\<close>

type_synonym StreamHeaderV1 = StreamHeader

definition migrated_header :: "FileHeaderV1 \<Rightarrow> FileHeader" where
  "migrated_header h = \<lparr> version = 2, aead_alg = alg1 h, sig_alg = sig_u8 Ed25519,
     hash_alg = hash_u8 Blake3, kdf_alg = kdf_u8 Pbkdf2Sha256, reserved = replicate 3 0,
     key_id = key_id1 h, device_id_hash = device_id_hash1 h, nonce_prefix = nonce_prefix1 h,
     chunk_size = chunk_size1 h \<rparr>"

definition migrate_v1_to_v2 :: "'x crates_scheme \<Rightarrow> StreamHeaderV1 \<Rightarrow> anyhow + StreamHeader" where
  "migrate_v1_to_v2 X v1 =
     (if length (sh_header v1) \<noteq> 58
      then Inl [''Invalid V1 header length: '' @ show_nat (length (sh_header v1))]
      else let v2_bytes = to_bytes (migrated_header (from_bytes_V1 (sh_header v1))) in
        Inr \<lparr> sh_v = 2, sh_header = v2_bytes, sh_header_hash = blake3_hash X v2_bytes \<rparr>)"

text \<open>
  bincode is a third-party crate: \<open>bincode_ser\<close> writes a stream header, \<open>bincode_de\<close> reads one from the front of
  the input and leaves the rest, each with the text of its error on the left. The writer is a byte
  vector, whose writes do not fail, and the reader a byte slice.
\<close>

record bincode =
  bincode_ser :: "StreamHeader \<Rightarrow> string + bytes"
  bincode_de :: "bytes \<Rightarrow> string + StreamHeader \<times> bytes"

definition read_exact :: "nat \<Rightarrow> bytes \<Rightarrow> anyhow + bytes \<times> bytes" where
  "read_exact n r = (if length r < n then Inl [''failed to fill whole buffer''] else Inr (take n r, drop n r))"

definition anyhow_of :: "string + 'a \<Rightarrow> anyhow + 'a" where
  "anyhow_of r = map_err (\<lambda>e. [e]) r"

definition write_stream_header :: "bincode \<Rightarrow> bytes \<Rightarrow> StreamHeader \<Rightarrow> bytes \<times> (anyhow + unit)" where
  "write_stream_header B w sh =
     (let w = w @ MAGIC @ [VERSION] in
      case with_context ''write stream header'' (anyhow_of (bincode_ser B sh)) of
        Inl e \<Rightarrow> (w, Inl e)
      | Inr b \<Rightarrow> (w @ b, Inr ()))"

definition read_preamble_and_header ::
  "'x crates_scheme \<Rightarrow> bincode \<Rightarrow> bytes \<Rightarrow> anyhow + StreamHeader \<times> bytes" where
  "read_preamble_and_header X B r =
     res_bind (with_context ''read magic'' (read_exact 4 r)) (\<lambda>(magic, r).
     res_bind (ensure (magic = MAGIC) [''bad magic'']) (\<lambda>_.
     res_bind (with_context ''read version'' (read_exact 1 r)) (\<lambda>(ver, r).
     if ver ! 0 = 1 then
       res_bind (with_context ''read V1 stream header'' (anyhow_of (bincode_de B r))) (\<lambda>(sh_v1, r).
       res_bind (migrate_v1_to_v2 X sh_v1) (\<lambda>sh. Inr (sh, r)))
     else if ver ! 0 = 2 then
       res_bind (with_context ''read V2 stream header'' (anyhow_of (bincode_de B r))) Inr
     else Inl [''Unsupported version: '' @ show_nat (unat (ver ! 0))])))"

text \<open>bincode reads back what it wrote and consumes exactly that.\<close>

definition bincode_ok :: "bincode \<Rightarrow> bool" where
  "bincode_ok B \<longleftrightarrow> (\<forall>sh b r. bincode_ser B sh = Inr b \<longrightarrow> bincode_de B (b @ r) = Inr (sh, r))"

section \<open>Domain-separated signatures\<close>

definition sign_manifest_with_domain :: "'x crates_scheme \<Rightarrow> bytes \<Rightarrow> bytes \<Rightarrow> bytes" where
  "sign_manifest_with_domain X signing_key manifest_bytes =
     ed_sign X signing_key (MANIFEST_DOMAIN_SEP @ manifest_bytes)"

definition verify_manifest_with_domain :: "'x crates_scheme \<Rightarrow> bytes \<Rightarrow> bytes \<Rightarrow> bytes \<Rightarrow> anyhow + unit" where
  "verify_manifest_with_domain X verifying_key manifest_bytes signature =
     map_err (\<lambda>e. [''Domain-separated manifest signature verification failed: '' @ e])
       (ed_verify X verifying_key (MANIFEST_DOMAIN_SEP @ manifest_bytes) signature)"

lemma sign_manifest_verifies:
  "ed_ok X \<Longrightarrow> verify_manifest_with_domain X (ed_public X sk) m (sign_manifest_with_domain X sk m) = Inr ()"
  by (simp add: verify_manifest_with_domain_def sign_manifest_with_domain_def ed_ok_simps)

section \<open>Properties\<close>

text \<open>
  C21: the file header survives encoding. \<open>from_bytes\<close> returns a header exactly as it was given to
  \<open>to_bytes\<close> when its four algorithm identifiers are known ones, and conversely, every header
  \<open>from_bytes\<close> accepts has known identifiers and re-encodes to the first 64 of the 66 bytes it was read
  from, followed by two zero bytes: the last two bytes of the array carry nothing and are not checked.
\<close>

theorem header_codec:
  "(header_wf h \<and> header_algs_ok h \<longrightarrow> length (to_bytes h) = HEADER_LEN \<and> from_bytes (to_bytes h) = Inr h) \<and>
   (length b = HEADER_LEN \<and> from_bytes b = Inr h \<longrightarrow>
      header_wf h \<and> header_algs_ok h \<and> to_bytes h = take 64 b @ [0, 0])"
  using from_bytes_to_bytes [of h] to_bytes_from_bytes [of b h] length_to_bytes [of h] by blast

theorem header_codec_witness:
  "from_bytes (to_bytes new_with_defaults) = Inr new_with_defaults \<and> length (to_bytes new_with_defaults) = 66"
proof -
  have "header_wf new_with_defaults \<and> header_algs_ok new_with_defaults"
    by (simp add: header_wf_def header_algs_ok_def new_with_defaults_def aead_try_from_def sig_try_from_def
        hash_try_from_def kdf_try_from_def)
  then show ?thesis
    using header_codec [of new_with_defaults "[]"] by (simp add: HEADER_LEN_def)
qed

lemma length_build_aad:
  "length hh = 32 \<Longrightarrow> length nn = NONCE_LEN \<Longrightarrow> length mh = 32 \<Longrightarrow> length (build_aad hh q nn mh c) = AAD_LEN"
  by (simp add: build_aad_def AAD_LEN_def)

text \<open>
  The associated data binds all five fields. It is \<open>AAD_LEN\<close> (88) bytes long, and two calls with
  fields of the fixed widths give the same bytes only for the same header hash, sequence number,
  nonce, manifest hash and chunk length.
\<close>

lemma build_aad_binds:
  assumes "length hh = 32" "length hh' = 32" "length nn = NONCE_LEN" "length nn' = NONCE_LEN"
    and "length mh = 32" "length mh' = 32"
  shows "length (build_aad hh q nn mh c) = AAD_LEN \<and>
    (build_aad hh q nn mh c = build_aad hh' q' nn' mh' c' \<longleftrightarrow>
      hh = hh' \<and> q = q' \<and> nn = nn' \<and> mh = mh' \<and> c = c')"
  using assms by (auto simp: length_build_aad) (auto simp: build_aad_def)

lemma build_aad_binds_witness:
  "build_aad (replicate 32 0) 1 (replicate 12 0) (replicate 32 0) 7 \<noteq>
   build_aad (replicate 32 0) 1 (replicate 12 0) (replicate 32 0) 8"
  using build_aad_binds [of "replicate 32 0" "replicate 32 0" "replicate 12 0" "replicate 12 0"
      "replicate 32 0" "replicate 32 0" 1 7 1 8]
  by (simp add: NONCE_LEN_def)

lemma migrated_header_wf: "length b = 58 \<Longrightarrow> header_wf (migrated_header (from_bytes_V1 b))"
  by (simp add: header_wf_def migrated_header_def from_bytes_V1_def slice_def)

lemma alg1_from_bytes_V1 [simp]: "alg1 (from_bytes_V1 b) = b ! 1"
  by (simp add: from_bytes_V1_def)

lemma migrated_header_algs:
  "header_algs_ok (migrated_header h) \<longleftrightarrow> is_ok (aead_try_from (alg1 h))"
  by (simp add: header_algs_ok_def migrated_header_def sig_try_from_def hash_try_from_def kdf_try_from_def)

lemma migrate_v1_to_v2_ok_iff:
  "migrate_v1_to_v2 X v1 = Inr sh \<longleftrightarrow> length (sh_header v1) = 58 \<and>
     sh = \<lparr> sh_v = 2, sh_header = to_bytes (migrated_header (from_bytes_V1 (sh_header v1))),
       sh_header_hash = blake3_hash X (to_bytes (migrated_header (from_bytes_V1 (sh_header v1)))) \<rparr>"
  by (auto simp: migrate_v1_to_v2_def Let_def)

lemma read_preamble_cases:
  "read_preamble_and_header X B (MAGIC @ [ver] @ r) =
     (if ver = 1 then
        res_bind (with_context ''read V1 stream header'' (anyhow_of (bincode_de B r))) (\<lambda>(sh_v1, r).
        res_bind (migrate_v1_to_v2 X sh_v1) (\<lambda>sh. Inr (sh, r)))
      else if ver = 2 then with_context ''read V2 stream header'' (anyhow_of (bincode_de B r))
      else Inl [''Unsupported version: '' @ show_nat (unat ver)])"
proof -
  have "length MAGIC = 4" by (simp add: MAGIC_def)
  then show ?thesis
    by (simp add: read_preamble_and_header_def read_exact_def res_bind_def split: sum.splits)
qed

text \<open>
  A stream header can be read back. What \<open>write_stream_header\<close> appends to a vector, followed by
  anything, \<open>read_preamble_and_header\<close> reads as that header and leaves the rest; and a version 1
  preamble is read as the migrated header: its bytes decode to the old fields with Ed25519, BLAKE3 and
  PBKDF2 filled in (when the old AEAD identifier is a known one), under the BLAKE3 hash of those bytes.
\<close>

lemma stream_header_roundtrip:
  assumes "bincode_ok B" "bincode_ser B sh = Inr b"
  shows "write_stream_header B w sh = (w @ MAGIC @ [2] @ b, Inr ()) \<and>
    read_preamble_and_header X B (MAGIC @ [2] @ b @ r) = Inr (sh, r) \<and>
    (length (sh_header sh) = 58 \<longrightarrow>
       (\<exists>sh'. read_preamble_and_header X B (MAGIC @ [1] @ b @ r) = Inr (sh', r) \<and>
          sh_header_hash sh' = blake3_hash X (sh_header sh') \<and>
          length (sh_header sh') = HEADER_LEN \<and>
          (is_ok (aead_try_from (sh_header sh ! 1)) \<longrightarrow>
             from_bytes (sh_header sh') = Inr (migrated_header (from_bytes_V1 (sh_header sh))))))"
proof -
  have de: "bincode_de B (b @ r) = Inr (sh, r)" using assms by (simp add: bincode_ok_def)
  have v1: "from_bytes (to_bytes (migrated_header (from_bytes_V1 (sh_header sh)))) =
      Inr (migrated_header (from_bytes_V1 (sh_header sh)))"
    if "length (sh_header sh) = 58" "is_ok (aead_try_from (sh_header sh ! 1))"
    using that by (intro from_bytes_to_bytes) (simp_all add: migrated_header_wf migrated_header_algs)
  show ?thesis
    unfolding read_preamble_cases de
    using v1 by (auto simp: write_stream_header_def VERSION_def assms(2) anyhow_of_def migrate_v1_to_v2_ok_iff
        res_simps length_to_bytes migrated_header_wf)
qed

text \<open>A toy serialisation for header bytes of length below 256, for the witness.\<close>

definition sample_bincode :: bincode where
  "sample_bincode = \<lparr>
     bincode_ser = (\<lambda>sh. if length (sh_header sh) < 256 \<and> length (sh_header_hash sh) = 32
       then Inr (sh_v sh # word_of_nat (length (sh_header sh)) # sh_header sh @ sh_header_hash sh)
       else Inl ''size limit''),
     bincode_de = (\<lambda>b. case b of
         vv # n # r \<Rightarrow> Inr (\<lparr> sh_v = vv, sh_header = take (unat n) r,
           sh_header_hash = take 32 (drop (unat n) r) \<rparr>, drop 32 (drop (unat n) r))
       | _ \<Rightarrow> Inl ''io error'') \<rparr>"

lemma sample_bincode_ok: "bincode_ok sample_bincode"
  by (auto simp: bincode_ok_def sample_bincode_def unat_of_nat take_bit_nat_eq_self split: if_splits)

lemma sample_bincode_ser:
  "bincode_ser sample_bincode \<lparr> sh_v = 2, sh_header = [], sh_header_hash = replicate 32 9 \<rparr> = Inr (2 # 0 # replicate 32 9)"
  by (simp add: sample_bincode_def)

lemma stream_header_roundtrip_witness:
  "read_preamble_and_header sample_crates sample_bincode
     (MAGIC @ [2] @ (2 # 0 # replicate 32 9) @ [5]) =
   Inr (\<lparr> sh_v = 2, sh_header = [], sh_header_hash = replicate 32 9 \<rparr>, [5])"
  using stream_header_roundtrip [OF sample_bincode_ok sample_bincode_ser, of "[]" sample_crates "[5]"]
  by blast

end
