(* ===== verification/Crypto.thy ===== *)
theory Crypto
  imports Crates Utf8
begin

text \<open>
  Device keys, segment encryption and manifest signatures of \<^verbatim>\<open>crates/core/src/crypto.rs\<close>. Random
  values the code draws from the operating system (key, salt, nonce) are arguments. The passphrase-encrypted key
  file is \<^verbatim>\<open>SEALEDGE-KEY-V1\<close>, a line of JSON and the ciphertext; the JSON
  line is printed and parsed by serde_json, which the record \<open>key_meta\<close> stands for.
\<close>

section \<open>Errors and constants\<close>

datatype CryptoError =
    InvalidKeyFormat string
  | InvalidSignatureFormat string
  | EncryptionFailed string
  | DecryptionFailed string
  | SignatureVerificationFailed
  | KeyGenerationFailed string
  | InvalidNonceFormat string

definition ENCRYPTED_KEY_HEADER :: string where "ENCRYPTED_KEY_HEADER = ''SEALEDGE-KEY-V1''"
definition PBKDF2_MIN_ITERATIONS :: u32 where "PBKDF2_MIN_ITERATIONS = 600000"
definition PBKDF2_MAX_ITERATIONS :: u32 where "PBKDF2_MAX_ITERATIONS = 10000000"

text \<open>A base64 payload, with the error the caller makes of the decoder's message.\<close>

definition decode_b64 :: "'x crates_scheme \<Rightarrow> (string \<Rightarrow> 'e) \<Rightarrow> string \<Rightarrow> 'e + bytes" where
  "decode_b64 X err s = map_err err (b64_decode X s)"

section \<open>Device keys\<close>

record DeviceKeypair =
  kp_public :: string
  kp_secret :: bytes

definition keypair_of :: "'x crates_scheme \<Rightarrow> bytes \<Rightarrow> DeviceKeypair" where
  "keypair_of X secret = \<lparr> kp_public = ''ed25519:'' @ b64_encode X (ed_public X secret), kp_secret = secret \<rparr>"

definition generate :: "'x crates_scheme \<Rightarrow> bytes \<Rightarrow> DeviceKeypair" where
  "generate X random = keypair_of X random"

definition export_secret :: "'x crates_scheme \<Rightarrow> DeviceKeypair \<Rightarrow> string" where
  "export_secret X kp = ''ed25519:'' @ b64_encode X (kp_secret kp)"

definition import_secret :: "'x crates_scheme \<Rightarrow> string \<Rightarrow> CryptoError + DeviceKeypair" where
  "import_secret X secret_str =
     res_bind
       (case strip_prefix ''ed25519:'' secret_str of
          Some b64_part \<Rightarrow> decode_b64 X (\<lambda>e. InvalidKeyFormat (''Invalid base64: '' @ e)) b64_part
        | None \<Rightarrow>
            if length secret_str = 64
            then map_err (\<lambda>e. InvalidKeyFormat (''Invalid hex: '' @ e)) (hex_decode X secret_str)
            else Inl (InvalidKeyFormat ''Must be ed25519:BASE64 or 64-char hex''))
       (\<lambda>secret_bytes.
          if length secret_bytes \<noteq> 32 then Inl (InvalidKeyFormat ''Secret key must be 32 bytes'')
          else Inr (keypair_of X secret_bytes))"

definition from_public :: "'x crates_scheme \<Rightarrow> string \<Rightarrow> CryptoError + bytes" where
  "from_public X public_str =
     (if \<not> starts_with ''ed25519:'' public_str
      then Inl (InvalidKeyFormat (''Public key must start with '' @ [CHR 0x27] @ ''ed25519:'' @ [CHR 0x27]))
      else res_bind (decode_b64 X (\<lambda>e. InvalidKeyFormat (''Invalid base64: '' @ e)) (drop 8 public_str)) (\<lambda>pub_bytes.
        if length pub_bytes \<noteq> 32 then Inl (InvalidKeyFormat ''Public key must be 32 bytes'')
        else map_err (\<lambda>e. InvalidKeyFormat (''Invalid public key: '' @ e)) (ed_key X pub_bytes)))"

section \<open>Encrypted key files\<close>

text \<open>
  serde_json on the metadata line: printing the object with the four members, and parsing a line into what
  \<^verbatim>\<open>meta["salt"].as_str()\<close>, \<^verbatim>\<open>meta["nonce"].as_str()\<close> and \<^verbatim>\<open>meta["iterations"].as_u64()\<close> answer.
\<close>

record key_meta =
  meta_print :: "string \<Rightarrow> string \<Rightarrow> u32 \<Rightarrow> string"
  meta_parse :: "string \<Rightarrow> string + (string option \<times> string option \<times> u64 option)"

text \<open>Compact JSON has no raw newline, is UTF-8, and parses back to the members it was printed from.\<close>

definition key_meta_ok :: "key_meta \<Rightarrow> bool" where
  "key_meta_ok J \<longleftrightarrow>
    (\<forall>s n i. meta_parse J (meta_print J s n i) = Inr (Some s, Some n, Some (ucast i))) \<and>
    (\<forall>s n i. 10 \<notin> set (str_bytes (meta_print J s n i)) \<and> utf8_valid (str_bytes (meta_print J s n i)))"

definition split_line :: "bytes \<Rightarrow> (bytes \<times> bytes) option" where
  "split_line d = (if 10 \<in> set d then Some (takeWhile (\<lambda>b. b \<noteq> 10) d, tl (dropWhile (\<lambda>b. b \<noteq> 10) d)) else None)"

definition from_utf8 :: "bytes \<Rightarrow> string option" where
  "from_utf8 b = (if utf8_valid b then Some (bytes_str b) else None)"

definition export_secret_encrypted ::
  "'x crates_scheme \<Rightarrow> key_meta \<Rightarrow> bytes \<Rightarrow> bytes \<Rightarrow> DeviceKeypair \<Rightarrow> string \<Rightarrow> CryptoError + bytes" where
  "export_secret_encrypted X J salt nonce_bytes kp passphrase =
     (let iterations = PBKDF2_MIN_ITERATIONS;
          derived_key = pbkdf2 X (str_bytes passphrase) salt iterations
      in res_bind (map_err (\<lambda>e. EncryptionFailed (''AES-GCM encrypt: '' @ e))
           (aes_seal X derived_key nonce_bytes (kp_secret kp) [])) (\<lambda>ciphertext.
         Inr (str_bytes ENCRYPTED_KEY_HEADER @ [10] @
           str_bytes (meta_print J (b64_encode X salt) (b64_encode X nonce_bytes) iterations) @ [10] @ ciphertext)))"

text \<open>The iteration count is checked as a 64-bit number before it is narrowed.\<close>

definition check_iterations :: "u64 \<Rightarrow> CryptoError + u32" where
  "check_iterations n =
     (if n < ucast PBKDF2_MIN_ITERATIONS
      then Inl (InvalidKeyFormat (''Key file uses '' @ show_nat (unat n) @ '' PBKDF2 iterations, minimum is '' @
        show_nat (unat PBKDF2_MIN_ITERATIONS)))
      else if n > ucast PBKDF2_MAX_ITERATIONS
      then Inl (InvalidKeyFormat (''Key file uses '' @ show_nat (unat n) @ '' PBKDF2 iterations, maximum is '' @
        show_nat (unat PBKDF2_MAX_ITERATIONS)))
      else if 2 ^ 32 \<le> unat n then Inl (InvalidKeyFormat ''iterations value out of range'')
      else Inr (ucast n))"

definition import_secret_encrypted ::
  "'x crates_scheme \<Rightarrow> key_meta \<Rightarrow> bytes \<Rightarrow> string \<Rightarrow> CryptoError + DeviceKeypair" where
  "import_secret_encrypted X J data passphrase =
     res_bind (ok_or (InvalidKeyFormat ''Missing header line'') (split_line data)) (\<lambda>(header_bytes, rest).
     res_bind (ok_or (InvalidKeyFormat ''Invalid UTF-8 header'') (from_utf8 header_bytes)) (\<lambda>hdr.
     if hdr \<noteq> ENCRYPTED_KEY_HEADER
     then Inl (InvalidKeyFormat (''Expected header '' @ [CHR 0x27] @ ENCRYPTED_KEY_HEADER @ [CHR 0x27] @ '', got '' @
       [CHR 0x27] @ hdr @ [CHR 0x27]))
     else
     res_bind (ok_or (InvalidKeyFormat ''Missing metadata line'') (split_line rest)) (\<lambda>(meta_bytes, ciphertext).
     res_bind (ok_or (InvalidKeyFormat ''Invalid UTF-8 metadata'') (from_utf8 meta_bytes)) (\<lambda>meta_str.
     res_bind (map_err (\<lambda>e. InvalidKeyFormat (''Invalid JSON metadata: '' @ e)) (meta_parse J meta_str))
       (\<lambda>(salt_str, nonce_str, iterations_u64).
     res_bind (ok_or (InvalidKeyFormat ''Missing salt'') salt_str) (\<lambda>salt_b64.
     res_bind (decode_b64 X (\<lambda>e. InvalidKeyFormat (''Invalid salt base64: '' @ e)) salt_b64) (\<lambda>salt.
     res_bind (ok_or (InvalidKeyFormat ''Missing nonce'') nonce_str) (\<lambda>nonce_b64.
     res_bind (decode_b64 X (\<lambda>e. InvalidKeyFormat (''Invalid nonce base64: '' @ e)) nonce_b64) (\<lambda>nonce_bytes.
     res_bind (ok_or (InvalidKeyFormat ''Missing iterations'') iterations_u64) (\<lambda>n.
     res_bind (check_iterations n) (\<lambda>iterations.
     if length nonce_bytes \<noteq> 12 then Inl (InvalidKeyFormat ''Nonce must be 12 bytes'')
     else
     let derived_key = pbkdf2 X (str_bytes passphrase) salt iterations in
     res_bind (map_err (\<lambda>_. DecryptionFailed ''Wrong passphrase or corrupted key file'')
       (aes_open X derived_key nonce_bytes ciphertext [])) (\<lambda>plaintext.
     if length plaintext \<noteq> 32 then Inl (InvalidKeyFormat ''Decrypted key must be 32 bytes'')
     else Inr (keypair_of X plaintext)))))))))))))"

definition is_encrypted_key_file :: "bytes \<Rightarrow> bool" where
  "is_encrypted_key_file d \<longleftrightarrow> take 16 d = str_bytes ENCRYPTED_KEY_HEADER @ [10]"

section \<open>Segments\<close>

definition derive_chunk_key :: "'x crates_scheme \<Rightarrow> bytes \<Rightarrow> bytes" where
  "derive_chunk_key X device_secret = hkdf X None device_secret (str_bytes ''SEALEDGE_SEAL_CHUNK_KEY'') 32"

definition format_nonce :: "'x crates_scheme \<Rightarrow> bytes \<Rightarrow> string" where
  "format_nonce X nonce = ''xchacha20:'' @ b64_encode X nonce"

definition parse_nonce :: "'x crates_scheme \<Rightarrow> string \<Rightarrow> CryptoError + bytes" where
  "parse_nonce X nonce_str =
     (if \<not> starts_with ''xchacha20:'' nonce_str
      then Inl (InvalidNonceFormat (''Nonce must start with '' @ [CHR 0x27] @ ''xchacha20:'' @ [CHR 0x27]))
      else res_bind (decode_b64 X (\<lambda>e. InvalidNonceFormat (''Invalid base64: '' @ e)) (drop 10 nonce_str)) (\<lambda>nonce_bytes.
        if length nonce_bytes \<noteq> 24 then Inl (InvalidNonceFormat ''Nonce must be 24 bytes'')
        else Inr nonce_bytes))"

definition encrypt_segment :: "'x crates_scheme \<Rightarrow> bytes \<Rightarrow> bytes \<Rightarrow> bytes \<Rightarrow> bytes \<Rightarrow> CryptoError + bytes" where
  "encrypt_segment X key nonce24 plaintext aad =
     map_err (\<lambda>e. EncryptionFailed (''XChaCha20Poly1305 encryption failed: '' @ e))
       (xchacha_seal X key nonce24 plaintext aad)"

definition decrypt_segment :: "'x crates_scheme \<Rightarrow> bytes \<Rightarrow> bytes \<Rightarrow> bytes \<Rightarrow> bytes \<Rightarrow> CryptoError + bytes" where
  "decrypt_segment X key nonce24 ciphertext aad =
     map_err (\<lambda>e. DecryptionFailed (''XChaCha20Poly1305 decryption failed: '' @ e))
       (xchacha_open X key nonce24 ciphertext aad)"

definition generate_aad :: "'x crates_scheme \<Rightarrow> string \<Rightarrow> string \<Rightarrow> string \<Rightarrow> string \<Rightarrow> bytes" where
  "generate_aad X trst_version profile device_id started_at =
     str_bytes (json_object X [(''trst_version'', trst_version), (''profile'', profile),
       (''device.id'', device_id), (''capture.started_at'', started_at)])"

section \<open>Manifest signatures\<close>

definition sign_manifest :: "'x crates_scheme \<Rightarrow> DeviceKeypair \<Rightarrow> bytes \<Rightarrow> CryptoError + string" where
  "sign_manifest X kp canonical_bytes =
     Inr (''ed25519:'' @ b64_encode X (ed_sign X (kp_secret kp) canonical_bytes))"

definition verify_manifest_ecdsa_p256 :: "'x crates_scheme \<Rightarrow> string \<Rightarrow> bytes \<Rightarrow> string \<Rightarrow> CryptoError + bool" where
  "verify_manifest_ecdsa_p256 X device_public canonical_bytes signature_str =
     res_bind (ok_or (InvalidKeyFormat (''ECDSA P-256 public key must start with '' @ [CHR 0x27] @ ''ecdsa-p256:'' @ [CHR 0x27]))
       (strip_prefix ''ecdsa-p256:'' device_public)) (\<lambda>pub_b64.
     res_bind (decode_b64 X (\<lambda>e. InvalidKeyFormat (''Invalid base64 in public key: '' @ e)) pub_b64) (\<lambda>pub_bytes.
     res_bind (map_err (\<lambda>e. InvalidKeyFormat (''Invalid P-256 public key: '' @ e)) (p256_key X pub_bytes)) (\<lambda>verifying_key.
     res_bind (ok_or (InvalidSignatureFormat (''ECDSA P-256 signature must start with '' @ [CHR 0x27] @ ''ecdsa-p256:'' @ [CHR 0x27]))
       (strip_prefix ''ecdsa-p256:'' signature_str)) (\<lambda>sig_b64.
     res_bind (decode_b64 X (\<lambda>e. InvalidSignatureFormat (''Invalid base64 in signature: '' @ e)) sig_b64) (\<lambda>sig_bytes.
     res_bind (map_err (\<lambda>e. InvalidSignatureFormat (''Invalid P-256 DER signature: '' @ e)) (p256_der X sig_bytes)) (\<lambda>sig.
     Inr (is_ok (p256_verify X verifying_key canonical_bytes sig))))))))"

definition verify_manifest :: "'x crates_scheme \<Rightarrow> string \<Rightarrow> bytes \<Rightarrow> string \<Rightarrow> CryptoError + bool" where
  "verify_manifest X device_public canonical_bytes signature_str =
     (case strip_prefix ''ed25519:'' signature_str of
        Some b64_part \<Rightarrow>
          res_bind (from_public X device_public) (\<lambda>verifying_key.
          res_bind (decode_b64 X (\<lambda>e. InvalidSignatureFormat (''Invalid base64: '' @ e)) b64_part) (\<lambda>sig_bytes.
          if length sig_bytes \<noteq> 64 then Inl (InvalidSignatureFormat ''Ed25519 signature must be 64 bytes'')
          else Inr (is_ok (ed_verify X verifying_key canonical_bytes sig_bytes))))
      | None \<Rightarrow>
          if starts_with ''ecdsa-p256:'' signature_str
          then verify_manifest_ecdsa_p256 X device_public canonical_bytes signature_str
          else Inl (InvalidSignatureFormat ''Unsupported signature algorithm. Expected ed25519: or ecdsa-p256: prefix''))"

section \<open>Lemmas\<close>

lemma split_line_append: "10 \<notin> set a \<Longrightarrow> split_line (a @ 10 # r) = Some (a, r)"
proof -
  assume "10 \<notin> set a"
  then have "\<forall>b \<in> set a. b \<noteq> 10" by auto
  then show ?thesis by (simp add: split_line_def takeWhile_append2 dropWhile_append2)
qed

lemma split_line_Some:
  assumes "split_line d = Some (a, r)"
  shows "d = a @ [10] @ r"
proof -
  from assms have a: "a = takeWhile (\<lambda>b. b \<noteq> 10) d" and r: "r = tl (dropWhile (\<lambda>b. b \<noteq> 10) d)" and "10 \<in> set d"
    by (auto simp: split_line_def split: if_splits)
  then have ne: "dropWhile (\<lambda>b. b \<noteq> 10) d \<noteq> []" by auto
  from hd_dropWhile [OF ne] ne have "dropWhile (\<lambda>b. b \<noteq> 10) d = 10 # r"
    unfolding r by (cases "dropWhile (\<lambda>b. b \<noteq> 10) d") auto
  with takeWhile_dropWhile_id [of "\<lambda>b. b \<noteq> 10" d] show ?thesis unfolding a by simp
qed

lemma header_line: "10 \<notin> set (str_bytes ENCRYPTED_KEY_HEADER)" "from_utf8 (str_bytes ENCRYPTED_KEY_HEADER) = Some ENCRYPTED_KEY_HEADER"
proof -
  have "ascii ENCRYPTED_KEY_HEADER" by (simp add: ascii_def ENCRYPTED_KEY_HEADER_def)
  then show "from_utf8 (str_bytes ENCRYPTED_KEY_HEADER) = Some ENCRYPTED_KEY_HEADER"
    by (simp add: from_utf8_def utf8_valid_str)
qed (simp add: ENCRYPTED_KEY_HEADER_def str_bytes_def)

lemma check_iterations_iff:
  "check_iterations n = Inr i \<longleftrightarrow> 600000 \<le> unat n \<and> unat n \<le> 10000000 \<and> i = ucast n"
  by (auto simp: check_iterations_def PBKDF2_MIN_ITERATIONS_def PBKDF2_MAX_ITERATIONS_def word_less_nat_alt)

lemma from_public_keypair: "ed_ok X \<Longrightarrow> b64_ok X \<Longrightarrow> from_public X (kp_public (keypair_of X sk)) = Inr (ed_public X sk)"
  by (simp add: from_public_def keypair_of_def starts_with_def decode_b64_def b64_ok_simp ed_ok_simps)

lemma from_public_iff:
  "from_public X p = Inr k \<longleftrightarrow> (\<exists>s b. p = ''ed25519:'' @ s \<and> b64_decode X s = Inr b \<and> length b = 32 \<and> ed_key X b = Inr k)"
proof -
  have "starts_with ''ed25519:'' p \<longleftrightarrow> p = ''ed25519:'' @ drop 8 p"
    by (auto simp: starts_with_iff)
  then show ?thesis
    by (auto simp: from_public_def decode_b64_def res_simps split: if_splits)
qed

lemma p256_iff:
  "verify_manifest_ecdsa_p256 X p m s = Inr True \<longleftrightarrow>
     (\<exists>a b k c d g. p = ''ecdsa-p256:'' @ a \<and> b64_decode X a = Inr b \<and> p256_key X b = Inr k \<and>
        s = ''ecdsa-p256:'' @ c \<and> b64_decode X c = Inr d \<and> p256_der X d = Inr g \<and> p256_verify X k m g = Inr ())"
  by (auto simp: verify_manifest_ecdsa_p256_def decode_b64_def res_simps strip_prefix_Some_iff)

lemma ed25519_not_p256: "''ecdsa-p256:'' @ c \<noteq> ''ed25519:'' @ d"
  by simp

lemma encrypted_export_parts:
  assumes "key_meta_ok J"
  shows "split_line (str_bytes ENCRYPTED_KEY_HEADER @ [10] @ str_bytes (meta_print J s n i) @ [10] @ c) =
      Some (str_bytes ENCRYPTED_KEY_HEADER, str_bytes (meta_print J s n i) @ [10] @ c)"
    and "split_line (str_bytes (meta_print J s n i) @ [10] @ c) = Some (str_bytes (meta_print J s n i), c)"
    and "from_utf8 (str_bytes (meta_print J s n i)) = Some (meta_print J s n i)"
    and "meta_parse J (meta_print J s n i) = Inr (Some s, Some n, Some (ucast i))"
  using assms split_line_append [of "str_bytes (meta_print J s n i)" c]
    split_line_append [OF header_line(1), of "str_bytes (meta_print J s n i) @ [10] @ c"]
  by (simp_all add: key_meta_ok_def from_utf8_def)

section \<open>Properties\<close>

text \<open>
  Keys survive export. A device key exported in plain is imported as the same key pair, and one
  exported under a passphrase is imported under that passphrase as the same key pair (for a 12-byte
  nonce), the file being recognised by \<open>is_encrypted_key_file\<close>.
\<close>

lemma key_export_roundtrip:
  assumes "b64_ok X" "aead_ok (aes_seal X) (aes_open X)" "key_meta_ok J"
    and "length secret = 32" "length nonce = 12" "kp = keypair_of X secret"
  shows "import_secret X (export_secret X kp) = Inr kp \<and>
    (\<forall>file. export_secret_encrypted X J salt nonce kp pass = Inr file \<longrightarrow>
       is_encrypted_key_file file \<and> import_secret_encrypted X J file pass = Inr kp)"
proof -
  have 1: "import_secret X (export_secret X kp) = Inr kp"
    using assms(1,4) by (simp add: assms(6) import_secret_def export_secret_def keypair_of_def strip_prefix_def
        starts_with_def decode_b64_def b64_ok_simp)
  have it: "check_iterations (ucast PBKDF2_MIN_ITERATIONS) = Inr PBKDF2_MIN_ITERATIONS"
    by (simp add: check_iterations_iff PBKDF2_MIN_ITERATIONS_def)
  note parts = encrypted_export_parts [OF assms(3), of "b64_encode X salt" "b64_encode X nonce" PBKDF2_MIN_ITERATIONS]
  have 2: "is_encrypted_key_file kf \<and> import_secret_encrypted X J kf pass = Inr kp"
    if exp: "export_secret_encrypted X J salt nonce kp pass = Inr kf" for kf
  proof -
    from exp obtain c where c: "aes_seal X (pbkdf2 X (str_bytes pass) salt PBKDF2_MIN_ITERATIONS) nonce secret [] = Inr c"
      and kf: "kf = str_bytes ENCRYPTED_KEY_HEADER @ [10] @
        str_bytes (meta_print J (b64_encode X salt) (b64_encode X nonce) PBKDF2_MIN_ITERATIONS) @ [10] @ c"
      by (auto simp: export_secret_encrypted_def Let_def res_simps assms(6) keypair_of_def)
    have "is_encrypted_key_file kf"
      unfolding is_encrypted_key_file_def kf by (simp add: ENCRYPTED_KEY_HEADER_def)
    moreover have "import_secret_encrypted X J kf pass = Inr kp"
      unfolding import_secret_encrypted_def kf
      by (simp add: parts header_line decode_b64_def b64_ok_simp [OF assms(1)] it
          aead_ok_open [OF assms(2) c] assms(4-6) del: append.simps append_Cons)
    ultimately show ?thesis ..
  qed
  show ?thesis using 1 2 by blast
qed

text \<open>A concrete metadata line for the witnesses: three fields separated by colons.\<close>

definition sample_meta_parse :: "string \<Rightarrow> string + (string option \<times> string option \<times> u64 option)" where
  "sample_meta_parse t =
     (let a = takeWhile (\<lambda>c. c \<noteq> CHR '':'') t; r = tl (dropWhile (\<lambda>c. c \<noteq> CHR '':'') t);
          b = takeWhile (\<lambda>c. c \<noteq> CHR '':'') r; n = tl (dropWhile (\<lambda>c. c \<noteq> CHR '':'') r)
      in res_bind (sample_unhex a) (\<lambda>x. res_bind (sample_unhex b) (\<lambda>y.
           Inr (Some (bytes_str x), Some (bytes_str y), Some (word_of_nat (read_nat n))))))"

definition sample_key_meta :: key_meta where
  "sample_key_meta = \<lparr>
     meta_print = (\<lambda>s n i. sample_hex (str_bytes s) @ '':'' @ sample_hex (str_bytes n) @ '':'' @ show_nat (unat i)),
     meta_parse = sample_meta_parse \<rparr>"

definition plain_char :: "char \<Rightarrow> bool" where
  "plain_char c \<longleftrightarrow> 48 \<le> (of_char c :: nat) \<and> (of_char c :: nat) < 128 \<and> c \<noteq> CHR '':''"

lemma plain_hex: "list_all plain_char (sample_hex b)"
proof (induction b)
  case (Cons w b)
  have "unat w div 16 < 16" by (simp add: less_mult_imp_div_less)
  moreover have "plain_char (hex_digit d)" if "d < 16" for d
    using that by (auto simp: plain_char_def hex_digit_def simp flip: of_char_eq_iff [where ?'a = nat])
  ultimately show ?case using Cons by simp
qed simp

lemma plain_show_nat: "list_all plain_char (show_nat n)"
proof -
  have "plain_char c" if "is_digit c" for c
    using that by (auto simp: is_digit_def plain_char_def)
  then show ?thesis by (auto simp: list_all_iff dest: show_nat_digits)
qed

lemma plain_split:
  "list_all plain_char s \<Longrightarrow> takeWhile (\<lambda>c. c \<noteq> CHR '':'') (s @ CHR '':'' # r) = s"
  "list_all plain_char s \<Longrightarrow> dropWhile (\<lambda>c. c \<noteq> CHR '':'') (s @ CHR '':'' # r) = CHR '':'' # r"
  by (induction s) (auto simp: plain_char_def)

text \<open>Any number of text fields, each in hexadecimal and ended by a colon, for the sample JSON codecs.\<close>

definition sample_join :: "string list \<Rightarrow> string" where
  "sample_join fs = concat (map (\<lambda>f. sample_hex (str_bytes f) @ '':'') fs)"

fun sample_split :: "nat \<Rightarrow> string \<Rightarrow> string list" where
  "sample_split 0 t = []"
| "sample_split (Suc n) t =
     (case sample_unhex (takeWhile (\<lambda>c. c \<noteq> CHR '':'') t) of Inl _ \<Rightarrow> [] | Inr b \<Rightarrow> bytes_str b) #
     sample_split n (tl (dropWhile (\<lambda>c. c \<noteq> CHR '':'') t))"

lemma sample_split_join: "n = length fs \<Longrightarrow> sample_split n (sample_join fs) = fs"
  by (induction fs arbitrary: n) (simp_all add: sample_join_def plain_split [OF plain_hex] sample_unhex_hex)

lemma plain_text: "list_all plain_char s \<Longrightarrow> ascii s" "list_all plain_char s \<Longrightarrow> 10 \<notin> set (str_bytes s)"
proof -
  show "10 \<notin> set (str_bytes s)" if "list_all plain_char s"
  proof
    assume "10 \<in> set (str_bytes s)"
    then obtain c where c: "c \<in> set s" "(10 :: u8) = word_of_nat (of_char c)"
      unfolding str_bytes_def set_map by blast
    have "unat (10 :: u8) = of_char c" using arg_cong [OF c(2), of unat] by (simp only: unat_of_char)
    moreover have "unat (10 :: u8) = 10" by simp
    moreover have "48 \<le> (of_char c :: nat)"
      using that c(1) unfolding list_all_iff plain_char_def by blast
    ultimately show False by linarith
  qed
qed (auto simp: ascii_def list_all_iff plain_char_def)

lemma sample_meta_parse_print: "meta_parse sample_key_meta (meta_print sample_key_meta s n i) = Inr (Some s, Some n, Some (ucast i))"
  by (simp add: sample_key_meta_def sample_meta_parse_def plain_split [OF plain_hex] sample_unhex_hex)

lemma ascii_append: "ascii (a @ b) \<longleftrightarrow> ascii a \<and> ascii b"
  by (simp add: ascii_def)

lemma sample_meta_print_text:
  "ascii (meta_print sample_key_meta s n i)" "10 \<notin> set (str_bytes (meta_print sample_key_meta s n i))"
proof -
  have colon: "ascii '':''" "10 \<notin> set (str_bytes '':'')" by (simp_all add: ascii_def str_bytes_def)
  have m: "meta_print sample_key_meta s n i =
      sample_hex (str_bytes s) @ '':'' @ sample_hex (str_bytes n) @ '':'' @ show_nat (unat i)"
    by (simp add: sample_key_meta_def)
  show "ascii (meta_print sample_key_meta s n i)"
    unfolding m ascii_append using colon plain_text(1) [OF plain_hex] plain_text(1) [OF plain_show_nat] by blast
  show "10 \<notin> set (str_bytes (meta_print sample_key_meta s n i))"
    unfolding m str_bytes_append set_append Un_iff
    using colon plain_text(2) [OF plain_hex] plain_text(2) [OF plain_show_nat] by blast
qed

lemma sample_key_meta_ok: "key_meta_ok sample_key_meta"
  by (simp add: key_meta_ok_def sample_meta_parse_print sample_meta_print_text utf8_valid_str)

lemma key_export_roundtrip_witness:
  "import_secret sample_crates (export_secret sample_crates (keypair_of sample_crates (replicate 32 7))) =
     Inr (keypair_of sample_crates (replicate 32 7)) \<and>
   (\<exists>f. export_secret_encrypted sample_crates sample_key_meta [1] (replicate 12 3)
        (keypair_of sample_crates (replicate 32 7)) ''pw'' = Inr f \<and>
      import_secret_encrypted sample_crates sample_key_meta f ''pw'' = Inr (keypair_of sample_crates (replicate 32 7)))"
proof -
  have "aead_ok (aes_seal sample_crates) (aes_open sample_crates)" by (simp add: sample_aead_ok)
  note r = key_export_roundtrip [OF sample_b64_ok this sample_key_meta_ok, of "replicate 32 7" "replicate 12 3"
      "keypair_of sample_crates (replicate 32 7)" "[1]" "''pw''"]
  have "\<exists>f. export_secret_encrypted sample_crates sample_key_meta [1] (replicate 12 3)
        (keypair_of sample_crates (replicate 32 7)) ''pw'' = Inr f"
    by (simp add: export_secret_encrypted_def Let_def sample_seal_def)
  with r show ?thesis by simp blast
qed

text \<open>
  Key files with a weak or absurd iteration count are refused. Whenever
  \<open>import_secret_encrypted\<close> returns a key, the count in the metadata line was between 600 000 and
  10 000 000 (the 64-bit number, before narrowing), the nonce had 12 bytes, the AEAD opened the ciphertext under the
  derived key, and the key pair is the one of the 32 decrypted bytes.
\<close>

lemma import_encrypted_checks:
  assumes "import_secret_encrypted X J d pass = Inr kp"
  shows "\<exists>m c s n salt nonce i secret.
     d = str_bytes ENCRYPTED_KEY_HEADER @ [10] @ m @ [10] @ c \<and>
     meta_parse J (bytes_str m) = Inr (Some s, Some n, Some i) \<and>
     600000 \<le> unat i \<and> unat i \<le> 10000000 \<and>
     b64_decode X s = Inr salt \<and> b64_decode X n = Inr nonce \<and> length nonce = 12 \<and>
     aes_open X (pbkdf2 X (str_bytes pass) salt (ucast i)) nonce c [] = Inr secret \<and>
     length secret = 32 \<and> kp = keypair_of X secret"
proof -
  from assms obtain h r where 1: "split_line d = Some (h, r)" by (auto simp: import_secret_encrypted_def res_simps)
  with assms have h: "from_utf8 h = Some ENCRYPTED_KEY_HEADER"
    by (auto simp: import_secret_encrypted_def res_simps split: if_splits)
  then have hb: "h = str_bytes ENCRYPTED_KEY_HEADER"
    by (metis from_utf8_def option.distinct(1) option.inject str_bytes_str)
  from h assms 1 obtain m c where 2: "split_line r = Some (m, c)"
    by (auto simp: import_secret_encrypted_def res_simps)
  have u: "utf8_valid m" using assms 1 h 2 by (auto simp: import_secret_encrypted_def res_simps from_utf8_def split: if_splits)
  have "d = str_bytes ENCRYPTED_KEY_HEADER @ [10] @ m @ [10] @ c"
    using split_line_Some [OF 1] split_line_Some [OF 2] hb by simp
  moreover have "\<exists>s n salt nonce i secret. meta_parse J (bytes_str m) = Inr (Some s, Some n, Some i) \<and>
     600000 \<le> unat i \<and> unat i \<le> 10000000 \<and>
     b64_decode X s = Inr salt \<and> b64_decode X n = Inr nonce \<and> length nonce = 12 \<and>
     aes_open X (pbkdf2 X (str_bytes pass) salt (ucast i)) nonce c [] = Inr secret \<and>
     length secret = 32 \<and> kp = keypair_of X secret"
    using assms 1 h 2 u
    by (auto simp: import_secret_encrypted_def res_simps from_utf8_def decode_b64_def check_iterations_iff Let_def
        split: if_splits)
  ultimately show ?thesis by blast
qed

lemma sample_encrypted_import:
  "\<exists>f. import_secret_encrypted sample_crates sample_key_meta f ''pw'' = Inr (keypair_of sample_crates (replicate 32 7))"
proof -
  have it: "check_iterations (ucast PBKDF2_MIN_ITERATIONS) = Inr PBKDF2_MIN_ITERATIONS"
    by (simp add: check_iterations_iff PBKDF2_MIN_ITERATIONS_def)
  have len: "length (replicate 12 3 :: bytes) = 12" "length (replicate 32 7 :: bytes) = 32" by simp_all
  have open_: "aes_open sample_crates k n (replicate 32 7 @ sample_tag k n (replicate 32 7) []) [] = Inr (replicate 32 7)" for k n
    by (simp add: sample_open_def)
  note parts = encrypted_export_parts [OF sample_key_meta_ok, of "b64_encode sample_crates [1]"
      "b64_encode sample_crates (replicate 12 3)" PBKDF2_MIN_ITERATIONS]
  show ?thesis
    unfolding import_secret_encrypted_def
    by (rule exI [of _ "str_bytes ENCRYPTED_KEY_HEADER @ [10] @
        str_bytes (meta_print sample_key_meta (b64_encode sample_crates [1]) (b64_encode sample_crates (replicate 12 3)) PBKDF2_MIN_ITERATIONS) @
        [10] @ (replicate 32 7 @ sample_tag (pbkdf2 sample_crates (str_bytes ''pw'') [1] PBKDF2_MIN_ITERATIONS) (replicate 12 3) (replicate 32 7) [])"])
      (simp add: parts header_line decode_b64_def b64_ok_simp [OF sample_b64_ok] it open_ len
        del: append.simps append_Cons sample_seals replicate.simps)
qed

lemma import_encrypted_checks_witness:
  "\<exists>f m c. import_secret_encrypted sample_crates sample_key_meta f ''pw'' = Inr (keypair_of sample_crates (replicate 32 7)) \<and>
     f = str_bytes ENCRYPTED_KEY_HEADER @ [10] @ m @ [10] @ c"
  using sample_encrypted_import import_encrypted_checks [of sample_crates sample_key_meta _ "''pw''"] by blast

definition own_signature :: "'x crates_scheme \<Rightarrow> bytes \<Rightarrow> bytes \<Rightarrow> string" where
  "own_signature X sk m = ''ed25519:'' @ b64_encode X (ed_sign X sk m)"

lemma sign_own [simp]: "sign_manifest X (keypair_of X sk) m = Inr (own_signature X sk m)"
  by (simp add: sign_manifest_def own_signature_def keypair_of_def)

lemma verify_own_signature:
  "ed_ok X \<Longrightarrow> b64_ok X \<Longrightarrow> verify_manifest X (kp_public (keypair_of X sk)) m (own_signature X sk m) = Inr True"
  unfolding verify_manifest_def own_signature_def strip_prefix_append
  by (simp add: from_public_keypair decode_b64_def b64_ok_simp ed_ok_simps)

text \<open>
  C19: a signature is accepted only under a key of its own algorithm. \<open>verify_manifest\<close> answers true
  exactly when both the key and the signature carry the \<^verbatim>\<open>ed25519:\<close> prefix, decode to 32 and 64 bytes,
  and Ed25519 accepts, or both carry \<^verbatim>\<open>ecdsa-p256:\<close>, parse, and P-256 accepts; and a signature made by
  \<open>sign_manifest\<close> is accepted under the public key of its key pair.
\<close>

theorem verify_manifest_exact:
  assumes "ed_ok X" "b64_ok X"
  shows "(verify_manifest X p m s = Inr True \<longleftrightarrow>
      (\<exists>a b k c d. p = ''ed25519:'' @ a \<and> b64_decode X a = Inr b \<and> length b = 32 \<and> ed_key X b = Inr k \<and>
         s = ''ed25519:'' @ c \<and> b64_decode X c = Inr d \<and> length d = 64 \<and> ed_verify X k m d = Inr ()) \<or>
      (\<exists>a b k c d g. p = ''ecdsa-p256:'' @ a \<and> b64_decode X a = Inr b \<and> p256_key X b = Inr k \<and>
         s = ''ecdsa-p256:'' @ c \<and> b64_decode X c = Inr d \<and> p256_der X d = Inr g \<and> p256_verify X k m g = Inr ())) \<and>
    (\<forall>sk. \<exists>sig. sign_manifest X (keypair_of X sk) m = Inr sig \<and>
       verify_manifest X (kp_public (keypair_of X sk)) m sig = Inr True)"
proof (intro conjI allI)
  show "verify_manifest X p m s = Inr True \<longleftrightarrow>
      (\<exists>a b k c d. p = ''ed25519:'' @ a \<and> b64_decode X a = Inr b \<and> length b = 32 \<and> ed_key X b = Inr k \<and>
         s = ''ed25519:'' @ c \<and> b64_decode X c = Inr d \<and> length d = 64 \<and> ed_verify X k m d = Inr ()) \<or>
      (\<exists>a b k c d g. p = ''ecdsa-p256:'' @ a \<and> b64_decode X a = Inr b \<and> p256_key X b = Inr k \<and>
         s = ''ecdsa-p256:'' @ c \<and> b64_decode X c = Inr d \<and> p256_der X d = Inr g \<and> p256_verify X k m g = Inr ())"
  proof (cases "strip_prefix ''ed25519:'' s")
    case None
    then have "s \<noteq> ''ed25519:'' @ c" for c using strip_prefix_append [of "''ed25519:''" c] by auto
    with None show ?thesis
      by (auto simp: verify_manifest_def p256_iff starts_with_iff)
  next
    case (Some c)
    then have s: "s = ''ed25519:'' @ c" by (simp add: strip_prefix_Some_iff)
    show ?thesis
      unfolding verify_manifest_def Some by (auto simp: s from_public_iff decode_b64_def res_simps)
  qed
  fix sk
  from verify_own_signature [OF assms] show "\<exists>sig. sign_manifest X (keypair_of X sk) m = Inr sig \<and>
       verify_manifest X (kp_public (keypair_of X sk)) m sig = Inr True"
    by (simp add: own_signature_def)
qed

theorem verify_manifest_exact_witness:
  "\<exists>sig. sign_manifest sample_crates (keypair_of sample_crates (replicate 32 7)) [1, 2] = Inr sig \<and>
     verify_manifest sample_crates (kp_public (keypair_of sample_crates (replicate 32 7))) [1, 2] sig = Inr True"
  using verify_manifest_exact [OF sample_ed_ok sample_b64_ok, of "[]" "[1, 2]" "[]"] by blast



end
