(* ===== verification/Keywrap.thy ===== *)
theory Keywrap
  imports Crypto
begin

text \<open>
  Content keys and key bundles of \<^verbatim>\<open>crates/core/src/keywrap.rs\<close>: sealed secrets at rest, X25519
  key-agreement keys, HPKE wrapping of the per-archive content key, the chunk associated data and the
  \<^verbatim>\<open>SEALEDGE-KEY-V2\<close> bundle. The record of crates is extended by x25519-dalek and hpke; randomness is an argument.
\<close>

section \<open>Crates and constants\<close>

record kw_crates = crates +
  x25519_public :: "bytes \<Rightarrow> bytes"
  hpke_public :: "bytes \<Rightarrow> string + bytes"
  hpke_secret :: "bytes \<Rightarrow> string + bytes"
  hpke_encapped :: "bytes \<Rightarrow> string + bytes"
  hpke_seal :: "bytes \<Rightarrow> bytes \<Rightarrow> bytes \<Rightarrow> bytes \<Rightarrow> bytes \<Rightarrow> string + bytes \<times> bytes"
  hpke_open :: "bytes \<Rightarrow> bytes \<Rightarrow> bytes \<Rightarrow> bytes \<Rightarrow> bytes \<Rightarrow> string + bytes"

text \<open>
  HPKE (base mode): what was sealed to the public key of a secret under \<open>info\<close> and \<open>aad\<close> opens with that
  secret under the same \<open>info\<close> and \<open>aad\<close>; keys of 32 bytes parse, and so does an encapsulated key.
\<close>

definition hpke_ok :: "'x kw_crates_scheme \<Rightarrow> bool" where
  "hpke_ok X \<longleftrightarrow>
    (\<forall>sk. length sk = 32 \<longrightarrow> length (x25519_public X sk) = 32 \<and> hpke_secret X sk = Inr sk \<and>
       hpke_public X (x25519_public X sk) = Inr (x25519_public X sk)) \<and>
    (\<forall>rnd sk info msg aad enc ct. length sk = 32 \<longrightarrow> hpke_seal X rnd (x25519_public X sk) info msg aad = Inr (enc, ct) \<longrightarrow>
       hpke_encapped X enc = Inr enc \<and> hpke_open X sk enc info ct aad = Inr msg)"

lemma hpke_ok_keys: "hpke_ok X \<Longrightarrow> length sk = 32 \<Longrightarrow> length (x25519_public X sk) = 32 \<and> hpke_secret X sk = Inr sk \<and>
    hpke_public X (x25519_public X sk) = Inr (x25519_public X sk)"
  by (simp add: hpke_ok_def)

lemma hpke_ok_open: "hpke_ok X \<Longrightarrow> length sk = 32 \<Longrightarrow> hpke_seal X rnd (x25519_public X sk) info msg aad = Inr (enc, ct) \<Longrightarrow>
    hpke_encapped X enc = Inr enc \<and> hpke_open X sk enc info ct aad = Inr msg"
  unfolding hpke_ok_def by blast

definition KEY_AGREEMENT_PREFIX :: string where "KEY_AGREEMENT_PREFIX = ''x25519:''"
definition BUNDLE_HEADER_V2 :: string where "BUNDLE_HEADER_V2 = ''SEALEDGE-KEY-V2''"
definition SEALED_SECRET_HEADER_V1 :: string where "SEALED_SECRET_HEADER_V1 = ''SEALEDGE-SEALED-V1''"

section \<open>Sealed secrets\<close>

text \<open>serde_json on the metadata line: version, salt, nonce and iterations.\<close>

record sealed_meta =
  smeta_print :: "u64 \<Rightarrow> string \<Rightarrow> string \<Rightarrow> u32 \<Rightarrow> string"
  smeta_parse :: "string \<Rightarrow> string + (u64 option \<times> string option \<times> string option \<times> u64 option)"

definition sealed_meta_ok :: "sealed_meta \<Rightarrow> bool" where
  "sealed_meta_ok J \<longleftrightarrow>
    (\<forall>v s n i. smeta_parse J (smeta_print J v s n i) = Inr (Some v, Some s, Some n, Some (ucast i))) \<and>
    (\<forall>v s n i. 10 \<notin> set (str_bytes (smeta_print J v s n i)) \<and> utf8_valid (str_bytes (smeta_print J v s n i)))"

text \<open>The first two lines of a sealed file: the header, which must be the expected one, and the metadata.\<close>

definition open_lines :: "string \<Rightarrow> bytes \<Rightarrow> CryptoError + string \<times> bytes" where
  "open_lines expected d =
     res_bind (ok_or (InvalidKeyFormat ''Missing header line'') (split_line d)) (\<lambda>(header_bytes, rest).
     res_bind (ok_or (InvalidKeyFormat ''Invalid UTF-8 header'') (from_utf8 header_bytes)) (\<lambda>hdr.
     if hdr \<noteq> expected
     then Inl (InvalidKeyFormat (''Expected header '' @ [CHR 0x27] @ expected @ [CHR 0x27] @ '', got '' @
       [CHR 0x27] @ hdr @ [CHR 0x27]))
     else
     res_bind (ok_or (InvalidKeyFormat ''Missing metadata line'') (split_line rest)) (\<lambda>(meta_bytes, ciphertext).
     res_bind (ok_or (InvalidKeyFormat ''Invalid UTF-8 metadata'') (from_utf8 meta_bytes)) (\<lambda>meta_str.
     Inr (meta_str, ciphertext)))))"

definition check_iterations_of :: "string \<Rightarrow> u64 \<Rightarrow> CryptoError + u32" where
  "check_iterations_of what n =
     (if n < ucast PBKDF2_MIN_ITERATIONS
      then Inl (InvalidKeyFormat (what @ '' uses '' @ show_nat (unat n) @ '' PBKDF2 iterations, minimum is '' @
        show_nat (unat PBKDF2_MIN_ITERATIONS)))
      else if n > ucast PBKDF2_MAX_ITERATIONS
      then Inl (InvalidKeyFormat (what @ '' uses '' @ show_nat (unat n) @ '' PBKDF2 iterations, maximum is '' @
        show_nat (unat PBKDF2_MAX_ITERATIONS)))
      else if 2 ^ 32 \<le> unat n then Inl (InvalidKeyFormat ''iterations value out of range'')
      else Inr (ucast n))"

definition unwrap_or_default :: "string option \<Rightarrow> string" where
  "unwrap_or_default v = (case v of None \<Rightarrow> [] | Some s \<Rightarrow> s)"

definition seal_with ::
  "'x crates_scheme \<Rightarrow> sealed_meta \<Rightarrow> string \<Rightarrow> u64 \<Rightarrow> bytes \<Rightarrow> bytes \<Rightarrow> bytes \<Rightarrow> string \<Rightarrow> CryptoError + bytes" where
  "seal_with X J hdr vers salt nonce_bytes secret passphrase =
     (let iterations = PBKDF2_MIN_ITERATIONS;
          derived_key = pbkdf2 X (str_bytes passphrase) salt iterations
      in res_bind (map_err (\<lambda>e. EncryptionFailed (''AES-GCM encrypt: '' @ e))
           (aes_seal X derived_key nonce_bytes secret [])) (\<lambda>ciphertext.
         Inr (str_bytes hdr @ [10] @
           str_bytes (smeta_print J vers (b64_encode X salt) (b64_encode X nonce_bytes) iterations) @ [10] @ ciphertext)))"

definition seal_secret ::
  "'x crates_scheme \<Rightarrow> sealed_meta \<Rightarrow> bytes \<Rightarrow> bytes \<Rightarrow> bytes \<Rightarrow> string \<Rightarrow> CryptoError + bytes" where
  "seal_secret X J salt nonce_bytes secret passphrase =
     seal_with X J SEALED_SECRET_HEADER_V1 1 salt nonce_bytes secret passphrase"

text \<open>The payload: decode salt and nonce, check the iteration count and the nonce length, derive the key and open.\<close>

definition open_payload ::
  "'x crates_scheme \<Rightarrow> string \<Rightarrow> string \<Rightarrow> string option \<Rightarrow> string option \<Rightarrow> u64 option \<Rightarrow> bytes \<Rightarrow> string \<Rightarrow> CryptoError + bytes" where
  "open_payload X what wrong salt_str nonce_str iterations_u64 ciphertext passphrase =
     res_bind (decode_b64 X (\<lambda>e. InvalidKeyFormat (''Invalid salt base64: '' @ e)) (unwrap_or_default salt_str)) (\<lambda>salt.
     res_bind (decode_b64 X (\<lambda>e. InvalidKeyFormat (''Invalid nonce base64: '' @ e)) (unwrap_or_default nonce_str)) (\<lambda>nonce_bytes.
     res_bind (ok_or (InvalidKeyFormat ''Missing iterations'') iterations_u64) (\<lambda>n.
     res_bind (check_iterations_of what n) (\<lambda>iterations.
     if length nonce_bytes \<noteq> 12 then Inl (InvalidKeyFormat ''Nonce must be 12 bytes'')
     else map_err (\<lambda>_. DecryptionFailed wrong)
       (aes_open X (pbkdf2 X (str_bytes passphrase) salt iterations) nonce_bytes ciphertext [])))))"

definition show_opt_u64 :: "u64 option \<Rightarrow> string" where
  "show_opt_u64 v = (case v of None \<Rightarrow> ''None'' | Some n \<Rightarrow> ''Some('' @ show_nat (unat n) @ '')'')"

definition open_secret :: "'x crates_scheme \<Rightarrow> sealed_meta \<Rightarrow> bytes \<Rightarrow> string \<Rightarrow> CryptoError + bytes" where
  "open_secret X J d passphrase =
     res_bind (open_lines SEALED_SECRET_HEADER_V1 d) (\<lambda>(meta_str, ciphertext).
     res_bind (map_err (\<lambda>e. InvalidKeyFormat (''Invalid JSON metadata: '' @ e)) (smeta_parse J meta_str))
       (\<lambda>(vers, salt_str, nonce_str, iterations_u64).
     if vers \<noteq> Some 1
     then Inl (InvalidKeyFormat (''Unsupported sealed-secret version '' @ show_opt_u64 vers @ '' (expected 1)''))
     else open_payload X ''Sealed secret'' ''Wrong passphrase or corrupted sealed secret''
       salt_str nonce_str iterations_u64 ciphertext passphrase))"

section \<open>Key-agreement keys\<close>

record KeyAgreementKeypair =
  ka_secret :: bytes
  ka_public :: bytes

definition ka_generate :: "'x kw_crates_scheme \<Rightarrow> bytes \<Rightarrow> KeyAgreementKeypair" where
  "ka_generate X random = \<lparr> ka_secret = random, ka_public = x25519_public X random \<rparr>"

definition public_string :: "'x crates_scheme \<Rightarrow> KeyAgreementKeypair \<Rightarrow> string" where
  "public_string X k = KEY_AGREEMENT_PREFIX @ b64_encode X (ka_public k)"

definition ka_export_secret :: "'x crates_scheme \<Rightarrow> KeyAgreementKeypair \<Rightarrow> string" where
  "ka_export_secret X k = KEY_AGREEMENT_PREFIX @ b64_encode X (ka_secret k)"

definition parse_x25519_bytes :: "'x crates_scheme \<Rightarrow> string \<Rightarrow> CryptoError + bytes" where
  "parse_x25519_bytes X value =
     res_bind (ok_or (InvalidKeyFormat (''Key-agreement key must start with '' @ [CHR 0x27] @ ''x25519:'' @ [CHR 0x27]))
       (strip_prefix KEY_AGREEMENT_PREFIX value)) (\<lambda>b64.
     res_bind (decode_b64 X (\<lambda>e. InvalidKeyFormat (''Invalid base64: '' @ e)) b64) (\<lambda>b.
     if length b = 32 then Inr b else Inl (InvalidKeyFormat ''X25519 key must be 32 bytes'')))"

definition ka_import_secret :: "'x kw_crates_scheme \<Rightarrow> string \<Rightarrow> CryptoError + KeyAgreementKeypair" where
  "ka_import_secret X secret_str =
     res_bind (parse_x25519_bytes X secret_str) (\<lambda>secret. Inr \<lparr> ka_secret = secret, ka_public = x25519_public X secret \<rparr>)"

definition parse_x25519_public :: "'x crates_scheme \<Rightarrow> string \<Rightarrow> CryptoError + bytes" where
  "parse_x25519_public X value = parse_x25519_bytes X value"

section \<open>Wrapping the content key\<close>

definition cek_wrap_info :: "string \<Rightarrow> string \<Rightarrow> bytes" where
  "cek_wrap_info device_public_key vers =
     str_bytes ''sealedge/cek-wrap/v1'' @ str_bytes device_public_key @ str_bytes vers"

definition recipient_id_of :: "'x crates_scheme \<Rightarrow> string \<Rightarrow> CryptoError + string" where
  "recipient_id_of X recipient_public =
     res_bind (parse_x25519_bytes X recipient_public) (\<lambda>b.
     Inr (''b3:'' @ hex_encode X (take 8 (blake3_hash X b))))"

definition hpke_seal_cek_with_rng ::
  "'x kw_crates_scheme \<Rightarrow> bytes \<Rightarrow> string \<Rightarrow> bytes \<Rightarrow> bytes \<Rightarrow> bytes \<Rightarrow> CryptoError + string \<times> string" where
  "hpke_seal_cek_with_rng X rng recipient_public info aad cek =
     res_bind (parse_x25519_bytes X recipient_public) (\<lambda>pk_bytes.
     res_bind (map_err (\<lambda>e. EncryptionFailed (''HPKE recipient key: '' @ e)) (hpke_public X pk_bytes)) (\<lambda>pk.
     res_bind (map_err (\<lambda>e. EncryptionFailed (''HPKE seal: '' @ e)) (hpke_seal X rng pk info cek aad)) (\<lambda>(enc, ciphertext).
     Inr (b64_encode X enc, b64_encode X ciphertext))))"

definition hpke_open_raw ::
  "'x kw_crates_scheme \<Rightarrow> bytes \<Rightarrow> string \<Rightarrow> bytes \<Rightarrow> bytes \<Rightarrow> string \<Rightarrow> CryptoError + bytes" where
  "hpke_open_raw X recipient_secret enc_b64 info aad wrapped_b64 =
     res_bind (map_err (\<lambda>e. DecryptionFailed (''HPKE recipient secret: '' @ e)) (hpke_secret X recipient_secret)) (\<lambda>sk.
     res_bind (decode_b64 X (\<lambda>e. DecryptionFailed (''Invalid enc base64: '' @ e)) enc_b64) (\<lambda>enc_bytes.
     res_bind (map_err (\<lambda>e. DecryptionFailed (''HPKE encapped key: '' @ e)) (hpke_encapped X enc_bytes)) (\<lambda>enc.
     res_bind (decode_b64 X (\<lambda>e. DecryptionFailed (''Invalid wrapped_cek base64: '' @ e)) wrapped_b64) (\<lambda>ciphertext.
     map_err (\<lambda>e. DecryptionFailed (''HPKE open: '' @ e)) (hpke_open X sk enc info ciphertext aad)))))"

definition hpke_open_cek ::
  "'x kw_crates_scheme \<Rightarrow> KeyAgreementKeypair \<Rightarrow> string \<Rightarrow> bytes \<Rightarrow> bytes \<Rightarrow> string \<Rightarrow> CryptoError + bytes" where
  "hpke_open_cek X recipient enc_b64 info aad wrapped_cek_b64 =
     res_bind (hpke_open_raw X (ka_secret recipient) enc_b64 info aad wrapped_cek_b64) (\<lambda>cek_bytes.
     if length cek_bytes = 32 then Inr cek_bytes else Inl (DecryptionFailed ''unwrapped CEK is not 32 bytes''))"

definition chunk_aad_v2 :: "'x crates_scheme \<Rightarrow> string \<Rightarrow> string \<Rightarrow> string \<Rightarrow> bytes" where
  "chunk_aad_v2 X device_public_key prof started_at =
     blake3_hash X (str_bytes ''sealedge/aad/v1'' @ str_bytes device_public_key @ str_bytes prof @ str_bytes started_at)"

section \<open>Device bundles\<close>

record DeviceBundle =
  bundle_signing :: DeviceKeypair
  bundle_agreement :: KeyAgreementKeypair

record bundle_json =
  secrets_print :: "u8 \<Rightarrow> string \<Rightarrow> string \<Rightarrow> string"
  secrets_parse :: "string \<Rightarrow> string + (u8 \<times> string \<times> string)"

definition bundle_json_ok :: "bundle_json \<Rightarrow> bool" where
  "bundle_json_ok B \<longleftrightarrow> (\<forall>v e x. secrets_parse B (secrets_print B v e x) = Inr (v, e, x) \<and> utf8_valid (str_bytes (secrets_print B v e x)))"

definition bundle_generate :: "'x kw_crates_scheme \<Rightarrow> bytes \<Rightarrow> bytes \<Rightarrow> DeviceBundle" where
  "bundle_generate X r1 r2 = \<lparr> bundle_signing = generate X r1, bundle_agreement = ka_generate X r2 \<rparr>"

definition public_lines :: "'x crates_scheme \<Rightarrow> DeviceBundle \<Rightarrow> string" where
  "public_lines X b = kp_public (bundle_signing b) @ [CHR 0x0A] @ public_string X (bundle_agreement b) @ [CHR 0x0A]"

definition to_plaintext :: "'x crates_scheme \<Rightarrow> bundle_json \<Rightarrow> DeviceBundle \<Rightarrow> string" where
  "to_plaintext X B b = secrets_print B 2 (export_secret X (bundle_signing b)) (ka_export_secret X (bundle_agreement b))"

definition from_plaintext :: "'x kw_crates_scheme \<Rightarrow> bundle_json \<Rightarrow> string \<Rightarrow> CryptoError + DeviceBundle" where
  "from_plaintext X B s =
     res_bind (map_err (\<lambda>e. InvalidKeyFormat (''Invalid bundle JSON: '' @ e)) (secrets_parse B s)) (\<lambda>(vers, ed, xs).
     if vers \<noteq> 2
     then Inl (InvalidKeyFormat (''Unsupported bundle version '' @ show_nat (unat vers) @ '' (expected 2)''))
     else
     res_bind (import_secret X ed) (\<lambda>sig.
     res_bind (ka_import_secret X xs) (\<lambda>ka.
     Inr \<lparr> bundle_signing = sig, bundle_agreement = ka \<rparr>)))"

definition export_encrypted ::
  "'x crates_scheme \<Rightarrow> sealed_meta \<Rightarrow> bundle_json \<Rightarrow> bytes \<Rightarrow> bytes \<Rightarrow> DeviceBundle \<Rightarrow> string \<Rightarrow> CryptoError + bytes" where
  "export_encrypted X J B salt nonce_bytes b passphrase =
     seal_with X J BUNDLE_HEADER_V2 2 salt nonce_bytes (str_bytes (to_plaintext X B b)) passphrase"

definition import_encrypted ::
  "'x kw_crates_scheme \<Rightarrow> sealed_meta \<Rightarrow> bundle_json \<Rightarrow> bytes \<Rightarrow> string \<Rightarrow> CryptoError + DeviceBundle" where
  "import_encrypted X J B d passphrase =
     res_bind (open_lines BUNDLE_HEADER_V2 d) (\<lambda>(meta_str, ciphertext).
     res_bind (map_err (\<lambda>e. InvalidKeyFormat (''Invalid JSON metadata: '' @ e)) (smeta_parse J meta_str))
       (\<lambda>(_, salt_str, nonce_str, iterations_u64).
     res_bind (open_payload X ''Bundle'' ''Wrong passphrase or corrupted bundle''
       salt_str nonce_str iterations_u64 ciphertext passphrase) (\<lambda>plaintext.
     res_bind (ok_or (DecryptionFailed ''Bundle plaintext not UTF-8'') (from_utf8 plaintext)) (\<lambda>plaintext_str.
     from_plaintext X B plaintext_str))))"

section \<open>Lemmas\<close>

lemma check_iterations_of_iff:
  "check_iterations_of what n = Inr i \<longleftrightarrow> 600000 \<le> unat n \<and> unat n \<le> 10000000 \<and> i = ucast n"
  by (auto simp: check_iterations_of_def PBKDF2_MIN_ITERATIONS_def PBKDF2_MAX_ITERATIONS_def word_less_nat_alt)

text \<open>The two file headers are ASCII lines without a newline.\<close>

definition header_ok :: "string \<Rightarrow> bool" where
  "header_ok h \<longleftrightarrow> 10 \<notin> set (str_bytes h) \<and> utf8_valid (str_bytes h)"

lemma headers_ok: "header_ok BUNDLE_HEADER_V2" "header_ok SEALED_SECRET_HEADER_V1"
proof -
  have "ascii BUNDLE_HEADER_V2" "ascii SEALED_SECRET_HEADER_V1"
    by (simp_all add: ascii_def BUNDLE_HEADER_V2_def SEALED_SECRET_HEADER_V1_def)
  then show "header_ok BUNDLE_HEADER_V2" "header_ok SEALED_SECRET_HEADER_V1"
    by (simp_all add: header_ok_def utf8_valid_str) (simp_all add: BUNDLE_HEADER_V2_def SEALED_SECRET_HEADER_V1_def str_bytes_def)
qed

lemma open_lines_header:
  assumes "header_ok h"
  shows "open_lines expected (str_bytes h @ [10] @ r) =
    (if h \<noteq> expected
     then Inl (InvalidKeyFormat (''Expected header '' @ [CHR 0x27] @ expected @ [CHR 0x27] @ '', got '' @ [CHR 0x27] @ h @ [CHR 0x27]))
     else res_bind (ok_or (InvalidKeyFormat ''Missing metadata line'') (split_line r)) (\<lambda>(meta_bytes, ciphertext).
       res_bind (ok_or (InvalidKeyFormat ''Invalid UTF-8 metadata'') (from_utf8 meta_bytes)) (\<lambda>meta_str. Inr (meta_str, ciphertext))))"
  using assms by (simp add: open_lines_def header_ok_def split_line_append from_utf8_def)

lemma open_lines_sealed:
  assumes "header_ok h" "sealed_meta_ok J"
  shows "open_lines h (str_bytes h @ [10] @ str_bytes (smeta_print J v s n i) @ [10] @ c) = Inr (smeta_print J v s n i, c)"
  using assms split_line_append [of "str_bytes (smeta_print J v s n i)" c]
  unfolding open_lines_header [OF assms(1)] by (simp add: sealed_meta_ok_def from_utf8_def)

lemma open_payload_sealed:
  assumes "b64_ok X" "aead_ok (aes_seal X) (aes_open X)" "length nonce = 12"
    and "aes_seal X (pbkdf2 X (str_bytes pass) salt PBKDF2_MIN_ITERATIONS) nonce secret [] = Inr c"
  shows "open_payload X what wrong (Some (b64_encode X salt)) (Some (b64_encode X nonce)) (Some (ucast PBKDF2_MIN_ITERATIONS)) c pass =
    Inr secret"
proof -
  have "check_iterations_of what (ucast PBKDF2_MIN_ITERATIONS) = Inr PBKDF2_MIN_ITERATIONS"
    by (simp add: check_iterations_of_iff PBKDF2_MIN_ITERATIONS_def)
  then show ?thesis
    using assms(3) by (simp add: open_payload_def decode_b64_def unwrap_or_default_def b64_ok_simp [OF assms(1)]
        aead_ok_open [OF assms(2,4)])
qed

lemma seal_with_iff:
  "seal_with X J h v salt nonce secret pass = Inr f \<longleftrightarrow>
     (\<exists>c. aes_seal X (pbkdf2 X (str_bytes pass) salt PBKDF2_MIN_ITERATIONS) nonce secret [] = Inr c \<and>
        f = str_bytes h @ [10] @ str_bytes (smeta_print J v (b64_encode X salt) (b64_encode X nonce) PBKDF2_MIN_ITERATIONS) @ [10] @ c)"
  by (auto simp: seal_with_def Let_def res_simps)

lemma parse_x25519_encode: "b64_ok X \<Longrightarrow> length k = 32 \<Longrightarrow> parse_x25519_bytes X (KEY_AGREEMENT_PREFIX @ b64_encode X k) = Inr k"
  by (simp add: parse_x25519_bytes_def decode_b64_def b64_ok_simp)

lemma import_export_secret:
  "b64_ok X \<Longrightarrow> length secret = 32 \<Longrightarrow> import_secret X (export_secret X (keypair_of X secret)) = Inr (keypair_of X secret)"
  by (simp add: import_secret_def export_secret_def keypair_of_def strip_prefix_def starts_with_def decode_b64_def b64_ok_simp)

lemma from_to_plaintext:
  assumes "b64_ok X" "bundle_json_ok B" "length r1 = 32" "length r2 = 32"
  shows "from_plaintext X B (to_plaintext X B (bundle_generate X r1 r2)) = Inr (bundle_generate X r1 r2)"
  using assms(2-4) import_export_secret [OF assms(1), of r1] parse_x25519_encode [OF assms(1), of r2]
  by (simp add: from_plaintext_def to_plaintext_def bundle_json_ok_def bundle_generate_def generate_def ka_import_secret_def
      ka_export_secret_def ka_generate_def)

text \<open>No accepted profile name is a prefix of another.\<close>

lemma profiles_prefix_free:
  "p \<in> set [''generic'', ''cam.video'', ''sensor'', ''audio'', ''log''] \<Longrightarrow>
   p' \<in> set [''generic'', ''cam.video'', ''sensor'', ''audio'', ''log''] \<Longrightarrow> p @ t = p' @ t' \<Longrightarrow> p = p' \<and> t = t'"
  unfolding list.set insert_iff empty_iff by (elim disjE) simp_all

lemma hpke_cek_opens:
  assumes "b64_ok X" "hpke_ok X" "length r = 32" "length cek = 32"
    and "hpke_seal_cek_with_rng X rnd (public_string X (ka_generate X r)) info aad cek = Inr (enc, wrapped)"
  shows "hpke_open_cek X (ka_generate X r) enc info aad wrapped = Inr cek"
proof -
  note keys = hpke_ok_keys [OF assms(2,3)]
  have pk: "parse_x25519_bytes X (public_string X (ka_generate X r)) = Inr (x25519_public X r)"
    using parse_x25519_encode [OF assms(1), of "x25519_public X r"] keys by (simp add: public_string_def ka_generate_def)
  from assms(5) obtain e c where s: "hpke_seal X rnd (x25519_public X r) info cek aad = Inr (e, c)"
    and w: "enc = b64_encode X e" "wrapped = b64_encode X c"
    unfolding hpke_seal_cek_with_rng_def pk by (auto simp: res_simps keys)
  from hpke_ok_open [OF assms(2,3) s] show ?thesis
    using assms(4) keys by (simp add: hpke_open_cek_def hpke_open_raw_def ka_generate_def w decode_b64_def b64_ok_simp [OF assms(1)])
qed

text \<open>An exported bundle starts with its header line and imports again.\<close>

lemma exported_bundle:
  assumes "b64_ok X" "aead_ok (aes_seal X) (aes_open X)" "sealed_meta_ok J" "bundle_json_ok B"
    and "length nonce = 12" "length r1 = 32" "length r2 = 32" "export_encrypted X J B salt nonce (bundle_generate X r1 r2) pass = Inr f"
  shows "\<exists>r. f = str_bytes BUNDLE_HEADER_V2 @ [10] @ r \<and> import_encrypted X J B f pass = Inr (bundle_generate X r1 r2)"
proof -
  let ?b = "bundle_generate X r1 r2"
  from assms(8) obtain c where c: "aes_seal X (pbkdf2 X (str_bytes pass) salt PBKDF2_MIN_ITERATIONS) nonce (str_bytes (to_plaintext X B ?b)) [] = Inr c"
    and f: "f = str_bytes BUNDLE_HEADER_V2 @ [10] @
      str_bytes (smeta_print J 2 (b64_encode X salt) (b64_encode X nonce) PBKDF2_MIN_ITERATIONS) @ [10] @ c"
    unfolding export_encrypted_def seal_with_iff by blast
  have "utf8_valid (str_bytes (to_plaintext X B ?b))" using assms(4) by (simp add: bundle_json_ok_def to_plaintext_def)
  then have "import_encrypted X J B f pass = Inr ?b"
    unfolding import_encrypted_def f open_lines_sealed [OF headers_ok(1) assms(3)]
    using assms(3) open_payload_sealed [OF assms(1,2,5) c] from_to_plaintext [OF assms(1,4,6,7)]
    by (simp add: sealed_meta_ok_def from_utf8_def)
  with f show ?thesis by blast
qed

lemma sealed_opens:
  assumes "b64_ok X" "aead_ok (aes_seal X) (aes_open X)" "sealed_meta_ok J" "length nonce = 12"
    and "seal_secret X J salt nonce secret pass = Inr f"
  shows "open_secret X J f pass = Inr secret"
proof -
  from assms(5) obtain c where c: "aes_seal X (pbkdf2 X (str_bytes pass) salt PBKDF2_MIN_ITERATIONS) nonce secret [] = Inr c"
    and f: "f = str_bytes SEALED_SECRET_HEADER_V1 @ [10] @
      str_bytes (smeta_print J 1 (b64_encode X salt) (b64_encode X nonce) PBKDF2_MIN_ITERATIONS) @ [10] @ c"
    unfolding seal_secret_def seal_with_iff by blast
  show ?thesis
    unfolding open_secret_def f open_lines_sealed [OF headers_ok(2) assms(3)]
    using assms(3) open_payload_sealed [OF assms(1,2,4) c] by (simp add: sealed_meta_ok_def)
qed

section \<open>Properties\<close>

text \<open>
  C22: sealed files open again and are never confused. A secret sealed under a passphrase opens to
  itself; a bundle of fresh keys survives both its plaintext and its encrypted form; and a file with the header of
  one kind is refused by the reader of the other kind before anything is decrypted.
\<close>

theorem sealed_files_roundtrip:
  assumes "b64_ok X" "aead_ok (aes_seal X) (aes_open X)" "sealed_meta_ok J" "bundle_json_ok B"
    and "length nonce = 12" "length r1 = 32" "length r2 = 32" "b = bundle_generate X r1 r2"
  shows "(\<forall>f. seal_secret X J salt nonce secret pass = Inr f \<longrightarrow>
       open_secret X J f pass = Inr secret \<and>
       (\<exists>e. import_encrypted X J B f pass = Inl (InvalidKeyFormat e))) \<and>
    from_plaintext X B (to_plaintext X B b) = Inr b \<and>
    (\<forall>f. export_encrypted X J B salt nonce b pass = Inr f \<longrightarrow>
       import_encrypted X J B f pass = Inr b \<and> (\<exists>e. open_secret X J f pass = Inl (InvalidKeyFormat e)))"
proof (intro conjI allI impI)
  fix f
  assume s: "seal_secret X J salt nonce secret pass = Inr f"
  show "open_secret X J f pass = Inr secret" by (rule sealed_opens [OF assms(1,2,3,5) s])
  from s obtain r where f: "f = str_bytes SEALED_SECRET_HEADER_V1 @ [10] @ r"
    unfolding seal_secret_def seal_with_iff by blast
  have "SEALED_SECRET_HEADER_V1 \<noteq> BUNDLE_HEADER_V2" by (simp add: SEALED_SECRET_HEADER_V1_def BUNDLE_HEADER_V2_def)
  then show "\<exists>e. import_encrypted X J B f pass = Inl (InvalidKeyFormat e)"
    unfolding import_encrypted_def f open_lines_header [OF headers_ok(2)] by simp
next
  show "from_plaintext X B (to_plaintext X B b) = Inr b"
    using from_to_plaintext [OF assms(1,4,6,7)] by (simp add: assms(8))
next
  fix f
  assume "export_encrypted X J B salt nonce b pass = Inr f"
  from exported_bundle [OF assms(1-7) this [unfolded assms(8)]] obtain r where f: "f = str_bytes BUNDLE_HEADER_V2 @ [10] @ r"
    and i: "import_encrypted X J B f pass = Inr b" by (auto simp: assms(8))
  show "import_encrypted X J B f pass = Inr b" by (rule i)
  have "BUNDLE_HEADER_V2 \<noteq> SEALED_SECRET_HEADER_V1" by (simp add: SEALED_SECRET_HEADER_V1_def BUNDLE_HEADER_V2_def)
  then show "\<exists>e. open_secret X J f pass = Inl (InvalidKeyFormat e)"
    unfolding open_secret_def f open_lines_header [OF headers_ok(1)] by simp
qed

text \<open>
  The content key reaches its recipient. A 32-byte content key sealed to the public string of
  a key-agreement pair opens with that pair under the same \<open>info\<close> and associated data.
\<close>

lemma cek_wrap_roundtrip:
  assumes "b64_ok X" "hpke_ok X" "length r = 32" "length cek = 32"
    and "hpke_seal_cek_with_rng X rnd (public_string X (ka_generate X r)) info aad cek = Inr (enc, wrapped)"
  shows "hpke_open_cek X (ka_generate X r) enc info aad wrapped = Inr cek"
  by (rule hpke_cek_opens [OF assms])

text \<open>
  The associated data identifies the capture. For public keys of one length (all keys of one algorithm
  have it) and profiles the manifest accepts, equal chunk associated data means equal device key, profile and start time,
  barring a BLAKE3 collision of the two inputs; equal wrapping contexts mean equal device key and format version.
\<close>

lemma chunk_aad_binds:
  assumes "length k = length k'" "p \<in> set [''generic'', ''cam.video'', ''sensor'', ''audio'', ''log'']"
    and "p' \<in> set [''generic'', ''cam.video'', ''sensor'', ''audio'', ''log'']"
    and "no_collision X {str_bytes (''sealedge/aad/v1'' @ k @ p @ t), str_bytes (''sealedge/aad/v1'' @ k' @ p' @ t')}"
  shows "(chunk_aad_v2 X k p t = chunk_aad_v2 X k' p' t' \<longleftrightarrow> k = k' \<and> p = p' \<and> t = t') \<and>
    (cek_wrap_info k v = cek_wrap_info k' v' \<longleftrightarrow> k = k' \<and> v = v')"
proof
  have "k = k' \<and> p = p' \<and> t = t'" if "chunk_aad_v2 X k p t = chunk_aad_v2 X k' p' t'"
  proof -
    have "str_bytes (''sealedge/aad/v1'' @ k @ p @ t) = str_bytes (''sealedge/aad/v1'' @ k' @ p' @ t')"
      by (rule no_collisionD [OF assms(4)])
        (use that in \<open>simp_all only: chunk_aad_v2_def str_bytes_append insert_iff refl simp_thms\<close>)
    then have "k @ p @ t = k' @ p' @ t'" by (simp only: str_bytes_inj same_append_eq)
    then have "k = k'" "p @ t = p' @ t'" using assms(1) by simp_all
    with profiles_prefix_free [OF assms(2,3)] show ?thesis by blast
  qed
  then show "chunk_aad_v2 X k p t = chunk_aad_v2 X k' p' t' \<longleftrightarrow> k = k' \<and> p = p' \<and> t = t'" by blast
  show "cek_wrap_info k v = cek_wrap_info k' v' \<longleftrightarrow> k = k' \<and> v = v'"
    using assms(1) by (simp add: cek_wrap_info_def)
qed

section \<open>Concrete instances\<close>

text \<open>
  A key-wrap crate for the witnesses: the public key is the padded secret, and sealing appends the tag of the
  sample AEAD under the public key.
\<close>

definition sample_kw :: kw_crates where
  "sample_kw = crates.extend sample_crates \<lparr> x25519_public = pad32, hpke_public = Inr, hpke_secret = Inr, hpke_encapped = Inr,
     hpke_seal = (\<lambda>rnd pk info msg aad. map_err id (res_bind (sample_seal pk info msg aad) (\<lambda>c. Inr (rnd, c)))),
     hpke_open = (\<lambda>sk enc info c aad. sample_open (pad32 sk) info c aad) \<rparr>"

definition sample_sealed_meta :: sealed_meta where
  "sample_sealed_meta = \<lparr>
     smeta_print = (\<lambda>v s n i. show_nat (unat v) @ '':'' @ meta_print sample_key_meta s n i),
     smeta_parse = (\<lambda>t. res_bind (sample_meta_parse (tl (dropWhile (\<lambda>c. c \<noteq> CHR '':'') t))) (\<lambda>(s, n, i).
       Inr (Some (word_of_nat (read_nat (takeWhile (\<lambda>c. c \<noteq> CHR '':'') t))), s, n, i))) \<rparr>"

definition sample_bundle_json :: bundle_json where
  "sample_bundle_json = \<lparr>
     secrets_print = (\<lambda>v e x. meta_print sample_key_meta e x (ucast v)),
     secrets_parse = (\<lambda>t. res_bind (sample_meta_parse t) (\<lambda>r. case r of
        (Some e, Some x, Some i) \<Rightarrow> Inr (ucast i, e, x) | _ \<Rightarrow> Inl ''missing field'')) \<rparr>"

lemma sample_kw_base:
  "b64_encode sample_kw = sample_hex" "b64_decode sample_kw = sample_unhex" "aes_seal sample_kw = sample_seal"
  "aes_open sample_kw = sample_open" "blake3_hash sample_kw = sample_digest" "x25519_public sample_kw = pad32"
  by (simp_all add: sample_kw_def sample_crates_def crates.defs)

lemma sample_kw_oks: "b64_ok sample_kw" "aead_ok (aes_seal sample_kw) (aes_open sample_kw)"
proof -
  show "b64_ok sample_kw" by (simp add: b64_ok_def sample_kw_base sample_unhex_hex)
  show "aead_ok (aes_seal sample_kw) (aes_open sample_kw)"
    using sample_aead_ok by (simp add: sample_kw_base sample_crates_def)
qed

lemma sample_kw_ed_ok: "ed_ok sample_kw"
  using sample_ed_ok by (simp add: ed_ok_def sample_kw_def crates.defs)

lemma sample_hpke_ok: "hpke_ok sample_kw"
proof -
  have a: "sample_open k n c a = Inr m" if "sample_seal k n m a = Inr c" for k n m a c
    using aead_ok_open [OF sample_kw_oks(2)] that by (simp add: sample_kw_base)
  have "length (pad32 sk) = 32" for sk by (simp add: pad32_def)
  then show ?thesis
    by (auto simp: hpke_ok_def sample_kw_def crates.defs res_simps dest: a)
qed

lemma sample_sealed_meta_ok: "sealed_meta_ok sample_sealed_meta"
proof -
  have p: "sample_meta_parse (meta_print sample_key_meta s n i) = Inr (Some s, Some n, Some (ucast i))" for s n i
    using sample_meta_parse_print by (simp add: sample_key_meta_def)
  have "smeta_parse sample_sealed_meta (smeta_print sample_sealed_meta v s n i) = Inr (Some v, Some s, Some n, Some (ucast i))" for v s n i
    by (simp add: sample_sealed_meta_def plain_split [OF plain_show_nat] p)
  moreover have "10 \<notin> set (str_bytes (smeta_print sample_sealed_meta v s n i))" for v s n i
    using plain_text(2) [OF plain_show_nat] sample_meta_print_text(2)
    by (simp add: sample_sealed_meta_def) (simp add: str_bytes_def)
  moreover have "ascii (smeta_print sample_sealed_meta v s n i)" for v s n i
    using plain_text(1) [OF plain_show_nat] sample_meta_print_text(1)
    by (simp add: sample_sealed_meta_def ascii_append) (simp add: ascii_def)
  ultimately show ?thesis by (simp add: sealed_meta_ok_def utf8_valid_str)
qed

lemma sample_bundle_json_ok: "bundle_json_ok sample_bundle_json"
proof -
  have p: "sample_meta_parse (meta_print sample_key_meta s n i) = Inr (Some s, Some n, Some (ucast i))" for s n i
    using sample_meta_parse_print by (simp add: sample_key_meta_def)
  have "ucast (ucast (ucast v :: u32) :: u64) = v" for v :: u8
    by (rule bit_word_eqI) (auto simp: bit_simps)
  then show ?thesis
    by (simp add: bundle_json_ok_def sample_bundle_json_def p utf8_valid_str sample_meta_print_text)
qed

theorem sealed_files_roundtrip_witness:
  "(\<exists>f. seal_secret sample_kw sample_sealed_meta [1] (replicate 12 3) [9] ''pw'' = Inr f \<and>
      open_secret sample_kw sample_sealed_meta f ''pw'' = Inr [9]) \<and>
   (\<exists>f. export_encrypted sample_kw sample_sealed_meta sample_bundle_json [1] (replicate 12 3)
        (bundle_generate sample_kw (replicate 32 7) (replicate 32 8)) ''pw'' = Inr f \<and>
      import_encrypted sample_kw sample_sealed_meta sample_bundle_json f ''pw'' =
        Inr (bundle_generate sample_kw (replicate 32 7) (replicate 32 8)))"
proof -
  have s: "\<exists>f. seal_with sample_kw sample_sealed_meta h v salt nonce secret pass = Inr f" for h v salt nonce secret pass
    by (simp add: seal_with_def Let_def sample_kw_base sample_seal_def)
  note r = sealed_files_roundtrip [OF sample_kw_oks sample_sealed_meta_ok sample_bundle_json_ok
      length_replicate length_replicate length_replicate refl]
  show ?thesis
  proof
    obtain f where "seal_secret sample_kw sample_sealed_meta [1] (replicate 12 3) [9] ''pw'' = Inr f"
      using s unfolding seal_secret_def by blast
    with r show "\<exists>f. seal_secret sample_kw sample_sealed_meta [1] (replicate 12 3) [9] ''pw'' = Inr f \<and>
      open_secret sample_kw sample_sealed_meta f ''pw'' = Inr [9]" by blast
  next
    obtain f where "export_encrypted sample_kw sample_sealed_meta sample_bundle_json [1] (replicate 12 3)
        (bundle_generate sample_kw (replicate 32 7) (replicate 32 8)) ''pw'' = Inr f"
      using s unfolding export_encrypted_def by blast
    with r show "\<exists>f. export_encrypted sample_kw sample_sealed_meta sample_bundle_json [1] (replicate 12 3)
        (bundle_generate sample_kw (replicate 32 7) (replicate 32 8)) ''pw'' = Inr f \<and>
      import_encrypted sample_kw sample_sealed_meta sample_bundle_json f ''pw'' =
        Inr (bundle_generate sample_kw (replicate 32 7) (replicate 32 8))" by blast
  qed
qed

lemma cek_wrap_roundtrip_witness:
  "\<exists>enc wrapped. hpke_seal_cek_with_rng sample_kw [1] (public_string sample_kw (ka_generate sample_kw (replicate 32 7))) [2] [3]
       (replicate 32 9) = Inr (enc, wrapped) \<and>
     hpke_open_cek sample_kw (ka_generate sample_kw (replicate 32 7)) enc [2] [3] wrapped = Inr (replicate 32 9)"
proof -
  have "parse_x25519_bytes sample_kw (public_string sample_kw (ka_generate sample_kw (replicate 32 7))) = Inr (pad32 (replicate 32 7))"
    using parse_x25519_encode [OF sample_kw_oks(1), of "pad32 (replicate 32 7)"]
    by (simp add: public_string_def ka_generate_def sample_kw_base pad32_def)
  then have "\<exists>enc wrapped. hpke_seal_cek_with_rng sample_kw [1] (public_string sample_kw (ka_generate sample_kw (replicate 32 7))) [2] [3]
       (replicate 32 9) = Inr (enc, wrapped)"
    by (simp add: hpke_seal_cek_with_rng_def sample_kw_def crates.defs sample_seal_def)
  then show ?thesis
    using cek_wrap_roundtrip [OF sample_kw_oks(1) sample_hpke_ok, of "replicate 32 7" "replicate 32 9"] by simp blast
qed

lemma chunk_aad_binds_witness:
  "chunk_aad_v2 sample_kw ''a'' ''log'' ''t'' \<noteq> chunk_aad_v2 sample_kw ''a'' ''audio'' ''t''"
proof -
  have "no_collision sample_kw {str_bytes (''sealedge/aad/v1'' @ ''a'' @ ''log'' @ ''t''),
      str_bytes (''sealedge/aad/v1'' @ ''a'' @ ''audio'' @ ''t'')}"
    by (simp add: no_collision_def sample_kw_base sample_digest_def str_bytes_def replicate_numeral_step)
  from chunk_aad_binds [OF _ _ _ this, of "[]" "[]"] show ?thesis by simp
qed

end
