(* ===== verification/Chronicle.thy ===== *)
theory Chronicle
  imports Keywrap Archive
begin

text \<open>
  The device chronicle of \<^verbatim>\<open>crates/core/src/chronicle.rs\<close>: archive identifiers, the state file that points at the head
  of a chronicle and how it is saved, signed witness requests and co-signed rotation records. The JSON text of the state
  file is printed and parsed by serde_json (\<open>state_json\<close>); the file system is a map from paths to contents.
\<close>

section \<open>Archive identifiers\<close>

definition archive_digest :: "'x crates_scheme \<Rightarrow> TrstManifest \<Rightarrow> bytes" where
  "archive_digest X m = segment_hash X (to_canonical_bytes X m)"

definition format_archive_id :: "'x crates_scheme \<Rightarrow> bytes \<Rightarrow> string" where
  "format_archive_id X digest = ''b3:'' @ hex_encode X digest"

section \<open>The state file\<close>

record ChronicleState =
  cs_device_pub :: string
  cs_sequence :: u64
  cs_tip :: string
  cs_key_epoch :: u32
  cs_updated_at :: string

text \<open>
  serde_json on the state: the epoch may be missing in the text, and then \<^verbatim>\<open>#[serde(default)]\<close> makes it 0.
\<close>

record state_json =
  state_print :: "ChronicleState \<Rightarrow> string + string"
  state_parse :: "bytes \<Rightarrow> string + (string \<times> u64 \<times> string \<times> u32 option \<times> string)"

definition state_json_ok :: "state_json \<Rightarrow> bool" where
  "state_json_ok J \<longleftrightarrow> (\<forall>s t. state_print J s = Inr t \<longrightarrow>
     state_parse J (str_bytes t) = Inr (cs_device_pub s, cs_sequence s, cs_tip s, Some (cs_key_epoch s), cs_updated_at s))"

text \<open>A path is its parent and its file name, which is missing for a path that ends in two dots.\<close>

type_synonym fs_path = "string \<times> string option"
type_synonym fs = "fs_path \<Rightarrow> bytes option"

definition tmp_sibling :: "fs_path \<Rightarrow> fs_path" where
  "tmp_sibling path = (fst path, Some ((case snd path of None \<Rightarrow> [] | Some n \<Rightarrow> n) @ ''.tmp''))"

definition state_load :: "state_json \<Rightarrow> fs \<Rightarrow> fs_path \<Rightarrow> string + ChronicleState" where
  "state_load J F path =
     res_bind (ok_or ''No such file or directory (os error 2)'' (F path)) (\<lambda>b.
     res_bind (state_parse J b) (\<lambda>(pub, seq, tip, epoch, updated).
     Inr \<lparr> cs_device_pub = pub, cs_sequence = seq, cs_tip = tip,
       cs_key_epoch = (case epoch of None \<Rightarrow> 0 | Some e \<Rightarrow> e), cs_updated_at = updated \<rparr>))"

text \<open>
  \<open>save\<close> is a sequence of file operations. The states a reader or a crash can see during a write are all
  prefixes of the content; a rename is one step.
\<close>

datatype fs_op = WriteFile fs_path bytes | SetPermissions fs_path nat | Rename fs_path fs_path

fun op_states :: "fs \<Rightarrow> fs_op \<Rightarrow> fs list" where
  "op_states F (WriteFile p b) = map (\<lambda>n. F(p := Some (take n b))) [0..<Suc (length b)]"
| "op_states F (SetPermissions p mode) = [F]"
| "op_states F (Rename p q) = [F(q := F p, p := None)]"

fun run_states :: "fs \<Rightarrow> fs_op list \<Rightarrow> fs list" where
  "run_states F [] = []"
| "run_states F (op # ops) = (let s = op_states F op in s @ run_states (last s) ops)"

definition save_ops :: "fs_path \<Rightarrow> bytes \<Rightarrow> fs_op list" where
  "save_ops path json = [WriteFile (tmp_sibling path) json, SetPermissions (tmp_sibling path) 384, Rename (tmp_sibling path) path]"

definition save_states :: "state_json \<Rightarrow> fs \<Rightarrow> fs_path \<Rightarrow> ChronicleState \<Rightarrow> string + fs list" where
  "save_states J F path s = res_bind (state_print J s) (\<lambda>json. Inr (run_states F (save_ops path (str_bytes json))))"

definition state_save :: "state_json \<Rightarrow> fs \<Rightarrow> fs_path \<Rightarrow> ChronicleState \<Rightarrow> string + fs" where
  "state_save J F path s = res_bind (save_states J F path s) (\<lambda>states. Inr (last states))"

section \<open>Rotation records\<close>

record RotationOld =
  old_public_key :: string
  old_key_epoch :: u32

record RotationNew =
  new_public_key :: string
  new_key_agreement_public :: string
  new_key_epoch :: u32

record RotationRecord =
  rot_version :: string
  rot_kind :: string
  rot_sequence :: u64
  rot_prev :: string
  rot_old :: RotationOld
  rot_new :: RotationNew
  rotated_at :: string
  sig_old :: string
  sig_new :: string

definition ROTATION_KIND :: string where "ROTATION_KIND = ''rotation''"

definition rot_text :: "'x crates_scheme \<Rightarrow> RotationRecord \<Rightarrow> string" where
  "rot_text X r =
     CHR ''{'' # jkey ''trst_version'' @ json_str X (rot_version r) @
     ckey ''kind'' @ json_str X (rot_kind r) @
     ckey ''sequence'' @ show_nat (unat (rot_sequence r)) @
     ckey ''prev_archive_hash'' @ json_str X (rot_prev r) @
     ckey ''old'' @ CHR ''{'' # jkey ''public_key'' @ json_str X (old_public_key (rot_old r)) @
       ckey ''key_epoch'' @ show_nat (unat (old_key_epoch (rot_old r))) @ CHR ''}'' #
     ckey ''new'' @ CHR ''{'' # jkey ''public_key'' @ json_str X (new_public_key (rot_new r)) @
       ckey ''key_agreement_public'' @ json_str X (new_key_agreement_public (rot_new r)) @
       ckey ''key_epoch'' @ show_nat (unat (new_key_epoch (rot_new r))) @ CHR ''}'' #
     ckey ''rotated_at'' @ json_str X (rotated_at r) @ ''}''"

definition rot_signing_bytes :: "'x crates_scheme \<Rightarrow> RotationRecord \<Rightarrow> bytes" where
  "rot_signing_bytes X r = str_bytes (rot_text X r)"

definition rot_archive_digest :: "'x crates_scheme \<Rightarrow> RotationRecord \<Rightarrow> bytes" where
  "rot_archive_digest X r = segment_hash X (rot_signing_bytes X r)"

text \<open>
  \<open>old_epoch + 1\<close> is the release build's wrapping addition (a debug build panics at the maximum).
\<close>

definition rot_create_signed ::
  "'x crates_scheme \<Rightarrow> DeviceKeypair \<Rightarrow> u32 \<Rightarrow> DeviceBundle \<Rightarrow> u64 \<Rightarrow> string \<Rightarrow> string \<Rightarrow> CryptoError + RotationRecord" where
  "rot_create_signed X old_signing old_epoch new_bundle seq prev at_time =
     (let rec = \<lparr> rot_version = ''0.2.0'', rot_kind = ROTATION_KIND, rot_sequence = seq, rot_prev = prev,
            rot_old = \<lparr> old_public_key = kp_public old_signing, old_key_epoch = old_epoch \<rparr>,
            rot_new = \<lparr> new_public_key = kp_public (bundle_signing new_bundle),
              new_key_agreement_public = public_string X (bundle_agreement new_bundle), new_key_epoch = old_epoch + 1 \<rparr>,
            rotated_at = at_time, sig_old = [], sig_new = [] \<rparr>;
          b = rot_signing_bytes X rec
      in res_bind (sign_manifest X old_signing b) (\<lambda>s_old.
         res_bind (sign_manifest X (bundle_signing new_bundle) b) (\<lambda>s_new.
         Inr (rec\<lparr> sig_old := s_old, sig_new := s_new \<rparr>))))"

definition checked_succ_u32 :: "u32 \<Rightarrow> u32 option" where
  "checked_succ_u32 e = (if unat e + 1 < 2 ^ 32 then Some (e + 1) else None)"

definition unwrap_or_false :: "'e + bool \<Rightarrow> bool" where
  "unwrap_or_false r = (case r of Inl _ \<Rightarrow> False | Inr b \<Rightarrow> b)"

definition rot_verify :: "'x crates_scheme \<Rightarrow> RotationRecord \<Rightarrow> bool" where
  "rot_verify X r =
     (if rot_kind r \<noteq> ROTATION_KIND then False
      else if checked_succ_u32 (old_key_epoch (rot_old r)) \<noteq> Some (new_key_epoch (rot_new r)) then False
      else
        let b = rot_signing_bytes X r;
            old_ok = unwrap_or_false (verify_manifest X (old_public_key (rot_old r)) b (sig_old r));
            new_ok = unwrap_or_false (verify_manifest X (new_public_key (rot_new r)) b (sig_new r))
        in old_ok \<and> new_ok)"

section \<open>Witness requests\<close>

record WitnessRequest =
  wr_device_pub :: string
  wr_sequence :: u64
  wr_tip :: string
  wr_signed_at :: string
  wr_signature :: string
  wr_rotation :: "RotationRecord option"

definition wr_text :: "'x crates_scheme \<Rightarrow> WitnessRequest \<Rightarrow> string" where
  "wr_text X w =
     CHR ''{'' # jkey ''device_pub'' @ json_str X (wr_device_pub w) @
     ckey ''sequence'' @ show_nat (unat (wr_sequence w)) @
     ckey ''tip'' @ json_str X (wr_tip w) @
     ckey ''signed_at'' @ json_str X (wr_signed_at w) @ ''}''"

definition wr_signing_bytes :: "'x crates_scheme \<Rightarrow> WitnessRequest \<Rightarrow> bytes" where
  "wr_signing_bytes X w = str_bytes (wr_text X w)"

definition wr_create_signed ::
  "'x crates_scheme \<Rightarrow> DeviceKeypair \<Rightarrow> u64 \<Rightarrow> string \<Rightarrow> string \<Rightarrow> CryptoError + WitnessRequest" where
  "wr_create_signed X signing seq tip signed_at =
     (let req = \<lparr> wr_device_pub = kp_public signing, wr_sequence = seq, wr_tip = tip, wr_signed_at = signed_at,
            wr_signature = [], wr_rotation = None \<rparr>
      in res_bind (sign_manifest X signing (wr_signing_bytes X req)) (\<lambda>s. Inr (req\<lparr> wr_signature := s \<rparr>)))"

definition wr_verify :: "'x crates_scheme \<Rightarrow> WitnessRequest \<Rightarrow> bool" where
  "wr_verify X w = unwrap_or_false (verify_manifest X (wr_device_pub w) (wr_signing_bytes X w) (wr_signature w))"

section \<open>Lemmas\<close>

lemma unwrap_or_false_iff [simp]: "unwrap_or_false r \<longleftrightarrow> r = Inr True"
  by (cases r) (auto simp: unwrap_or_false_def)

lemma format_archive_id_inj: "hex_ok X \<Longrightarrow> format_archive_id X a = format_archive_id X b \<longleftrightarrow> a = b"
  by (simp add: format_archive_id_def hex_ok_inj)

lemma checked_succ_iff: "checked_succ_u32 e = Some f \<longleftrightarrow> unat f = unat e + 1"
proof (cases "unat e + 1 < 2 ^ 32")
  case True
  then have "unat (e + 1) = unat e + 1" by (subst unat_add_lem [THEN iffD1]) simp_all
  then show ?thesis using True by (auto simp: checked_succ_u32_def word_unat_eq_iff)
next
  case False
  then have "unat f \<noteq> unat e + 1" using unat_u32_less [of f] by (simp del: unat_u32_less)
  then show ?thesis using False by (auto simp: checked_succ_u32_def)
qed

lemma rot_text_split:
  assumes "json_ok X" "rot_text X r = rot_text X s"
  shows "r\<lparr> sig_old := [], sig_new := [] \<rparr> = s\<lparr> sig_old := [], sig_new := [] \<rparr>"
proof -
  from assms have *: "rot_version r = rot_version s \<and> rot_kind r = rot_kind s \<and> rot_sequence r = rot_sequence s \<and>
      rot_prev r = rot_prev s \<and> old_public_key (rot_old r) = old_public_key (rot_old s) \<and>
      old_key_epoch (rot_old r) = old_key_epoch (rot_old s) \<and> new_public_key (rot_new r) = new_public_key (rot_new s) \<and>
      new_key_agreement_public (rot_new r) = new_key_agreement_public (rot_new s) \<and>
      new_key_epoch (rot_new r) = new_key_epoch (rot_new s) \<and> rotated_at r = rotated_at s"
    by (simp add: rot_text_def canon json_str_inj word_unat_eq_iff)
  then have "rot_old r = rot_old s" "rot_new r = rot_new s" by (simp_all add: RotationOld.equality RotationNew.equality)
  with * show ?thesis by (cases r; cases s) simp
qed

lemma wr_text_split:
  "json_ok X \<Longrightarrow> wr_text X v = wr_text X w \<longleftrightarrow>
     wr_device_pub v = wr_device_pub w \<and> wr_sequence v = wr_sequence w \<and> wr_tip v = wr_tip w \<and> wr_signed_at v = wr_signed_at w"
  by (auto simp: wr_text_def canon json_str_inj word_unat_eq_iff)

lemma texts_differ:
  assumes "json_ok X"
  shows "rot_text X r \<noteq> wr_text X w" "serialize_canonical X m \<noteq> wr_text X w" "serialize_canonical X m \<noteq> rot_text X r"
  using assms by (simp_all add: rot_text_def wr_text_def serialize_canonical_def canon) (simp_all add: jkey_def ckey_def)

lemma rot_created:
  assumes "rot_create_signed X (keypair_of X sk) e b q p t = Inr r" "bundle_signing b = keypair_of X sk'"
  shows "rot_version r = ''0.2.0'' \<and> rot_kind r = ROTATION_KIND \<and> rot_sequence r = q \<and> rot_prev r = p \<and>
    rot_old r = \<lparr> old_public_key = kp_public (keypair_of X sk), old_key_epoch = e \<rparr> \<and>
    rot_new r = \<lparr> new_public_key = kp_public (keypair_of X sk'), new_key_agreement_public = public_string X (bundle_agreement b),
      new_key_epoch = e + 1 \<rparr> \<and>
    sig_old r = own_signature X sk (rot_signing_bytes X r) \<and> sig_new r = own_signature X sk' (rot_signing_bytes X r)"
  using assms by (auto simp: rot_create_signed_def Let_def rot_signing_bytes_def rot_text_def)

lemma rot_verify_iff:
  "rot_verify X r \<longleftrightarrow> rot_kind r = ROTATION_KIND \<and> unat (new_key_epoch (rot_new r)) = unat (old_key_epoch (rot_old r)) + 1 \<and>
     verify_manifest X (old_public_key (rot_old r)) (rot_signing_bytes X r) (sig_old r) = Inr True \<and>
     verify_manifest X (new_public_key (rot_new r)) (rot_signing_bytes X r) (sig_new r) = Inr True"
  by (auto simp: rot_verify_def Let_def checked_succ_iff)

lemma rot_created_verifies:
  assumes "ed_ok X" "b64_ok X" "rot_create_signed X (keypair_of X sk) e b q p t = Inr r" "bundle_signing b = keypair_of X sk'"
  shows "rot_verify X r \<longleftrightarrow> unat e + 1 < 2 ^ 32"
proof -
  note c = rot_created [OF assms(3,4)]
  have "unat (e + 1) = unat e + 1 \<longleftrightarrow> unat e + 1 < 2 ^ 32"
    using checked_succ_iff [of e "e + 1"] by (auto simp: checked_succ_u32_def split: if_splits)
  then show ?thesis using c verify_own_signature [OF assms(1,2)] by (simp add: rot_verify_iff)
qed

lemma wr_created:
  "wr_create_signed X (keypair_of X sk) q t a = Inr w \<Longrightarrow>
     wr_device_pub w = kp_public (keypair_of X sk) \<and> wr_sequence w = q \<and> wr_tip w = t \<and> wr_signed_at w = a \<and> wr_rotation w = None \<and>
     wr_signature w = own_signature X sk (wr_signing_bytes X w)"
  by (auto simp: wr_create_signed_def Let_def wr_signing_bytes_def wr_text_def)

lemma tmp_sibling_neq [simp]: "tmp_sibling p \<noteq> p" "p \<noteq> tmp_sibling p"
proof -
  show "tmp_sibling p \<noteq> p"
  proof (cases p)
    case (Pair d n)
    then show ?thesis by (cases n) (auto simp: tmp_sibling_def)
  qed
  then show "p \<noteq> tmp_sibling p" by metis
qed

lemma last_op_write: "last (op_states F (WriteFile p b)) = F(p := Some b)"
  by simp

lemma save_states_run:
  "run_states F (save_ops path b) =
     map (\<lambda>n. F(tmp_sibling path := Some (take n b))) [0..<Suc (length b)] @
     [F(tmp_sibling path := Some b), F(path := Some b, tmp_sibling path := None)]"
proof -
  have "(F(tmp_sibling path := Some b))(path := Some b, tmp_sibling path := None) = F(path := Some b, tmp_sibling path := None)"
    by (auto simp: fun_eq_iff)
  then show ?thesis
    unfolding save_ops_def run_states.simps Let_def last_op_write by simp
qed

section \<open>Concrete instances\<close>

definition sample_rotation :: RotationRecord where
  "sample_rotation = \<lparr> rot_version = ''0.2.0'', rot_kind = ROTATION_KIND, rot_sequence = 3, rot_prev = ''b3:00'',
     rot_old = \<lparr> old_public_key = ''a'', old_key_epoch = 0 \<rparr>,
     rot_new = \<lparr> new_public_key = ''b'', new_key_agreement_public = ''c'', new_key_epoch = 1 \<rparr>,
     rotated_at = ''t'', sig_old = [], sig_new = [] \<rparr>"

definition sample_state_json :: state_json where
  "sample_state_json = \<lparr>
     state_print = (\<lambda>s. Inr (sample_join [cs_device_pub s, show_nat (unat (cs_sequence s)), cs_tip s,
       show_nat (unat (cs_key_epoch s)), cs_updated_at s])),
     state_parse = (\<lambda>b. case sample_split 5 (bytes_str b) of
       [p, n, t, e, u] \<Rightarrow> Inr (p, word_of_nat (read_nat n), t, Some (word_of_nat (read_nat e)), u) | _ \<Rightarrow> Inl ''syntax'') \<rparr>"

lemma sample_state_json_ok: "state_json_ok sample_state_json"
  by (simp add: state_json_ok_def sample_state_json_def sample_split_join)

section \<open>Properties\<close>

text \<open>
  C12: what a signature covers cannot be reinterpreted. The signed bytes of two rotation records agree
  exactly when the records agree outside their signatures, those of two witness requests exactly when the four signed fields
  agree, and no manifest, rotation record and witness request share their signed bytes, so a signature
  over one kind is never one over another.
\<close>

theorem signed_bytes_separate:
  assumes "json_ok X"
  shows "(rot_signing_bytes X r = rot_signing_bytes X s \<longleftrightarrow>
      r\<lparr> sig_old := [], sig_new := [] \<rparr> = s\<lparr> sig_old := [], sig_new := [] \<rparr>) \<and>
    (wr_signing_bytes X v = wr_signing_bytes X w \<longleftrightarrow>
      (wr_device_pub v, wr_sequence v, wr_tip v, wr_signed_at v) = (wr_device_pub w, wr_sequence w, wr_tip w, wr_signed_at w)) \<and>
    rot_signing_bytes X r \<noteq> wr_signing_bytes X w \<and> to_canonical_bytes X m \<noteq> wr_signing_bytes X w \<and>
    to_canonical_bytes X m \<noteq> rot_signing_bytes X r"
proof (intro conjI)
  have strip: "rot_text X (r\<lparr> sig_old := [], sig_new := [] \<rparr>) = rot_text X r" for r
    by (simp add: rot_text_def)
  show "rot_signing_bytes X r = rot_signing_bytes X s \<longleftrightarrow>
      r\<lparr> sig_old := [], sig_new := [] \<rparr> = s\<lparr> sig_old := [], sig_new := [] \<rparr>"
    unfolding rot_signing_bytes_def str_bytes_inj using rot_text_split [OF assms, of r s] strip [of r] strip [of s] by metis
  show "wr_signing_bytes X v = wr_signing_bytes X w \<longleftrightarrow>
      (wr_device_pub v, wr_sequence v, wr_tip v, wr_signed_at v) = (wr_device_pub w, wr_sequence w, wr_tip w, wr_signed_at w)"
    unfolding wr_signing_bytes_def str_bytes_inj wr_text_split [OF assms] by simp
qed (simp_all only: rot_signing_bytes_def wr_signing_bytes_def to_canonical_bytes_def str_bytes_inj texts_differ [OF assms] not_False_eq_True)

theorem signed_bytes_separate_witness:
  "to_canonical_bytes sample_crates manifest_new \<noteq> rot_signing_bytes sample_crates sample_rotation"
  using signed_bytes_separate [OF sample_json_ok] by blast

lemma wr_created_verifies:
  assumes "ed_ok X" "b64_ok X"
  shows "\<exists>w. wr_create_signed X (keypair_of X sk) q p t = Inr w \<and> wr_verify X w"
proof -
  have "\<exists>w. wr_create_signed X (keypair_of X sk) q p t = Inr w" by (simp add: wr_create_signed_def Let_def)
  then obtain w where w: "wr_create_signed X (keypair_of X sk) q p t = Inr w" ..
  with wr_created [OF w] verify_own_signature [OF assms] show ?thesis by (auto simp: wr_verify_def)
qed

text \<open>
  C13: rotations are authorised by both keys. \<open>verify\<close> accepts a record exactly when its kind is
  \<^verbatim>\<open>rotation\<close>, the epoch grows by exactly one without wrapping, and both signatures are valid over the same bytes; what
  \<open>create_signed\<close> makes from an epoch below the maximum is accepted, at the maximum it is refused; and an honest witness request
  verifies.
\<close>

theorem rotation_verify_exact:
  assumes "ed_ok X" "b64_ok X" "bundle_signing b = keypair_of X sk'"
  shows "(rot_verify X r \<longleftrightarrow> rot_kind r = ''rotation'' \<and>
      unat (new_key_epoch (rot_new r)) = unat (old_key_epoch (rot_old r)) + 1 \<and>
      verify_manifest X (old_public_key (rot_old r)) (rot_signing_bytes X r) (sig_old r) = Inr True \<and>
      verify_manifest X (new_public_key (rot_new r)) (rot_signing_bytes X r) (sig_new r) = Inr True) \<and>
    (\<exists>c. rot_create_signed X (keypair_of X sk) e b q p t = Inr c \<and> (rot_verify X c \<longleftrightarrow> unat e < 4294967295)) \<and>
    (\<exists>w. wr_create_signed X (keypair_of X sk) q p t = Inr w \<and> wr_verify X w)"
proof (intro conjI)
  have "\<exists>c. rot_create_signed X (keypair_of X sk) e b q p t = Inr c"
    by (simp add: rot_create_signed_def Let_def assms(3))
  with rot_created_verifies [OF assms(1,2) _ assms(3)]
  show "\<exists>c. rot_create_signed X (keypair_of X sk) e b q p t = Inr c \<and> (rot_verify X c \<longleftrightarrow> unat e < 4294967295)"
    by fastforce
  show "\<exists>w. wr_create_signed X (keypair_of X sk) q p t = Inr w \<and> wr_verify X w"
    by (rule wr_created_verifies [OF assms(1,2)])
qed (simp add: rot_verify_iff ROTATION_KIND_def)

theorem rotation_verify_exact_witness:
  "\<exists>c. rot_create_signed sample_kw (keypair_of sample_kw (replicate 32 7)) 4 (bundle_generate sample_kw (replicate 32 8) (replicate 32 9))
       6 ''b3:00'' ''t'' = Inr c \<and> rot_verify sample_kw c"
proof -
  have "bundle_signing (bundle_generate sample_kw (replicate 32 8) (replicate 32 9)) = keypair_of sample_kw (replicate 32 8)"
    by (simp add: bundle_generate_def generate_def)
  from rotation_verify_exact [OF sample_kw_ed_ok sample_kw_oks(1) this, of undefined _ 4] show ?thesis by auto
qed

text \<open>
  C23: saving the chronicle head is atomic. In every state that a crash or a concurrent reader can
  see while \<open>save\<close> runs, the state file holds its complete old content or the complete new state, which loads again;
  no file but it and its temporary sibling changes, and afterwards the temporary file is gone.
\<close>

theorem save_atomic:
  assumes "state_json_ok J" "save_states J F path s = Inr states"
  shows "(\<forall>G \<in> set (F # states). (G path = F path \<or> state_load J G path = Inr s) \<and>
      (\<forall>q. q \<noteq> path \<longrightarrow> q \<noteq> tmp_sibling path \<longrightarrow> G q = F q)) \<and>
    (\<exists>G. state_save J F path s = Inr G \<and> state_load J G path = Inr s \<and> G (tmp_sibling path) = None)"
proof -
  from assms(2) obtain json where j: "state_print J s = Inr json"
    and st: "states = run_states F (save_ops path (str_bytes json))"
    by (auto simp: save_states_def res_simps)
  have load: "state_load J G path = Inr s" if "G path = Some (str_bytes json)" for G
    using that assms(1) j by (simp add: state_load_def state_json_ok_def)
  show ?thesis
    using load by (auto simp: st save_states_run state_save_def save_states_def j)
qed

theorem save_atomic_witness:
  "\<exists>G. state_save sample_state_json Map.empty (''dir'', Some ''device.chronicle'')
       \<lparr> cs_device_pub = ''k'', cs_sequence = 3, cs_tip = ''b3:aa'', cs_key_epoch = 0, cs_updated_at = ''t'' \<rparr> = Inr G \<and>
     state_load sample_state_json G (''dir'', Some ''device.chronicle'') = Inr
       \<lparr> cs_device_pub = ''k'', cs_sequence = 3, cs_tip = ''b3:aa'', cs_key_epoch = 0, cs_updated_at = ''t'' \<rparr>"
proof -
  have "\<exists>states. save_states sample_state_json F p s = Inr states" for F p s
    by (simp add: save_states_def sample_state_json_def)
  then obtain states where "save_states sample_state_json Map.empty (''dir'', Some ''device.chronicle'')
       \<lparr> cs_device_pub = ''k'', cs_sequence = 3, cs_tip = ''b3:aa'', cs_key_epoch = 0, cs_updated_at = ''t'' \<rparr> = Inr states"
    by blast
  from save_atomic [OF sample_state_json_ok this] show ?thesis by blast
qed

end
