(* ===== verification/Seal_Common.thy ===== *)
theory Seal_Common
  imports Chronicle
begin

text \<open>
  What the commands of \<^verbatim>\<open>crates/seal-cli/src/main.rs\<close> share: the texts of the library's errors, the error that carries an exit
  code, version dispatch, key normalisation and the loading of key files. Console output is not modelled; a
  passphrase prompt is an argument with its answer.
\<close>

section \<open>Error texts\<close>

fun crypto_error_text :: "CryptoError \<Rightarrow> string" where
  "crypto_error_text (InvalidKeyFormat e) = ''Invalid key format: '' @ e"
| "crypto_error_text (InvalidSignatureFormat e) = ''Invalid signature format: '' @ e"
| "crypto_error_text (EncryptionFailed e) = ''Encryption failed: '' @ e"
| "crypto_error_text (DecryptionFailed e) = ''Decryption failed: '' @ e"
| "crypto_error_text SignatureVerificationFailed = ''Signature verification failed''"
| "crypto_error_text (KeyGenerationFailed e) = ''Key generation failed: '' @ e"
| "crypto_error_text (InvalidNonceFormat e) = ''Invalid nonce format: '' @ e"

fun chain_error_text :: "ChainError \<Rightarrow> string" where
  "chain_error_text (Gap i) = ''Gap in chain at segment index '' @ show_nat i"
| "chain_error_text (OutOfOrder expected found) =
     ''Segments out of order: expected continuity hash '' @ expected @ '', found '' @ found"
| "chain_error_text EndOfChainTruncated = ''End of chain truncated''"

fun archive_error_text :: "ArchiveError \<Rightarrow> string" where
  "archive_error_text (Io e) = ''IO error: '' @ e"
| "archive_error_text (ManifestE e) = ''Manifest error: '' @ manifest_error_text e"
| "archive_error_text (Json e) = ''JSON error: '' @ e"
| "archive_error_text (SchemaMismatch e) = ''Schema mismatch: '' @ e"
| "archive_error_text (MissingChunk e) = ''Missing chunk file: '' @ e"
| "archive_error_text (UnreferencedChunk e) = ''Unreferenced chunk file in archive: '' @ e"
| "archive_error_text (InvalidChunkIndex expected found) =
     ''Invalid chunk index: expected '' @ show_nat expected @ '', found '' @ show_nat found"
| "archive_error_text SignatureMismatch = ''Signature mismatch: manifest.signature does not match signatures/manifest.sig''"
| "archive_error_text (ChainE e) = ''Continuity chain error: '' @ chain_error_text e"
| "archive_error_text (ValidationFailed e) = ''Archive validation failed: '' @ e"

section \<open>Exit codes\<close>

datatype cli_error = CliExitError int string | Anyhow anyhow

definition exit_code :: "cli_error + unit \<Rightarrow> int" where
  "exit_code r = (case r of Inr _ \<Rightarrow> 0 | Inl (CliExitError code _) \<Rightarrow> code | Inl (Anyhow _) \<Rightarrow> 1)"

definition bail :: "string \<Rightarrow> cli_error + 'a" where
  "bail msg = Inl (Anyhow [msg])"

text \<open>The question mark on a library error, with and without a context.\<close>

definition try_crypto :: "CryptoError + 'a \<Rightarrow> cli_error + 'a" where
  "try_crypto r = map_err (\<lambda>e. Anyhow [crypto_error_text e]) r"

definition try_archive :: "string \<Rightarrow> ArchiveError + 'a \<Rightarrow> cli_error + 'a" where
  "try_archive ctx r = map_err (\<lambda>e. Anyhow [ctx, archive_error_text e]) r"

section \<open>Small helpers\<close>

definition require_supported_version :: "string \<Rightarrow> anyhow + unit" where
  "require_supported_version v =
     (if v = ''0.2.0'' then Inr ()
      else if v = ''0.1.0''
      then Inl [''unsupported legacy archive format 0.1.0 (pre-C4); re-wrap with a current seal build'']
      else Inl [''unsupported archive version '' @ v @ ''; upgrade the seal tool''])"

definition normalize_device_pub :: "string \<Rightarrow> string" where
  "normalize_device_pub k =
     (if starts_with ''ed25519:'' k \<or> starts_with ''ecdsa-p256:'' k then k else ''ed25519:'' @ k)"

fun manifest_started_at :: "ProfileMetadata \<Rightarrow> string" where
  "manifest_started_at (CamVideo m) = cv_started_at m"
| "manifest_started_at (Sensor m) = se_started_at m"
| "manifest_started_at (Audio m) = au_started_at m"
| "manifest_started_at (Log m) = lo_started_at m"
| "manifest_started_at (Generic m) = ge_started_at m"

definition pub_key_to_device_id :: "'x crates_scheme \<Rightarrow> string \<Rightarrow> anyhow + string" where
  "pub_key_to_device_id X pub_key_str =
     res_bind (case strip_prefix ''ed25519:'' pub_key_str of
         Some rest \<Rightarrow> Inr rest
       | None \<Rightarrow> (case strip_prefix ''ecdsa-p256:'' pub_key_str of
           Some rest \<Rightarrow> Inr rest
         | None \<Rightarrow> Inl [''Unrecognized public key prefix in: '' @ pub_key_str])) (\<lambda>raw_b64.
     res_bind (map_err (\<lambda>e. [''Failed to decode public key bytes for device_id'', e]) (b64_decode X raw_b64)) (\<lambda>key_bytes.
     if length key_bytes < 6
     then Inl [''Public key bytes too short for device_id (got '' @ show_nat (length key_bytes) @ '' bytes)'']
     else Inr (''te:cam:'' @ hex_encode X (take 6 key_bytes))))"

text \<open>
  The reader delivers pieces of any size; \<open>read_exact_or_eof\<close> fills its buffer from them. The second
  component is what the reader still has.
\<close>

fun read_exact_or_eof :: "nat \<Rightarrow> bytes \<Rightarrow> bytes list \<Rightarrow> bytes \<times> bytes list" where
  "read_exact_or_eof sz buf [] = (buf, [])"
| "read_exact_or_eof sz buf (piece # rest) =
     (if sz \<le> length buf then (buf, piece # rest)
      else if piece = [] then (buf, rest)
      else let n = sz - length buf in
        if length piece \<le> n then read_exact_or_eof sz (buf @ piece) rest
        else (buf @ take n piece, drop n piece # rest))"

section \<open>Trimming\<close>

text \<open>
  \<^verbatim>\<open>str::trim\<close> removes the characters with the Unicode property White_Space at both ends; the list
  holds their UTF-8 forms.
\<close>

definition white_space :: "string list" where
  "white_space = map (\<lambda>n. [char_of (n :: nat)]) [9, 10, 11, 12, 13, 32] @
     map (map (char_of :: nat \<Rightarrow> char))
       ([[0xC2, 0x85], [0xC2, 0xA0], [0xE1, 0x9A, 0x80]] @ map (\<lambda>n. [0xE2, 0x80, n]) [0x80..<0x8B] @
        [[0xE2, 0x80, 0xA8], [0xE2, 0x80, 0xA9], [0xE2, 0x80, 0xAF], [0xE2, 0x81, 0x9F], [0xE3, 0x80, 0x80]])"

definition ws_len :: "string list \<Rightarrow> string \<Rightarrow> nat" where
  "ws_len ws s = (case find (\<lambda>w. starts_with w s) ws of None \<Rightarrow> 0 | Some w \<Rightarrow> length w)"

function trim_start :: "string list \<Rightarrow> string \<Rightarrow> string" where
  "trim_start ws s = (if s = [] \<or> ws_len ws s = 0 then s else trim_start ws (drop (ws_len ws s) s))"
  by pat_completeness auto
termination
  by (relation "measure (length \<circ> snd)") auto

declare trim_start.simps [simp del]

definition trim :: "string \<Rightarrow> string" where
  "trim s = rev (trim_start (map rev white_space) (rev (trim_start white_space s)))"

section \<open>Key files\<close>

definition bytes_start_with :: "bytes \<Rightarrow> bytes \<Rightarrow> bool" where
  "bytes_start_with p b \<longleftrightarrow> take (length p) b = p"

text \<open>
  \<open>prompt\<close> is the answer of the terminal to the passphrase prompt; the file is \<open>None\<close> when it is missing.
\<close>

definition read_key_file :: "string \<Rightarrow> bytes option \<Rightarrow> cli_error + bytes" where
  "read_key_file path f =
     ok_or (Anyhow [''failed to read device key '' @ squoted path, ''No such file or directory (os error 2)'']) f"

definition read_prompt :: "string + string \<Rightarrow> cli_error + string" where
  "read_prompt prompt = map_err (\<lambda>e. Anyhow [''Failed to read passphrase'', e]) prompt"

definition load_bundle ::
  "'x kw_crates_scheme \<Rightarrow> sealed_meta \<Rightarrow> bundle_json \<Rightarrow> string \<Rightarrow> bytes option \<Rightarrow> bool \<Rightarrow> string + string \<Rightarrow> cli_error + DeviceBundle" where
  "load_bundle X J B path f unencrypted prompt =
     res_bind (read_key_file path f) (\<lambda>b.
     if bytes_start_with (str_bytes BUNDLE_HEADER_V2 @ [10]) b
     then (if unencrypted then bail ''Cannot use --unencrypted with an encrypted key bundle''
       else res_bind (read_prompt prompt) (\<lambda>passphrase.
         map_err (\<lambda>e. Anyhow [''Failed to decrypt key bundle: '' @ crypto_error_text e]) (import_encrypted X J B b passphrase)))
     else
       (case (if unencrypted then (case from_utf8 b of None \<Rightarrow> Inl (InvalidKeyFormat []) | Some s \<Rightarrow> from_plaintext X B (trim s))
              else Inl (InvalidKeyFormat [])) of
          Inr bundle \<Rightarrow> Inr bundle
        | Inl _ \<Rightarrow>
            if is_encrypted_key_file b \<or> bytes_start_with (str_bytes ''ed25519:'') b
            then bail (''Legacy V1 key file detected. C4 archives need a V2 key bundle (Ed25519 + X25519). '' @
              ''Run `seal keygen` to generate a new SEALEDGE-KEY-V2 bundle.'')
            else bail ''Unrecognized key file format (expected SEALEDGE-KEY-V2)''))"

definition load_signing_keypair ::
  "'x kw_crates_scheme \<Rightarrow> key_meta \<Rightarrow> sealed_meta \<Rightarrow> bundle_json \<Rightarrow> string \<Rightarrow> bytes option \<Rightarrow> bool \<Rightarrow> string + string \<Rightarrow>
     cli_error + DeviceKeypair" where
  "load_signing_keypair X K J B path f unencrypted prompt =
     res_bind (read_key_file path f) (\<lambda>b.
     if bytes_start_with (str_bytes BUNDLE_HEADER_V2 @ [10]) b
     then (if unencrypted then bail ''Cannot use --unencrypted with an encrypted key bundle''
       else res_bind (read_prompt prompt) (\<lambda>passphrase.
         map_err (\<lambda>e. Anyhow [''Failed to decrypt key bundle: '' @ crypto_error_text e])
           (res_bind (import_encrypted X J B b passphrase) (\<lambda>bundle. Inr (bundle_signing bundle)))))
     else if unencrypted then
       res_bind (ok_or (Anyhow [''unencrypted key file is not valid UTF-8'']) (from_utf8 b)) (\<lambda>contents.
       case from_plaintext X B (trim contents) of
         Inr bundle \<Rightarrow> Inr (bundle_signing bundle)
       | Inl _ \<Rightarrow> map_err (\<lambda>e. Anyhow [''Failed to import key: '' @ crypto_error_text e]) (import_secret X (trim contents)))
     else if is_encrypted_key_file b then
       res_bind (read_prompt prompt) (\<lambda>passphrase.
       map_err (\<lambda>e. Anyhow [''Failed to decrypt key: '' @ crypto_error_text e]) (import_secret_encrypted X K b passphrase))
     else bail ''Key file is not encrypted. Use --unencrypted to bypass.'')"

section \<open>Lemmas\<close>

lemma concat_pieces:
  "read_exact_or_eof sz buf ps = (b, qs) \<Longrightarrow> [] \<notin> set ps \<Longrightarrow> length buf \<le> sz \<Longrightarrow>
     b = buf @ take (sz - length buf) (concat ps) \<and> concat qs = drop (sz - length buf) (concat ps) \<and> [] \<notin> set qs"
proof (induction ps arbitrary: buf)
  case (Cons p ps)
  show ?case
  proof (cases "sz \<le> length buf \<or> sz - length buf < length p")
    case True
    then show ?thesis using Cons.prems by (auto simp: Let_def split: if_splits)
  next
    case False
    then have "read_exact_or_eof sz (buf @ p) ps = (b, qs)" using Cons.prems by (auto simp: Let_def)
    moreover have "length (buf @ p) \<le> sz" using False by auto
    ultimately show ?thesis using Cons.IH [of "buf @ p"] Cons.prems(2) False by auto
  qed
qed simp

end
