(* ===== verification/Json_Value.thy ===== *)
theory Json_Value
  imports Crates F64_Display
begin

text \<open>
  JSON values as \<^verbatim>\<open>serde_json::Value\<close> has them, with the accessors the code calls. Parsing and
  printing is serde_json's and base64url is the base64 crate's: both are parameters in the record \<open>web\<close>.
\<close>

datatype json = JNull | JBool bool | JU64 u64 | JNeg u64 | JF64 f64 | JStr string | JArr "json list" | JObj "(string \<times> json) list"

fun json_get :: "json \<Rightarrow> string \<Rightarrow> json option" where
  "json_get (JObj kvs) k = map_of kvs k"
| "json_get _ k = None"

fun as_str :: "json \<Rightarrow> string option" where
  "as_str (JStr s) = Some s"
| "as_str _ = None"

fun as_u64 :: "json \<Rightarrow> u64 option" where
  "as_u64 (JU64 n) = Some n"
| "as_u64 _ = None"

fun as_bool :: "json \<Rightarrow> bool option" where
  "as_bool (JBool b) = Some b"
| "as_bool _ = None"

fun as_array :: "json \<Rightarrow> json list option" where
  "as_array (JArr xs) = Some xs"
| "as_array _ = None"

definition get_str :: "json \<Rightarrow> string \<Rightarrow> string option" where
  "get_str j k = Option.bind (json_get j k) as_str"

definition get_u64 :: "json \<Rightarrow> string \<Rightarrow> u64 option" where
  "get_u64 j k = Option.bind (json_get j k) as_u64"

definition get_array :: "json \<Rightarrow> string \<Rightarrow> json list option" where
  "get_array j k = Option.bind (json_get j k) as_array"

record web =
  json_parse :: "bytes \<Rightarrow> string + json"
  json_print :: "json \<Rightarrow> string"
  b64u_encode :: "bytes \<Rightarrow> string"
  b64u_decode :: "string \<Rightarrow> string + bytes"

end
