(* ===== verification/Verify_Chronicle.thy ===== *)
theory Verify_Chronicle
  imports Seal_Common Json_Value "HOL-Library.List_Lexorder" "HOL-Library.Char_ord"
begin

text \<open>
  \<^verbatim>\<open>seal verify-chronicle\<close> of \<^verbatim>\<open>crates/seal-cli/src/main.rs\<close>: collecting the entries, order and linkage, the walk over the
  active identity, and the cross-check against a witness receipt. A directory is a record of the files the command looks
  at. Reading the receipt file and the key set are arguments with their results.
\<close>

section \<open>Entries\<close>

record rot_json =
  rot_print :: "RotationRecord \<Rightarrow> string + string"
  rot_parse :: "bytes \<Rightarrow> string + RotationRecord"

record entry_dir =
  ed_archive :: archive_dir
  ed_rotation :: "bytes option"

definition ed_path :: "entry_dir \<Rightarrow> string" where
  "ed_path d = base_path (ed_archive d)"

definition is_chronicle_entry_dir :: "entry_dir \<Rightarrow> bool" where
  "is_chronicle_entry_dir d \<longleftrightarrow> manifest_file (ed_archive d) \<noteq> None \<or> ed_rotation d \<noteq> None"

text \<open>An argument names a directory, with its own files and its sub-directories, or nothing that can be used.\<close>

datatype fs_node = DirNode entry_dir "entry_dir list" | OtherNode string

fun collect_archive_dirs :: "fs_node list \<Rightarrow> cli_error + entry_dir list" where
  "collect_archive_dirs [] = Inr []"
| "collect_archive_dirs (DirNode d children # ps) =
     res_bind (collect_archive_dirs ps) (\<lambda>rest.
     Inr ((if is_chronicle_entry_dir d then [d] else sort_key ed_path (filter is_chronicle_entry_dir children)) @ rest))"
| "collect_archive_dirs (OtherNode p # ps) = bail (''not a .seal archive or directory: '' @ p)"

definition read_rotation :: "rot_json \<Rightarrow> entry_dir \<Rightarrow> anyhow + RotationRecord" where
  "read_rotation R d =
     (let path = ed_path d @ ''/rotation.json'' in
      case ed_rotation d of
        None \<Rightarrow> Inl [''Failed to read rotation entry: '' @ path, ''No such file or directory (os error 2)'']
      | Some b \<Rightarrow> map_err (\<lambda>e. [''Malformed rotation entry: '' @ path, e]) (rot_parse R b))"

datatype EntryKind = ArchiveEntry TrstManifest | RotationEntry RotationRecord

record Entry =
  ce_seq :: u64
  ce_digest :: bytes
  ce_prev :: "string option"
  ce_dir :: entry_dir
  ce_kind :: EntryKind

abbreviation ce_path :: "Entry \<Rightarrow> string" where
  "ce_path e \<equiv> ed_path (ce_dir e)"

definition read_entry :: "'x crates_scheme \<Rightarrow> man_json \<Rightarrow> rot_json \<Rightarrow> entry_dir \<Rightarrow> cli_error + Entry" where
  "read_entry X J R d =
     (let fail12 = (\<lambda>e. CliExitError 12 (ed_path d @ '': '' @ hd e)) in
      if ed_rotation d \<noteq> None
      then
        res_bind (map_err fail12 (read_rotation R d)) (\<lambda>record.
        res_bind (map_err fail12 (require_supported_version (rot_version record))) (\<lambda>_.
        Inr \<lparr> ce_seq = rot_sequence record, ce_digest = rot_archive_digest X record, ce_prev = Some (rot_prev record),
          ce_dir = d, ce_kind = RotationEntry record \<rparr>))
      else
        res_bind (map_err (\<lambda>e. CliExitError 12 (ed_path d @ '': archive read failed: '' @ archive_error_text e))
          (read_manifest J (ed_archive d))) (\<lambda>(manifest, _).
        res_bind (map_err fail12 (require_supported_version (trst_version manifest))) (\<lambda>_.
        res_bind (ok_or (CliExitError 13 (ed_path d @ '': not a chronicle archive (no sequence)'')) (sequence manifest)) (\<lambda>seq.
        Inr \<lparr> ce_seq = seq, ce_digest = archive_digest X manifest, ce_prev = prev_archive_hash manifest,
          ce_dir = d, ce_kind = ArchiveEntry manifest \<rparr>))))"

fun read_entries :: "'x crates_scheme \<Rightarrow> man_json \<Rightarrow> rot_json \<Rightarrow> entry_dir list \<Rightarrow> cli_error + Entry list" where
  "read_entries X J R [] = Inr []"
| "read_entries X J R (d # ds) =
     res_bind (read_entry X J R d) (\<lambda>e. res_bind (read_entries X J R ds) (\<lambda>es. Inr (e # es)))"

section \<open>Order and linkage\<close>

fun check_contiguity :: "nat \<Rightarrow> Entry list \<Rightarrow> cli_error + unit" where
  "check_contiguity i [] = Inr ()"
| "check_contiguity i (e # es) =
     (if ce_seq e \<noteq> word_of_nat i
      then Inl (CliExitError 13 (''chronicle gap/disorder: expected sequence '' @ show_nat i @ '', found '' @
        show_nat (unat (ce_seq e)) @ '' ('' @ ce_path e @ '')''))
      else check_contiguity (Suc i) es)"

definition check_genesis :: "Entry \<Rightarrow> cli_error + unit" where
  "check_genesis e =
     (case ce_kind e of
        RotationEntry _ \<Rightarrow> Inl (CliExitError 13 ''genesis (sequence 0) must be a content archive, not a rotation'')
      | ArchiveEntry _ \<Rightarrow>
          (case ce_prev e of
             Some prev \<Rightarrow> Inl (CliExitError 13 (''genesis (sequence 0) must not set prev_archive_hash ('' @ prev @ '')''))
           | None \<Rightarrow> Inr ()))"

text \<open>The loop over neighbours: \<open>p\<close> is the entry before the rest.\<close>

fun check_linkage :: "'x crates_scheme \<Rightarrow> Entry \<Rightarrow> Entry list \<Rightarrow> cli_error + unit" where
  "check_linkage X p [] = Inr ()"
| "check_linkage X p (e # es) =
     (let expected = format_archive_id X (ce_digest p) in
      case ce_prev e of
        Some h \<Rightarrow>
          if h = expected then check_linkage X e es
          else Inl (CliExitError 13 (''broken chronicle link at sequence '' @ show_nat (unat (ce_seq e)) @ '': prev='' @ h @
            '', expected='' @ expected))
      | None \<Rightarrow> Inl (CliExitError 13 (''missing prev_archive_hash at sequence '' @ show_nat (unat (ce_seq e)))))"

section \<open>The active identity\<close>

record walk =
  active_signer :: string
  active_epoch :: u32
  rotations :: nat
  signer_at_seq :: "string list"

definition walk_archive :: "'x crates_scheme \<Rightarrow> man_json \<Rightarrow> walk \<Rightarrow> Entry \<Rightarrow> TrstManifest \<Rightarrow> cli_error + unit" where
  "walk_archive X J w e m =
     (let epoch = (case key_epoch (device m) of None \<Rightarrow> 0 | Some k \<Rightarrow> k) in
      if public_key (device m) \<noteq> active_signer w
      then Inl (CliExitError 10 (ce_path e @ '': signed by '' @ public_key (device m) @ '', but the active identity at sequence '' @
        show_nat (unat (ce_seq e)) @ '' is '' @ active_signer w))
      else if epoch \<noteq> active_epoch w
      then Inl (CliExitError 13 (ce_path e @ '': key_epoch '' @ show_nat (unat epoch) @ '' does not match the active epoch '' @
        show_nat (unat (active_epoch w)) @ '' at sequence '' @ show_nat (unat (ce_seq e))))
      else
      res_bind (ok_or (CliExitError 12 (ce_path e @ '': manifest missing signature'')) (man_signature m)) (\<lambda>sig.
      res_bind (map_err (\<lambda>err. CliExitError 10 (ce_path e @ '': signature error: '' @ crypto_error_text err))
        (verify_manifest X (active_signer w) (to_canonical_bytes X m) sig)) (\<lambda>sig_ok.
      if \<not> sig_ok then Inl (CliExitError 10 (ce_path e @ '': signature verification failed''))
      else map_err (\<lambda>err. CliExitError 11 (ce_path e @ '': continuity failed: '' @ archive_error_text err))
        (validate_archive X J (ed_archive (ce_dir e))))))"

definition walk_rotation :: "'x crates_scheme \<Rightarrow> walk \<Rightarrow> Entry \<Rightarrow> RotationRecord \<Rightarrow> cli_error + walk" where
  "walk_rotation X w e r =
     (if old_public_key (rot_old r) \<noteq> active_signer w
      then Inl (CliExitError 13 (ce_path e @ '': rotation supersedes '' @ old_public_key (rot_old r) @
        '', but the active identity at sequence '' @ show_nat (unat (ce_seq e)) @ '' is '' @ active_signer w))
      else if old_key_epoch (rot_old r) \<noteq> active_epoch w
      then Inl (CliExitError 13 (ce_path e @ '': rotation old epoch '' @ show_nat (unat (old_key_epoch (rot_old r))) @
        '' does not match active epoch '' @ show_nat (unat (active_epoch w)) @ '' at sequence '' @ show_nat (unat (ce_seq e))))
      else if \<not> rot_verify X r
      then Inl (CliExitError 10 (ce_path e @ '': rotation co-signature/epoch verification failed''))
      else Inr (w\<lparr> active_signer := new_public_key (rot_new r), active_epoch := new_key_epoch (rot_new r),
        rotations := rotations w + 1 \<rparr>))"

definition walk_entry :: "'x crates_scheme \<Rightarrow> man_json \<Rightarrow> walk \<Rightarrow> Entry \<Rightarrow> cli_error + walk" where
  "walk_entry X J w e =
     res_bind (case ce_kind e of
         ArchiveEntry m \<Rightarrow> res_bind (walk_archive X J w e m) (\<lambda>_. Inr w)
       | RotationEntry r \<Rightarrow> walk_rotation X w e r) (\<lambda>v.
     Inr (v\<lparr> signer_at_seq := signer_at_seq v @ [active_signer v] \<rparr>))"

fun walk_entries :: "'x crates_scheme \<Rightarrow> man_json \<Rightarrow> walk \<Rightarrow> Entry list \<Rightarrow> cli_error + walk" where
  "walk_entries X J w [] = Inr w"
| "walk_entries X J w (e # es) = res_bind (walk_entry X J w e) (\<lambda>v. walk_entries X J v es)"

definition walk_start :: "string \<Rightarrow> walk" where
  "walk_start pub = \<lparr> active_signer = pub, active_epoch = 0, rotations = 0, signer_at_seq = [] \<rparr>"

text \<open>
  All checks on the sorted entries. The first entry exists because an empty list was refused before.
\<close>

definition verify_entries :: "'x crates_scheme \<Rightarrow> man_json \<Rightarrow> string \<Rightarrow> Entry list \<Rightarrow> cli_error + walk" where
  "verify_entries X J pub es =
     res_bind (check_contiguity 0 es) (\<lambda>_.
     res_bind (check_genesis (hd es)) (\<lambda>_.
     res_bind (check_linkage X (hd es) (tl es)) (\<lambda>_.
     walk_entries X J (walk_start pub) es)))"

section \<open>The witness receipt\<close>

text \<open>\<^verbatim>\<open>token.trim().split('.')\<close>.\<close>

fun split_dots :: "string \<Rightarrow> string list" where
  "split_dots [] = [[]]"
| "split_dots (c # s) =
     (if c = CHR ''.'' then [] # split_dots s
      else (case split_dots s of [] \<Rightarrow> [[c]] | p # ps \<Rightarrow> (c # p) # ps))"

definition receipt_body :: "json \<Rightarrow> anyhow + (string \<times> u64 \<times> string)" where
  "receipt_body claim =
     (let body = (case json_get claim ''witness'' of None \<Rightarrow> claim | Some b \<Rightarrow> b) in
      res_bind (ok_or [''witness receipt missing device identity (device_pub/sub)'']
        (case get_str body ''device_pub'' of Some d \<Rightarrow> Some d | None \<Rightarrow> get_str claim ''sub'')) (\<lambda>device_pub.
      res_bind (ok_or [''witness receipt missing '' @ squoted ''sequence''] (get_u64 body ''sequence'')) (\<lambda>seq.
      res_bind (ok_or [''witness receipt missing '' @ squoted ''tip''] (get_str body ''tip'')) (\<lambda>tip.
      Inr (device_pub, seq, tip)))))"

definition verify_witness_receipt_jws :: "'x crates_scheme \<Rightarrow> web \<Rightarrow> string \<Rightarrow> string \<Rightarrow> anyhow + (string \<times> u64 \<times> string)" where
  "verify_witness_receipt_jws X W token jwks_json =
     (case split_dots (trim token) of
       [p0, p1, p2] \<Rightarrow>
         res_bind (map_err (\<lambda>e. [e]) (b64u_decode W p0)) (\<lambda>hdr.
         res_bind (map_err (\<lambda>e. [''Failed to decode JWS header'', e]) (json_parse W hdr)) (\<lambda>hdr.
         let kid = get_str hdr ''kid'' in
         res_bind (map_err (\<lambda>e. [''Failed to parse JWKS'', e]) (json_parse W (str_bytes jwks_json))) (\<lambda>jwks.
         res_bind (ok_or [''JWKS has no '' @ squoted ''keys'' @ '' array''] (get_array jwks ''keys'')) (\<lambda>keys.
         res_bind (ok_or [''no JWKS key matches the receipt'' @ [CHR 0x27] @ ''s kid'']
           (find (\<lambda>k. kid = None \<or> get_str k ''kid'' = kid) keys)) (\<lambda>key.
         res_bind (ok_or [''JWKS key missing '' @ squoted ''x''] (get_str key ''x'')) (\<lambda>x.
         res_bind (map_err (\<lambda>e. [e]) (b64u_decode W x)) (\<lambda>x_bytes.
         let pubkey = ''ed25519:'' @ b64_encode X x_bytes in
         res_bind (map_err (\<lambda>e. [e]) (b64u_decode W p2)) (\<lambda>sig_bytes.
         let sig = ''ed25519:'' @ b64_encode X sig_bytes; signing_input = p0 @ ''.'' @ p1 in
         res_bind (map_err (\<lambda>e. [crypto_error_text e]) (verify_manifest X pubkey (str_bytes signing_input) sig)) (\<lambda>ok.
         if \<not> ok then Inl [''witness receipt signature is invalid'']
         else
         res_bind (map_err (\<lambda>e. [e]) (b64u_decode W p1)) (\<lambda>payload_bytes.
         res_bind (map_err (\<lambda>e. [''Failed to decode JWS payload'', e]) (json_parse W payload_bytes)) (\<lambda>claim.
         case get_str claim ''typ'' of
           Some typ \<Rightarrow>
             if typ \<noteq> ''witness'' then Inl [''receipt '' @ squoted ''typ'' @ '' is '' @ squoted typ @ '', expected '' @ squoted ''witness'']
             else receipt_body claim
         | None \<Rightarrow> receipt_body claim)))))))))))
     | _ \<Rightarrow> Inl [''witness receipt is not a JWS (expected 3 dot-separated parts)''])"

text \<open>
  The cross-check against what the receipt states, in the order of the code: tail deletion, identity, tip. The
  index \<^verbatim>\<open>w_seq as usize\<close> is in range because the local tip is not behind.
\<close>

definition check_witness :: "'x crates_scheme \<Rightarrow> Entry list \<Rightarrow> walk \<Rightarrow> string \<times> u64 \<times> string \<Rightarrow> cli_error + (u64 \<times> string)" where
  "check_witness X es w receipt =
     (case receipt of (w_dev, w_seq, w_tip) \<Rightarrow>
      let tip_seq = ce_seq (last es); k = unat w_seq in
      if tip_seq < w_seq
      then Inl (CliExitError 13 (''local chronicle tip (sequence '' @ show_nat (unat tip_seq) @ '') is BEHIND the witnessed tip '' @
        ''(sequence '' @ show_nat k @ '') '' @ em_dash @ '' archives after '' @ show_nat (unat tip_seq) @ '' are missing (tail deletion)''))
      else if w_dev \<noteq> signer_at_seq w ! k
      then Inl (CliExitError 13 (''witness receipt is for device '' @ w_dev @ '', but the active identity at '' @
        ''sequence '' @ show_nat k @ '' is '' @ signer_at_seq w ! k))
      else
        let local_at_wseq = format_archive_id X (ce_digest (es ! k)) in
        if w_tip \<noteq> local_at_wseq
        then Inl (CliExitError 13 (''tip mismatch at sequence '' @ show_nat k @ '': local '' @ local_at_wseq @ '' vs witnessed '' @ w_tip))
        else Inr (w_seq, w_tip))"

section \<open>The command\<close>

record ChronicleReport =
  cr_device_pub :: string
  cr_count :: nat
  cr_rotations :: nat
  cr_tip_sequence :: u64
  cr_tip :: string
  cr_current_identity :: string
  cr_current_epoch :: u32
  cr_witnessed :: "(u64 \<times> string) option"

text \<open>
  \<open>witness\<close> is the result of reading the receipt file, when the option is given, and \<open>jwks\<close> the result of loading the key set.
\<close>

definition handle_verify_chronicle ::
  "'x crates_scheme \<Rightarrow> man_json \<Rightarrow> rot_json \<Rightarrow> web \<Rightarrow> fs_node list \<Rightarrow> string \<Rightarrow> (anyhow + string) option \<Rightarrow> anyhow + string \<Rightarrow>
     cli_error + ChronicleReport" where
  "handle_verify_chronicle X J R W paths device_pub_arg witness jwks_source =
     (let device_pub = normalize_device_pub device_pub_arg in
      res_bind (collect_archive_dirs paths) (\<lambda>archive_dirs.
      if archive_dirs = [] then Inl (CliExitError 12 ''No .seal archives found in the given paths'')
      else
      res_bind (read_entries X J R archive_dirs) (\<lambda>unsorted.
      let entries = sort_key ce_seq unsorted in
      res_bind (verify_entries X J device_pub entries) (\<lambda>w.
      res_bind (case witness of None \<Rightarrow> Inr None
        | Some token \<Rightarrow>
            res_bind (map_err Anyhow token) (\<lambda>token.
            res_bind (map_err Anyhow jwks_source) (\<lambda>jwks.
            res_bind (map_err Anyhow (verify_witness_receipt_jws X W token jwks)) (\<lambda>receipt.
            res_bind (check_witness X entries w receipt) (\<lambda>r. Inr (Some r)))))) (\<lambda>witnessed.
      Inr \<lparr> cr_device_pub = device_pub, cr_count = length entries, cr_rotations = rotations w,
        cr_tip_sequence = ce_seq (last entries), cr_tip = format_archive_id X (ce_digest (last entries)),
        cr_current_identity = active_signer w, cr_current_epoch = active_epoch w, cr_witnessed = witnessed \<rparr>)))))"

section \<open>Lemmas\<close>

fun kind_bytes :: "'x crates_scheme \<Rightarrow> EntryKind \<Rightarrow> bytes" where
  "kind_bytes X (ArchiveEntry m) = to_canonical_bytes X m"
| "kind_bytes X (RotationEntry r) = rot_signing_bytes X r"

abbreviation entry_bytes :: "'x crates_scheme \<Rightarrow> Entry \<Rightarrow> bytes" where
  "entry_bytes X e \<equiv> kind_bytes X (ce_kind e)"

text \<open>What \<open>read_entry\<close> makes of a directory: the fields are those of the archive or rotation in it.\<close>

definition entry_wf :: "'x crates_scheme \<Rightarrow> man_json \<Rightarrow> Entry \<Rightarrow> bool" where
  "entry_wf X J e \<longleftrightarrow> ce_digest e = blake3_hash X (entry_bytes X e) \<and>
     (case ce_kind e of
        ArchiveEntry m \<Rightarrow> sequence m = Some (ce_seq e) \<and> prev_archive_hash m = ce_prev e \<and>
          (\<exists>sig. read_manifest J (ed_archive (ce_dir e)) = Inr (m, sig))
      | RotationEntry r \<Rightarrow> rot_sequence r = ce_seq e \<and> ce_prev e = Some (rot_prev r))"

lemma read_entry_wf: "read_entry X J R d = Inr e \<Longrightarrow> entry_wf X J e \<and> ce_dir e = d"
  by (auto simp: read_entry_def entry_wf_def Let_def res_simps rot_archive_digest_def archive_digest_def segment_hash_def
      split: if_splits)

lemma read_entries_wf: "read_entries X J R ds = Inr es \<Longrightarrow> list_all (entry_wf X J) es \<and> map ce_dir es = ds"
  by (induction ds arbitrary: es) (auto simp: res_simps dest: read_entry_wf)

lemma check_contiguity_iff:
  "check_contiguity i es = Inr () \<longleftrightarrow> (\<forall>k < length es. ce_seq (es ! k) = word_of_nat (i + k))"
proof (induction es arbitrary: i)
  case (Cons e es)
  show ?case by (auto simp: Cons All_less_Suc2)
qed simp

lemma check_linkage_snoc:
  "check_linkage X p (es @ [e]) = Inr () \<longleftrightarrow>
     check_linkage X p es = Inr () \<and> ce_prev e = Some (format_archive_id X (ce_digest (last (p # es))))"
  by (induction es arbitrary: p) (auto simp: Let_def split: option.splits)

text \<open>A linked list of entries: the first has no predecessor and each other names the digest of the one before.\<close>

definition linked :: "'x crates_scheme \<Rightarrow> Entry list \<Rightarrow> bool" where
  "linked X es \<longleftrightarrow> es \<noteq> [] \<and> ce_prev (hd es) = None \<and> check_linkage X (hd es) (tl es) = Inr ()"

lemma linked_single: "linked X [e] \<longleftrightarrow> ce_prev e = None"
  by (simp add: linked_def)

lemma linked_snoc:
  "es \<noteq> [] \<Longrightarrow> linked X (es @ [e]) \<longleftrightarrow> linked X es \<and> ce_prev e = Some (format_archive_id X (ce_digest (last es)))"
  by (cases es) (auto simp: linked_def check_linkage_snoc)

lemma linked_take: "linked X es \<Longrightarrow> 0 < n \<Longrightarrow> linked X (take n es)"
proof (induction es rule: rev_induct)
  case (snoc e es)
  then show ?case by (cases "es = []"; cases "n \<le> length es") (auto simp: linked_snoc)
qed (simp add: linked_def)

text \<open>The manifests of the entries are as \<open>validate\<close> wants them and their floats are numbers.\<close>

fun kind_plain :: "EntryKind \<Rightarrow> bool" where
  "kind_plain (ArchiveEntry m) \<longleftrightarrow> manifest_valid m \<and> manifest_finite m"
| "kind_plain (RotationEntry r) \<longleftrightarrow> True"

lemma entry_bytes_links:
  assumes "json_ok X" "entry_wf X J e" "entry_wf X J' f" "kind_plain (ce_kind e)" "kind_plain (ce_kind f)"
    and eq: "entry_bytes X e = entry_bytes X f"
  shows "ce_prev e = ce_prev f"
proof (cases "ce_kind e")
  case e: (ArchiveEntry m)
  show ?thesis
  proof (cases "ce_kind f")
    case f: (ArchiveEntry n)
    have "m\<lparr> man_signature := None \<rparr> = n\<lparr> man_signature := None \<rparr>"
      by (rule canonical_bytes_valid_inj [OF assms(1)]) (use assms e f in simp_all)
    then have "prev_archive_hash m = prev_archive_hash n" by (cases m; cases n) simp
    then show ?thesis using assms(2,3) by (simp add: entry_wf_def e f)
  next
    case (RotationEntry r)
    then show ?thesis
      using eq e texts_differ(3) [OF assms(1)] by (simp add: to_canonical_bytes_def rot_signing_bytes_def)
  qed
next
  case e: (RotationEntry r)
  show ?thesis
  proof (cases "ce_kind f")
    case (ArchiveEntry n)
    then show ?thesis
      using eq e texts_differ(3) [OF assms(1), THEN not_sym] by (simp add: to_canonical_bytes_def rot_signing_bytes_def)
  next
    case f: (RotationEntry s)
    have "rot_text X r = rot_text X s" using eq by (simp add: e f rot_signing_bytes_def)
    from rot_text_split [OF assms(1) this] have "rot_prev r = rot_prev s" by (cases r; cases s) simp
    then show ?thesis using assms(2,3) by (simp add: entry_wf_def e f)
  qed
qed

lemma linked_unique:
  assumes "json_ok X" "hex_ok X" "no_collision X (set (map (entry_bytes X) es) \<union> set (map (entry_bytes X) fs))"
    and "list_all (entry_wf X J) es" "list_all (entry_wf X J') fs"
    and "list_all (kind_plain \<circ> ce_kind) es" "list_all (kind_plain \<circ> ce_kind) fs"
    and "linked X es" "linked X fs" "ce_digest (last es) = ce_digest (last fs)"
  shows "map (entry_bytes X) es = map (entry_bytes X) fs"
  using assms
proof (induction es arbitrary: fs rule: rev_induct)
  case (snoc e es)
  from snoc.prems(9) obtain gs f where fs: "fs = gs @ [f]" by (cases fs rule: rev_cases) (auto simp: linked_def)
  have wf: "entry_wf X J e" "entry_wf X J' f" "kind_plain (ce_kind e)" "kind_plain (ce_kind f)"
    using snoc.prems by (simp_all add: fs)
  have last: "entry_bytes X e = entry_bytes X f"
    by (rule no_collisionD [OF snoc.prems(3)]) (use snoc.prems(10) wf in \<open>simp_all add: fs entry_wf_def\<close>)
  have prev: "ce_prev e = ce_prev f" by (rule entry_bytes_links [OF snoc.prems(1) wf last])
  show ?case
  proof (cases "es = [] \<or> gs = []")
    case True
    then show ?thesis
      using snoc.prems(8,9) prev last by (cases "es = []"; cases "gs = []") (auto simp: fs linked_snoc linked_single)
  next
    case False
    then have "linked X es" "linked X gs" "ce_digest (last es) = ce_digest (last gs)"
      using snoc.prems(8,9) prev format_archive_id_inj [OF snoc.prems(2)] by (simp_all add: fs linked_snoc)
    moreover have "no_collision X (set (map (entry_bytes X) es) \<union> set (map (entry_bytes X) gs))"
      by (rule no_collision_mono [OF snoc.prems(3)]) (auto simp: fs)
    ultimately have "map (entry_bytes X) es = map (entry_bytes X) gs"
      using snoc.prems(4-7) by (intro snoc.IH [OF snoc.prems(1,2)]) (simp_all add: fs)
    then show ?thesis by (simp add: fs last)
  qed
qed (simp add: linked_def)

text \<open>
  The identity before an entry, from the entries in front of it: the key of the last rotation, and the number of
  rotations as its epoch.
\<close>

definition kind_rotation :: "EntryKind \<Rightarrow> RotationRecord option" where
  "kind_rotation k = (case k of RotationEntry r \<Rightarrow> Some r | ArchiveEntry _ \<Rightarrow> None)"

definition rotations_of :: "Entry list \<Rightarrow> RotationRecord list" where
  "rotations_of es = List.map_filter (kind_rotation \<circ> ce_kind) es"

definition signer_of :: "string \<Rightarrow> Entry list \<Rightarrow> string" where
  "signer_of pub es = last (pub # map (new_public_key \<circ> rot_new) (rotations_of es))"

definition authorized :: "'x crates_scheme \<Rightarrow> man_json \<Rightarrow> string \<Rightarrow> nat \<Rightarrow> Entry \<Rightarrow> bool" where
  "authorized X J signer epoch e \<longleftrightarrow>
     (case ce_kind e of
        ArchiveEntry m \<Rightarrow> public_key (device m) = signer \<and> unat (case key_epoch (device m) of None \<Rightarrow> 0 | Some k \<Rightarrow> k) = epoch \<and>
          (\<exists>sig. man_signature m = Some sig \<and> verify_manifest X signer (to_canonical_bytes X m) sig = Inr True) \<and>
          validate_archive X J (ed_archive (ce_dir e)) = Inr ()
      | RotationEntry r \<Rightarrow> old_public_key (rot_old r) = signer \<and> unat (old_key_epoch (rot_old r)) = epoch \<and> rot_verify X r)"

lemma rotations_of_simps [simp]:
  "rotations_of [] = []" "rotations_of (es @ fs) = rotations_of es @ rotations_of fs"
  "rotations_of [e] = (case ce_kind e of RotationEntry r \<Rightarrow> [r] | ArchiveEntry _ \<Rightarrow> [])"
  by (auto simp: rotations_of_def List.map_filter_def kind_rotation_def split: EntryKind.splits)

lemma signer_of_simps [simp]:
  "signer_of pub [] = pub"
  "signer_of pub (es @ [e]) = (case ce_kind e of RotationEntry r \<Rightarrow> new_public_key (rot_new r) | ArchiveEntry _ \<Rightarrow> signer_of pub es)"
  by (auto simp: signer_of_def split: EntryKind.splits)

lemma walk_entries_snoc:
  "walk_entries X J w (es @ [e]) = res_bind (walk_entries X J w es) (\<lambda>v. walk_entry X J v e)"
proof (induction es arbitrary: w)
  case Nil
  show ?case by (cases "walk_entry X J w e") simp_all
next
  case (Cons d es)
  then show ?case by (cases "walk_entry X J w d") simp_all
qed

definition walk_of :: "string \<Rightarrow> Entry list \<Rightarrow> walk" where
  "walk_of pub es = \<lparr> active_signer = signer_of pub es, active_epoch = word_of_nat (length (rotations_of es)),
     rotations = length (rotations_of es), signer_at_seq = map (\<lambda>k. signer_of pub (take (Suc k) es)) [0..<length es] \<rparr>"

lemma walk_of_snoc_archive:
  "ce_kind e = ArchiveEntry m \<Longrightarrow>
     walk_of pub (es @ [e]) = (walk_of pub es)\<lparr> signer_at_seq := signer_at_seq (walk_of pub es) @ [active_signer (walk_of pub es)] \<rparr>"
  by (simp add: walk_of_def)

lemma walk_of_snoc_rotation:
  "ce_kind e = RotationEntry r \<Longrightarrow>
     walk_of pub (es @ [e]) = (walk_of pub es)\<lparr> active_signer := new_public_key (rot_new r),
       active_epoch := active_epoch (walk_of pub es) + 1, rotations := Suc (rotations (walk_of pub es)),
       signer_at_seq := signer_at_seq (walk_of pub es) @ [new_public_key (rot_new r)] \<rparr>"
  by (simp add: walk_of_def add.commute)

lemma walk_archive_ok:
  "walk_archive X J w e m = Inr () \<longleftrightarrow> public_key (device m) = active_signer w \<and>
     (case key_epoch (device m) of None \<Rightarrow> 0 | Some k \<Rightarrow> k) = active_epoch w \<and>
     (\<exists>sig. man_signature m = Some sig \<and> verify_manifest X (active_signer w) (to_canonical_bytes X m) sig = Inr True) \<and>
     validate_archive X J (ed_archive (ce_dir e)) = Inr ()"
  by (auto simp: walk_archive_def Let_def res_simps split: if_splits)

lemma walk_rotation_ok:
  "walk_rotation X w e r = Inr v \<longleftrightarrow> old_public_key (rot_old r) = active_signer w \<and> old_key_epoch (rot_old r) = active_epoch w \<and>
     rot_verify X r \<and> v = w\<lparr> active_signer := new_public_key (rot_new r), active_epoch := new_key_epoch (rot_new r),
        rotations := rotations w + 1 \<rparr>"
  by (auto simp: walk_rotation_def)

lemma rot_verify_epoch: "rot_verify X r \<Longrightarrow> new_key_epoch (rot_new r) = old_key_epoch (rot_old r) + 1"
  by (auto simp: rot_verify_def checked_succ_u32_def split: if_splits)

lemma walk_entry_exact:
  assumes "unat (active_epoch (walk_of pub es)) = length (rotations_of es)"
  shows "walk_entry X J (walk_of pub es) e = Inr w \<longleftrightarrow>
    authorized X J (signer_of pub es) (length (rotations_of es)) e \<and> w = walk_of pub (es @ [e])"
proof (cases "ce_kind e")
  case (ArchiveEntry m)
  have "walk_entry X J (walk_of pub es) e = Inr w \<longleftrightarrow> walk_archive X J (walk_of pub es) e m = Inr () \<and> w = walk_of pub (es @ [e])"
    by (auto simp: walk_entry_def ArchiveEntry res_simps walk_of_snoc_archive)
  also have "active_signer (walk_of pub es) = signer_of pub es" by (simp add: walk_of_def)
  ultimately show ?thesis
    using assms by (simp add: walk_archive_ok authorized_def ArchiveEntry word_unat_eq_iff)
next
  case (RotationEntry r)
  have "active_signer (walk_of pub es) = signer_of pub es" by (simp add: walk_of_def)
  moreover have "unat (old_key_epoch (rot_old r)) = length (rotations_of es) \<longleftrightarrow>
      old_key_epoch (rot_old r) = active_epoch (walk_of pub es)"
    using assms by (simp add: word_unat_eq_iff)
  ultimately show ?thesis
    by (auto simp: walk_entry_def RotationEntry res_simps walk_rotation_ok authorized_def walk_of_snoc_rotation rot_verify_epoch)
qed

lemma u32_fits: "unat (word_of_nat n :: u32) = n \<longleftrightarrow> n < 2 ^ 32"
  by (simp add: unsigned_of_nat take_bit_nat_eq_self_iff)

text \<open>The epochs cannot wrap: every accepted rotation found an epoch below the maximum.\<close>

lemma authorized_epoch:
  assumes "authorized X J s n e" "ce_kind e = RotationEntry r"
  shows "Suc n < 2 ^ 32"
proof -
  from assms have r: "rot_verify X r" "unat (old_key_epoch (rot_old r)) = n" by (simp_all add: authorized_def)
  then have "unat (new_key_epoch (rot_new r)) = Suc n" by (simp add: rot_verify_iff)
  then show ?thesis using unat_u32_less [of "new_key_epoch (rot_new r)"] by simp
qed

lemma walk_entries_exact:
  "walk_entries X J (walk_start pub) es = Inr w \<longleftrightarrow>
     (\<forall>k < length es. authorized X J (signer_of pub (take k es)) (length (rotations_of (take k es))) (es ! k)) \<and>
     w = walk_of pub es \<and> unat (active_epoch w) = length (rotations_of es)"
  (is "_ \<longleftrightarrow> ?auth es \<and> _")
proof (induction es arbitrary: w rule: rev_induct)
  case Nil
  show ?case by (auto simp: walk_start_def walk_of_def)
next
  case (snoc e es)
  have auth: "?auth (es @ [e]) \<longleftrightarrow> ?auth es \<and> authorized X J (signer_of pub es) (length (rotations_of es)) e"
    by (auto simp: nth_append less_Suc_eq)
  have epoch: "unat (active_epoch (walk_of pub (es @ [e]))) = length (rotations_of (es @ [e]))"
    if "unat (active_epoch (walk_of pub es)) = length (rotations_of es)"
      "authorized X J (signer_of pub es) (length (rotations_of es)) e"
    using that authorized_epoch [of X J "signer_of pub es" "length (rotations_of es)" e]
    by (cases "ce_kind e") (simp_all add: walk_of_def u32_fits del: of_nat_Suc)
  have down: "unat (active_epoch (walk_of pub es)) = length (rotations_of es)"
    if "unat (active_epoch (walk_of pub (es @ [e]))) = length (rotations_of (es @ [e]))"
    using that by (cases "ce_kind e") (simp_all add: walk_of_def u32_fits del: of_nat_Suc)
  show ?case
    unfolding walk_entries_snoc res_bind_Inr_iff snoc.IH auth
    using walk_entry_exact [of pub es X J e] epoch down
    by (cases "unat (active_epoch (walk_of pub es)) = length (rotations_of es)") auto
qed

lemma check_genesis_iff: "check_genesis e = Inr () \<longleftrightarrow> kind_rotation (ce_kind e) = None \<and> ce_prev e = None"
  by (auto simp: check_genesis_def kind_rotation_def split: EntryKind.splits option.splits)

lemma verify_entries_iff:
  assumes "es \<noteq> []"
  shows "verify_entries X J pub es = Inr w \<longleftrightarrow>
    (\<forall>k < length es. ce_seq (es ! k) = word_of_nat k \<and>
       authorized X J (signer_of pub (take k es)) (length (rotations_of (take k es))) (es ! k)) \<and>
    kind_rotation (ce_kind (hd es)) = None \<and> linked X es \<and> w = walk_of pub es \<and> length (rotations_of es) < 2 ^ 32"
proof -
  have "unat (active_epoch (walk_of pub es)) = length (rotations_of es) \<longleftrightarrow> length (rotations_of es) < 2 ^ 32"
    by (simp add: walk_of_def u32_fits)
  then show ?thesis
    using assms by (auto simp: verify_entries_def res_simps check_contiguity_iff check_genesis_iff walk_entries_exact linked_def)
qed

text \<open>serde_json has no NaN, so a parsed manifest has none.\<close>

definition man_json_finite :: "man_json \<Rightarrow> bool" where
  "man_json_finite J \<longleftrightarrow> (\<forall>b m. man_parse J b = Inr m \<longrightarrow> manifest_finite m)"

text \<open>An authorized archive entry read from its directory has a manifest that \<open>validate\<close> accepts.\<close>

lemma authorized_plain:
  assumes "man_json_finite J" "entry_wf X J e" "authorized X J s n e"
  shows "kind_plain (ce_kind e)"
proof (cases "ce_kind e")
  case (ArchiveEntry m)
  from assms(2) obtain sig where r: "read_manifest J (ed_archive (ce_dir e)) = Inr (m, sig)"
    by (auto simp: entry_wf_def ArchiveEntry)
  from assms(3) have "validate_archive X J (ed_archive (ce_dir e)) = Inr ()" by (simp add: authorized_def ArchiveEntry)
  with r have "manifest_valid m" by (auto simp: validate_archive_iff archive_intact_def)
  moreover have "manifest_finite m"
    using r assms(1) by (auto simp: read_manifest_def man_json_finite_def res_simps split: option.splits if_splits)
  ultimately show ?thesis by (simp add: ArchiveEntry)
qed simp

text \<open>The signed bytes of the entries a command line names, in chronicle order.\<close>

definition chronicle_entries :: "'x crates_scheme \<Rightarrow> man_json \<Rightarrow> rot_json \<Rightarrow> fs_node list \<Rightarrow> cli_error + Entry list" where
  "chronicle_entries X J R paths =
     res_bind (collect_archive_dirs paths) (\<lambda>ds. res_bind (read_entries X J R ds) (\<lambda>es. Inr (sort_key ce_seq es)))"

lemma handle_verify_chronicle_accepts:
  assumes "handle_verify_chronicle X J R W paths pub witness jwks = Inr rep"
  obtains es w where "chronicle_entries X J R paths = Inr es" "es \<noteq> []" "verify_entries X J (normalize_device_pub pub) es = Inr w"
    "cr_tip rep = format_archive_id X (ce_digest (last es))"
    "\<And>token. witness = Some token \<Longrightarrow> \<exists>t k receipt r. token = Inr t \<and> jwks = Inr k \<and>
       verify_witness_receipt_jws X W t k = Inr receipt \<and> check_witness X es w receipt = Inr r \<and> cr_witnessed rep = Some r"
proof -
  from assms obtain ds us w where a: "collect_archive_dirs paths = Inr ds" "ds \<noteq> []" "read_entries X J R ds = Inr us"
    "verify_entries X J (normalize_device_pub pub) (sort_key ce_seq us) = Inr w"
    "cr_tip rep = format_archive_id X (ce_digest (last (sort_key ce_seq us)))"
    and wit: "(case witness of None \<Rightarrow> Inr None
        | Some token \<Rightarrow>
            res_bind (map_err Anyhow token) (\<lambda>token.
            res_bind (map_err Anyhow jwks) (\<lambda>jwks.
            res_bind (map_err Anyhow (verify_witness_receipt_jws X W token jwks)) (\<lambda>receipt.
            res_bind (check_witness X (sort_key ce_seq us) w receipt) (\<lambda>r. Inr (Some r)))))) = Inr (cr_witnessed rep)"
    unfolding handle_verify_chronicle_def Let_def by (fastforce simp: res_bind_Inr_iff split: if_splits)
  show ?thesis
  proof (rule that)
    show "chronicle_entries X J R paths = Inr (sort_key ce_seq us)" by (simp add: chronicle_entries_def a)
    have "length us = length ds" using read_entries_wf [OF a(3)] by (metis length_map)
    then show "sort_key ce_seq us \<noteq> []" using a(2) by (metis length_0_conv length_sort)
    show "\<exists>t k receipt r. token = Inr t \<and> jwks = Inr k \<and> verify_witness_receipt_jws X W t k = Inr receipt \<and>
        check_witness X (sort_key ce_seq us) w receipt = Inr r \<and> cr_witnessed rep = Some r" if "witness = Some token" for token
      using wit that by (auto simp: res_bind_Inr_iff map_err_Inr_iff)
  qed (rule a(4), rule a(5))
qed

lemma chronicle_entries_wf: "chronicle_entries X J R paths = Inr es \<Longrightarrow> list_all (entry_wf X J) es"
  by (auto simp: chronicle_entries_def res_simps list_all_iff dest!: read_entries_wf)

lemma verified_entries:
  assumes "man_json_finite J" "chronicle_entries X J R paths = Inr es" "es \<noteq> []"
    and "verify_entries X J pub es = Inr w"
  shows "list_all (entry_wf X J) es \<and> list_all (kind_plain \<circ> ce_kind) es \<and> linked X es"
proof -
  have wf: "list_all (entry_wf X J) es" by (rule chronicle_entries_wf [OF assms(2)])
  moreover have "kind_plain (ce_kind (es ! k))" if "k < length es" for k
  proof (rule authorized_plain [OF assms(1)])
    show "entry_wf X J (es ! k)" using that wf by (simp add: list_all_length)
    show "authorized X J (signer_of pub (take k es)) (length (rotations_of (take k es))) (es ! k)"
      using that assms(4) by (simp add: verify_entries_iff [OF assms(3)])
  qed
  moreover have "linked X es" using assms(4) by (simp add: verify_entries_iff [OF assms(3)])
  ultimately show ?thesis by (simp add: list_all_length)
qed

lemma check_witness_iff:
  "check_witness X es w (dev, seq, tip) = Inr r \<longleftrightarrow> seq \<le> ce_seq (last es) \<and> dev = signer_at_seq w ! unat seq \<and>
     tip = format_archive_id X (ce_digest (es ! unat seq)) \<and> r = (seq, tip)"
  by (auto simp: check_witness_def Let_def not_less split: if_splits)

lemma last_seq:
  assumes "es \<noteq> []" "verify_entries X J pub es = Inr w" "seq \<le> ce_seq (last es)"
  shows "unat seq < length es"
proof -
  have "ce_seq (last es) = word_of_nat (length es - 1)"
    using assms(1,2) by (simp add: verify_entries_iff last_conv_nth)
  moreover have "unat (word_of_nat (length es - 1) :: u64) \<le> length es - 1"
    by (simp add: unsigned_of_nat take_bit_nat_less_eq_self)
  ultimately have "unat seq \<le> length es - 1" using assms(3) by (simp add: word_le_nat_alt)
  then show ?thesis using assms(1) by (cases es) auto
qed

section \<open>Properties\<close>



section \<open>A concrete chronicle\<close>

text \<open>One genesis archive, signed by the key of a fixed secret, and a receipt that witnesses it.\<close>

abbreviation sample_sk :: bytes where "sample_sk \<equiv> replicate 32 7"

definition sample_root :: TrstManifest where
  "sample_root = sample_sealed\<lparr> device := (device sample_sealed)\<lparr> public_key := kp_public (keypair_of sample_crates sample_sk) \<rparr>,
     sequence := Some 0 \<rparr>"

definition sample_root_sig :: string where
  "sample_root_sig = own_signature sample_crates sample_sk (to_canonical_bytes sample_crates sample_root)"

definition sample_root_signed :: TrstManifest where
  "sample_root_signed = sample_root\<lparr> man_signature := Some sample_root_sig \<rparr>"

definition sample_chron_json :: man_json where
  "sample_chron_json = \<lparr> man_print = (\<lambda>_. Inr ''{}''), man_parse = (\<lambda>_. Inr sample_root_signed) \<rparr>"

definition sample_rot_json :: rot_json where
  "sample_rot_json = \<lparr> rot_print = (\<lambda>_. Inr ''{}''), rot_parse = (\<lambda>_. Inr sample_rotation) \<rparr>"

definition sample_root_dir :: entry_dir where
  "sample_root_dir = \<lparr> ed_archive = \<lparr> base_path = ''a.seal'', manifest_file = Some [], sig_file = Some (str_bytes sample_root_sig),
     chunk_entries = Some [(chunk_filename 0, sample_chunk)] \<rparr>, ed_rotation = None \<rparr>"

definition sample_root_entry :: Entry where
  "sample_root_entry = \<lparr> ce_seq = 0, ce_digest = archive_digest sample_crates sample_root_signed, ce_prev = None,
     ce_dir = sample_root_dir, ce_kind = ArchiveEntry sample_root_signed \<rparr>"

lemma sample_crates_base:
  "b64_encode sample_crates = sample_hex" "ed_public sample_crates = pad32" "blake3_hash sample_crates = sample_digest"
  by (simp_all add: sample_crates_def)

lemma own_signature_text:
  "ascii (own_signature sample_crates sk m)" "length (own_signature sample_crates sk m) = 136"
proof -
  have "ascii ''ed25519:''" by (simp add: ascii_def)
  then show "ascii (own_signature sample_crates sk m)"
    unfolding own_signature_def ascii_append using plain_text(1) [OF plain_hex] by (simp add: sample_crates_def)
  have "length (ed_sign sample_crates sk m) = 64" using ed_ok_simps(3) [OF sample_ed_ok] .
  then show "length (own_signature sample_crates sk m) = 136"
    by (simp add: own_signature_def sample_crates_def length_sample_hex)
qed

lemma sample_root_fields:
  "segments sample_root_signed = segments sample_sealed" "trst_version sample_root_signed = ''0.2.0''"
  "sequence sample_root_signed = Some 0" "prev_archive_hash sample_root_signed = None" "key_epoch (device sample_root_signed) = None"
  "public_key (device sample_root_signed) = kp_public (keypair_of sample_crates sample_sk)"
  "man_signature sample_root_signed = Some sample_root_sig"
  by (simp_all add: sample_root_signed_def sample_root_def sample_sealed_def sample_manifest_def manifest_new_def default_device_def)

lemma sample_root_valid: "manifest_valid sample_root_signed"
proof -
  have "manifest_valid sample_sealed" using sample_sealed_valid by (simp add: manifest_validate_ok_iff)
  then show ?thesis
    by (simp add: manifest_valid_def sample_root_signed_def sample_root_def keypair_of_def)
      (simp add: sample_sealed_def sample_manifest_def manifest_new_def)
qed

lemma sample_root_read: "read_manifest sample_chron_json (ed_archive sample_root_dir) = Inr (sample_root_signed, str_bytes sample_root_sig)"
  by (simp add: read_manifest_def read_capped_def sample_root_dir_def sample_chron_json_def sample_root_fields MANIFEST_MAX_BYTES_def
      SIG_MAX_BYTES_def sample_root_sig_def own_signature_text from_utf8_lossy_valid utf8_valid_str)

lemma sample_root_validates: "validate_archive sample_crates sample_chron_json (ed_archive sample_root_dir) = Inr ()"
proof -
  obtain D where D: "finalize sample_man_json (writer_run sample_crates empty_dir [sample_chunk]) sample_sealed [7] = Inr D"
    "chunk_entries D = Some [(chunk_filename 0, sample_chunk)]" using sample_writes by blast
  have "length (segments sample_sealed) = 1" by (simp add: sample_sealed_def)
  then have "archive_intact sample_crates (ed_archive sample_root_dir) sample_root_signed [sample_chunk]"
    using sample_dir_intact [OF D(1)] sample_root_valid
    by (simp add: archive_intact_def no_stray_chunks_def chunk_intact_def chunk_content_def D(2) sample_root_fields(1) sample_root_dir_def)
  then show ?thesis using sample_root_read validate_archive_iff by blast
qed

lemma sample_chronicle_read:
  "is_chronicle_entry_dir sample_root_dir"
  "read_entry sample_crates sample_chron_json sample_rot_json sample_root_dir = Inr sample_root_entry"
proof -
  show "is_chronicle_entry_dir sample_root_dir" by (simp add: is_chronicle_entry_dir_def sample_root_dir_def)
  have "ed_rotation sample_root_dir = None" by (simp add: sample_root_dir_def)
  then show "read_entry sample_crates sample_chron_json sample_rot_json sample_root_dir = Inr sample_root_entry"
    by (simp add: read_entry_def sample_root_read require_supported_version_def sample_root_fields sample_root_entry_def)
qed

lemma sample_chronicle_entries:
  "chronicle_entries sample_crates sample_chron_json sample_rot_json [DirNode sample_root_dir []] = Inr [sample_root_entry]"
  by (simp add: chronicle_entries_def sample_chronicle_read)

lemma sample_root_bytes: "to_canonical_bytes sample_crates sample_root_signed = to_canonical_bytes sample_crates sample_root"
  by (simp add: to_canonical_bytes_def sample_root_signed_def)

lemma sample_root_authorized:
  "authorized sample_crates sample_chron_json (kp_public (keypair_of sample_crates sample_sk)) 0 sample_root_entry"
  by (simp add: authorized_def sample_root_entry_def sample_root_fields sample_root_bytes sample_root_sig_def
      verify_own_signature sample_ed_ok sample_b64_ok sample_root_validates)

lemma sample_root_verifies:
  "\<exists>w. verify_entries sample_crates sample_chron_json (kp_public (keypair_of sample_crates sample_sk)) [sample_root_entry] = Inr w"
  using sample_root_authorized
  by (subst verify_entries_iff)
    (simp_all add: linked_single kind_rotation_def sample_root_entry_def signer_of_def)


definition sample_tip :: string where
  "sample_tip = format_archive_id sample_crates (archive_digest sample_crates sample_root_signed)"

definition sample_claims_json :: json where
  "sample_claims_json = JObj [(''keys'', JArr [JObj [(''x'', JStr (sample_hex (pad32 sample_sk)))]]),
     (''device_pub'', JStr (kp_public (keypair_of sample_crates sample_sk))), (''sequence'', JU64 0), (''tip'', JStr sample_tip)]"

definition sample_web :: web where
  "sample_web = \<lparr> json_parse = (\<lambda>_. Inr sample_claims_json), json_print = (\<lambda>_. ''{}''), b64u_encode = sample_hex, b64u_decode = sample_unhex \<rparr>"

definition sample_token :: string where
  "sample_token = ''..'' @ sample_hex (ed_sign sample_crates sample_sk (str_bytes ''.''))"

lemma trim_start_keeps:
  assumes "s \<noteq> []" "hd s \<notin> hd ` set ws" "[] \<notin> set ws"
  shows "trim_start ws s = s"
proof -
  have "\<not> starts_with w s" if "w \<in> set ws" for w
  proof
    assume "starts_with w s"
    then have "hd s = hd w" using that assms(3) by (auto simp: starts_with_iff hd_append)
    with that assms(2) show False by blast
  qed
  then have "find (\<lambda>w. starts_with w s) ws = None" by (simp add: find_None_iff)
  then have "ws_len ws s = 0" by (simp add: ws_len_def)
  then show ?thesis by (simp add: trim_start.simps)
qed

lemma white_space_ends:
  assumes "33 \<le> (of_char c :: nat)" "of_char c < (128 :: nat)"
  shows "c \<notin> hd ` set white_space" "c \<notin> last ` set white_space"
  using assms by (auto simp: white_space_def of_char_of)

lemma trim_keeps:
  assumes "s \<noteq> []" "33 \<le> (of_char (hd s) :: nat)" "of_char (hd s) < (128 :: nat)"
    and "33 \<le> (of_char (last s) :: nat)" "of_char (last s) < (128 :: nat)"
  shows "trim s = s"
proof -
  note ends = white_space_ends
  have ne: "[] \<notin> set white_space" by (auto simp: white_space_def)
  have "trim_start white_space s = s" using assms ends(1) ne by (intro trim_start_keeps) auto
  moreover have "trim_start (map rev white_space) (rev s) = rev s"
  proof (rule trim_start_keeps)
    show "hd (rev s) \<notin> hd ` set (map rev white_space)"
      using ends(2) [OF assms(4,5)] assms(1) by (auto simp: hd_rev image_iff)
  qed (use assms ne in auto)
  ultimately show ?thesis by (simp add: trim_def)
qed

lemma split_dots_plain: "list_all plain_char s \<Longrightarrow> split_dots s = [s]"
proof (induction s)
  case (Cons c s)
  then have "c \<noteq> CHR ''.''" by (auto simp: plain_char_def)
  with Cons show ?case by simp
qed simp

lemma sample_receipt:
  "verify_witness_receipt_jws sample_crates sample_web sample_token [] =
     Inr (kp_public (keypair_of sample_crates sample_sk), 0, sample_tip)"
proof -
  let ?sig = "ed_sign sample_crates sample_sk (str_bytes ''.'')"
  have len: "length ?sig = 64" by (rule ed_ok_simps(3) [OF sample_ed_ok])
  then have ne: "sample_hex ?sig \<noteq> []" by (metis length_sample_hex list.size(3) mult_is_0 zero_neq_numeral)
  have "plain_char (last (sample_hex ?sig))" using plain_hex [of ?sig] ne by (simp add: list_all_iff)
  then have "trim sample_token = sample_token"
    using ne by (intro trim_keeps) (simp_all add: sample_token_def plain_char_def)
  then have parts: "split_dots (trim sample_token) = [[], [], sample_hex ?sig]"
    by (simp add: sample_token_def split_dots_plain [OF plain_hex])
  have "verify_manifest sample_crates (kp_public (keypair_of sample_crates sample_sk)) (str_bytes ''.'') (own_signature sample_crates sample_sk (str_bytes ''.'')) = Inr True"
    by (rule verify_own_signature [OF sample_ed_ok sample_b64_ok])
  then have v: "verify_manifest sample_crates (''ed25519:'' @ sample_hex (pad32 sample_sk)) (str_bytes ''.'') (''ed25519:'' @ sample_hex ?sig) = Inr True"
    by (simp add: keypair_of_def own_signature_def sample_crates_base)
  have web: "json_parse sample_web b = Inr sample_claims_json" "b64u_decode sample_web = sample_unhex" for b
    by (simp_all add: sample_web_def)
  have json: "get_str sample_claims_json ''kid'' = None" "get_str sample_claims_json ''typ'' = None"
    "get_array sample_claims_json ''keys'' = Some [JObj [(''x'', JStr (sample_hex (pad32 sample_sk)))]]"
    "get_str (JObj [(''x'', JStr (sample_hex (pad32 sample_sk)))]) ''x'' = Some (sample_hex (pad32 sample_sk))"
    by (simp_all add: get_str_def get_array_def sample_claims_json_def)
  have body: "receipt_body sample_claims_json = Inr (kp_public (keypair_of sample_crates sample_sk), 0, sample_tip)"
    by (simp add: receipt_body_def get_str_def get_u64_def sample_claims_json_def)
  show ?thesis
    unfolding verify_witness_receipt_jws_def parts using v by (simp add: web json body sample_unhex_hex sample_crates_base)
qed

lemma sample_root_finite: "man_json_finite sample_chron_json"
  by (simp add: man_json_finite_def sample_chron_json_def manifest_finite_def sample_root_signed_def sample_root_def sample_sealed_def
      sample_manifest_def manifest_new_def default_chunk_def sample_segment_def is_nan_def F64_2_def f64_mag_def INF_MAG_def)


end
