(* ===== verification/Seal_Wrap.thy ===== *)
theory Seal_Wrap
  imports Seal_Common
begin

text \<open>
  \<^verbatim>\<open>seal wrap\<close>, \<^verbatim>\<open>seal unwrap\<close> and \<^verbatim>\<open>seal verify\<close> of \<^verbatim>\<open>crates/seal-cli/src/main.rs\<close>, over a build without the yubikey
  feature. The input file is the list of pieces that reads return; keys, nonces, randomness for HPKE and the clock are
  arguments, and so is chrono's addition of milliseconds to a timestamp. What a failed wrap leaves in the output
  directory is not modelled.
\<close>

section \<open>Floating-point operations\<close>

definition F64_NAN :: f64 where "F64_NAN = 0x7FF8000000000000"
definition F64_1000 :: f64 where "F64_1000 = 0x408F400000000000"

definition f64_of_nat :: "nat \<Rightarrow> f64" where
  "f64_of_nat n = word_of_nat (round_f64 n 1)"

definition f64_make :: "bool \<Rightarrow> nat \<Rightarrow> f64" where
  "f64_make neg mag = word_of_nat ((if neg then 9223372036854775808 else 0) + mag)"

definition f64_mul :: "f64 \<Rightarrow> f64 \<Rightarrow> f64" where
  "f64_mul x y =
     (let neg = (f64_neg x \<noteq> f64_neg y); a = f64_mag x; b = f64_mag y in
      if is_nan x \<or> is_nan y \<or> a = INF_MAG \<and> b = 0 \<or> a = 0 \<and> b = INF_MAG then F64_NAN
      else if a = INF_MAG \<or> b = INF_MAG then f64_make neg INF_MAG
      else (case (f64_fraction a, f64_fraction b) of ((p, q), (r, s)) \<Rightarrow> f64_make neg (round_f64 (p * r) (q * s))))"

text \<open>The format \<^verbatim>\<open>{:.3}\<close> rounds the exact value to three decimals, halves to even.\<close>

definition show_f64_3 :: "f64 \<Rightarrow> string" where
  "show_f64_3 x =
     (if is_nan x then ''NaN''
      else (if f64_neg x then ''-'' else []) @
        (if f64_mag x = INF_MAG then ''inf''
         else case f64_fraction (f64_mag x) of (p, q) \<Rightarrow>
           let n = round_half_even (p * 1000) q in show_nat (n div 1000) @ ''.'' @ pad_left 3 (show_nat (n mod 1000))))"

text \<open>Saturating casts: NaN is 0, the fraction is dropped.\<close>

definition f64_trunc :: "f64 \<Rightarrow> nat" where
  "f64_trunc x = (case f64_fraction (f64_mag x) of (p, q) \<Rightarrow> p div q)"

definition f64_as_i64 :: "f64 \<Rightarrow> int" where
  "f64_as_i64 x =
     (if is_nan x then 0
      else let n = (if f64_mag x = INF_MAG then 2 ^ 63 else int (f64_trunc x)) in
        if f64_neg x then max (- (2 ^ 63)) (- n) else min (2 ^ 63 - 1) n)"

definition f64_as_u32 :: "f64 \<Rightarrow> u32" where
  "f64_as_u32 x =
     (if is_nan x \<or> f64_neg x then 0
      else word_of_nat (min (2 ^ 32 - 1) (if f64_mag x = INF_MAG then 2 ^ 32 else f64_trunc x)))"

section \<open>Arguments\<close>

record WrapCmd =
  wc_input :: string
  wc_output_name :: "string option"
  wc_profile :: string
  wc_chunk_size :: nat
  wc_chunk_seconds :: "f64 option"
  wc_fps :: "u32 option"
  wc_device_key_given :: bool
  wc_seed :: "u64 option"
  wc_data_type :: "string option"
  wc_source :: "string option"
  wc_description :: "string option"
  wc_mime_type :: "string option"
  wc_sample_rate :: "f64 option"
  wc_unit :: "string option"
  wc_sensor_model :: "string option"
  wc_latitude :: "f64 option"
  wc_longitude :: "f64 option"
  wc_altitude :: "f64 option"
  wc_bit_depth :: "u16 option"
  wc_channels :: "u8 option"
  wc_codec :: "string option"
  wc_application :: "string option"
  wc_host :: "string option"
  wc_log_level :: "string option"
  wc_log_format :: "string option"
  wc_backend :: string
  wc_recipients :: "string list"
  wc_sign_only :: bool
  wc_chronicle :: "fs_path option"
  wc_prev_archive :: "archive_dir option"
  wc_prev_hash :: "string option"
  wc_prev_seq :: "u64 option"

text \<open>What a run takes from outside: the input, randomness, the clock and chrono.\<close>

record wrap_env =
  we_input :: "bytes list option"
  we_cek :: bytes
  we_nonce :: "nat \<Rightarrow> bytes"
  we_hpke :: "nat \<Rightarrow> bytes"
  we_now :: "string"
  we_later :: "string"
  we_add_ms :: "string \<Rightarrow> int \<Rightarrow> int \<Rightarrow> string + string"

definition CONTENT_AEAD_ID :: string where "CONTENT_AEAD_ID = ''XChaCha20Poly1305''"
definition HPKE_KEM_ID :: string where "HPKE_KEM_ID = ''DHKEM(X25519,HKDF-SHA256)''"
definition HPKE_KDF_ID :: string where "HPKE_KDF_ID = ''HKDF-SHA256''"
definition HPKE_AEAD_ID :: string where "HPKE_AEAD_ID = ''ChaCha20Poly1305''"

section \<open>The chunk loop\<close>

definition chunk_seconds_of :: "WrapCmd \<Rightarrow> f64" where
  "chunk_seconds_of C =
     (if wc_profile C = ''cam.video'' then (case wc_chunk_seconds C of None \<Rightarrow> F64_2 | Some s \<Rightarrow> s)
      else (case wc_chunk_seconds C of None \<Rightarrow> 0 | Some s \<Rightarrow> s))"

definition wrap_segment :: "'x crates_scheme \<Rightarrow> WrapCmd \<Rightarrow> nat \<Rightarrow> ChunkOutcome \<Rightarrow> SegmentInfo" where
  "wrap_segment X C i outcome =
     \<lparr> chunk_file = chunk_filename (unat (out_index outcome)), seg_blake3_hash = hex_encode X (out_blake3 outcome),
       start_time = (if wc_profile C = ''cam.video'' then show_f64_3 (f64_mul (f64_of_nat i) (chunk_seconds_of C)) @ ''s''
         else ''segment-'' @ show_nat i),
       seg_duration_seconds = chunk_seconds_of C, continuity_hash = hex_encode X (out_continuity outcome) \<rparr>"

text \<open>In encrypted mode a stored chunk is the nonce followed by the ciphertext.\<close>

definition stored_chunk :: "'x crates_scheme \<Rightarrow> bytes option \<Rightarrow> (nat \<Rightarrow> bytes) \<Rightarrow> bytes \<Rightarrow> nat \<Rightarrow> bytes \<Rightarrow> CryptoError + bytes" where
  "stored_chunk X key nonce aad i chunk_data =
     (case key of None \<Rightarrow> Inr chunk_data
      | Some k \<Rightarrow> res_bind (encrypt_segment X k (nonce i) chunk_data aad) (\<lambda>ct. Inr (nonce i @ ct)))"

lemma read_exact_length:
  "read_exact_or_eof sz buf ps = (b, qs) \<Longrightarrow> length b + length (concat qs) = length buf + length (concat ps)"
proof (induction sz buf ps rule: read_exact_or_eof.induct)
  case (2 sz buf piece rest)
  then show ?case by (auto simp: Let_def split: if_splits)
qed simp

lemma read_exact_shrinks:
  assumes "(b, qs) = read_exact_or_eof sz [] ps" "b \<noteq> []"
  shows "sum_list (map length qs) < sum_list (map length ps)"
  using read_exact_length [OF assms(1) [symmetric]] assms(2) by (cases b) (simp_all add: length_concat)

function wrap_loop ::
  "'x crates_scheme \<Rightarrow> WrapCmd \<Rightarrow> bytes option \<Rightarrow> (nat \<Rightarrow> bytes) \<Rightarrow> bytes \<Rightarrow> nat \<Rightarrow> bytes list \<Rightarrow> ArchiveWriter \<Rightarrow> SegmentInfo list \<Rightarrow>
     CryptoError + ArchiveWriter \<times> SegmentInfo list" where
  "wrap_loop X C key nonce aad i reader writer segs =
     (case read_exact_or_eof (wc_chunk_size C) [] reader of (chunk_data, reader') \<Rightarrow>
        if chunk_data = [] then Inr (writer, segs)
        else res_bind (stored_chunk X key nonce aad i chunk_data) (\<lambda>stored.
          case push_chunk X writer stored of (writer', outcome) \<Rightarrow>
            wrap_loop X C key nonce aad (Suc i) reader' writer' (segs @ [wrap_segment X C i outcome])))"
  by pat_completeness auto
termination
  by (relation "measure (\<lambda>(X, C, key, nonce, aad, i, reader, writer, segs). sum_list (map length reader))")
    (auto dest: read_exact_shrinks)

declare wrap_loop.simps [simp del]

section \<open>Metadata\<close>

definition require_arg :: "string \<Rightarrow> string \<Rightarrow> 'a option \<Rightarrow> cli_error + 'a" where
  "require_arg flag prof v = ok_or (Anyhow [flag @ '' is required for '' @ prof @ '' profile'']) v"

definition capture_end_time :: "WrapCmd \<Rightarrow> wrap_env \<Rightarrow> string \<Rightarrow> nat \<Rightarrow> cli_error + string" where
  "capture_end_time C V started_at chunk_count =
     (if 0 < chunk_count then
        let chunk_seconds = chunk_seconds_of C;
            last_chunk_start = f64_mul (f64_of_nat (chunk_count - 1)) chunk_seconds
        in map_err (\<lambda>e. Anyhow [e]) (we_add_ms V started_at (f64_as_i64 (f64_mul last_chunk_start F64_1000))
             (f64_as_i64 (f64_mul chunk_seconds F64_1000)))
      else Inr started_at)"

definition wrap_metadata :: "WrapCmd \<Rightarrow> wrap_env \<Rightarrow> string \<Rightarrow> nat \<Rightarrow> cli_error + ProfileMetadata" where
  "wrap_metadata C V started_at chunk_count =
     (if wc_profile C = ''cam.video'' then
        let fps = (case wc_fps C of None \<Rightarrow> 30 | Some n \<Rightarrow> n) in
        res_bind (capture_end_time C V started_at chunk_count) (\<lambda>ended.
        Inr (CamVideo \<lparr> cv_started_at = started_at, cv_ended_at = ended, cv_timezone = ''UTC'', cv_fps = f64_of_nat (unat fps),
          cv_resolution = ''1920x1080'', cv_codec = ''raw'' \<rparr>))
      else if wc_profile C = ''sensor'' then
        res_bind (require_arg ''--sample-rate'' ''sensor'' (wc_sample_rate C)) (\<lambda>sample_rate.
        res_bind (require_arg ''--unit'' ''sensor'' (wc_unit C)) (\<lambda>unit.
        res_bind (require_arg ''--sensor-model'' ''sensor'' (wc_sensor_model C)) (\<lambda>sensor_model.
        Inr (Sensor \<lparr> se_started_at = started_at, se_ended_at = started_at, se_sample_rate_hz = sample_rate, se_unit = unit,
          se_sensor_model = sensor_model, se_latitude = wc_latitude C, se_longitude = wc_longitude C, se_altitude = wc_altitude C,
          se_labels = [] \<rparr>))))
      else if wc_profile C = ''audio'' then
        res_bind (require_arg ''--sample-rate'' ''audio'' (wc_sample_rate C)) (\<lambda>sample_rate.
        res_bind (require_arg ''--bit-depth'' ''audio'' (wc_bit_depth C)) (\<lambda>bit_depth.
        res_bind (require_arg ''--channels'' ''audio'' (wc_channels C)) (\<lambda>channels.
        res_bind (require_arg ''--codec'' ''audio'' (wc_codec C)) (\<lambda>codec.
        Inr (Audio \<lparr> au_started_at = started_at, au_ended_at = started_at, au_sample_rate_hz = f64_as_u32 sample_rate,
          au_bit_depth = bit_depth, au_channels = channels, au_codec = codec \<rparr>)))))
      else if wc_profile C = ''log'' then
        res_bind (require_arg ''--application'' ''log'' (wc_application C)) (\<lambda>application.
        res_bind (require_arg ''--host'' ''log'' (wc_host C)) (\<lambda>host.
        res_bind (require_arg ''--log-level'' ''log'' (wc_log_level C)) (\<lambda>log_level.
        res_bind (require_arg ''--log-format'' ''log'' (wc_log_format C)) (\<lambda>log_format.
        Inr (Log \<lparr> lo_started_at = started_at, lo_ended_at = started_at, lo_application = application, lo_host = host,
          lo_log_level = log_level, lo_log_format = log_format \<rparr>)))))
      else
        Inr (Generic \<lparr> ge_started_at = started_at, ge_ended_at = started_at, ge_data_type = wc_data_type C, ge_source = wc_source C,
          ge_description = wc_description C, ge_mime_type = wc_mime_type C, ge_labels = [] \<rparr>))"

section \<open>Chronicle linkage\<close>

record ChronicleLink =
  cl_sequence :: u64
  cl_prev :: "string option"
  cl_key_epoch :: u32
  cl_state_path :: "fs_path option"

definition validate_prev_hash :: "string \<Rightarrow> cli_error + unit" where
  "validate_prev_hash h =
     (case strip_prefix ''b3:'' h of
        Some x \<Rightarrow> if length x = 64 \<and> list_all is_ascii_hexdigit x then Inr ()
          else bail (''--prev-hash must be '' @ squoted ''b3:<64 hex>'')
      | None \<Rightarrow> bail (''--prev-hash must be '' @ squoted ''b3:<64 hex>''))"

text \<open>A path is displayed as its directory, a slash and its name.\<close>

definition show_path :: "fs_path \<Rightarrow> string" where
  "show_path p = fst p @ ''/'' @ (case snd p of None \<Rightarrow> ''..'' | Some n \<Rightarrow> n)"

text \<open>Additions on sequence numbers wrap in the release build.\<close>

definition resolve_chronicle ::
  "'x crates_scheme \<Rightarrow> man_json \<Rightarrow> state_json \<Rightarrow> fs \<Rightarrow> fs_path option \<Rightarrow> archive_dir option \<Rightarrow> string option \<Rightarrow> u64 option \<Rightarrow> string \<Rightarrow>
     cli_error + ChronicleLink option" where
  "resolve_chronicle X J S F chronicle prev_archive prev_hash prev_seq signing_public_key =
     (case prev_archive of
       Some D \<Rightarrow>
         res_bind (try_archive (''Failed to read --prev-archive: '' @ base_path D) (read_manifest J D)) (\<lambda>(m, _).
         res_bind (ok_or (Anyhow [''--prev-archive points at a non-chronicle archive (no sequence); '' @
             ''start a chronicle with --chronicle or supply --prev-hash/--prev-seq'']) (sequence m)) (\<lambda>seq.
         Inr (Some \<lparr> cl_sequence = seq + 1, cl_prev = Some (format_archive_id X (archive_digest X m)),
           cl_key_epoch = (case key_epoch (device m) of None \<Rightarrow> 0 | Some k \<Rightarrow> k), cl_state_path = chronicle \<rparr>)))
     | None \<Rightarrow>
       (case (prev_hash, prev_seq) of
         (Some h, Some seq) \<Rightarrow>
           res_bind (validate_prev_hash h) (\<lambda>_.
           Inr (Some \<lparr> cl_sequence = seq + 1, cl_prev = Some h, cl_key_epoch = 0, cl_state_path = chronicle \<rparr>))
       | (Some _, None) \<Rightarrow> bail ''--prev-hash and --prev-seq must be supplied together''
       | (None, Some _) \<Rightarrow> bail ''--prev-hash and --prev-seq must be supplied together''
       | (None, None) \<Rightarrow>
         (case chronicle of
            None \<Rightarrow> Inr None
          | Some path \<Rightarrow>
              if F path \<noteq> None then
                res_bind (map_err (\<lambda>e. Anyhow [''Failed to read chronicle state: '' @ show_path path, e]) (state_load S F path)) (\<lambda>st.
                if cs_device_pub st \<noteq> signing_public_key
                then bail (''chronicle state belongs to device '' @ cs_device_pub st @ '' but wrap is signing with '' @ signing_public_key)
                else Inr (Some \<lparr> cl_sequence = cs_sequence st + 1, cl_prev = Some (cs_tip st), cl_key_epoch = cs_key_epoch st,
                  cl_state_path = Some path \<rparr>))
              else Inr (Some \<lparr> cl_sequence = 0, cl_prev = None, cl_key_epoch = 0, cl_state_path = Some path \<rparr>))))"

definition link_manifest :: "ChronicleLink option \<Rightarrow> TrstManifest \<Rightarrow> TrstManifest" where
  "link_manifest lk m =
     (case lk of None \<Rightarrow> m
      | Some l \<Rightarrow> m\<lparr> sequence := Some (cl_sequence l), prev_archive_hash := cl_prev l,
          device := (device m)\<lparr> key_epoch := if 0 < cl_key_epoch l then Some (cl_key_epoch l) else None \<rparr> \<rparr>)"

section \<open>Recipients\<close>

fun add_recipients :: "string list \<Rightarrow> string list \<Rightarrow> string list" where
  "add_recipients acc [] = acc"
| "add_recipients acc (r # rs) = add_recipients (if r \<in> set acc then acc else acc @ [r]) rs"

fun seal_recipients ::
  "'x kw_crates_scheme \<Rightarrow> (nat \<Rightarrow> bytes) \<Rightarrow> bytes \<Rightarrow> bytes \<Rightarrow> bytes \<Rightarrow> nat \<Rightarrow> string list \<Rightarrow> CryptoError + RecipientEntry list" where
  "seal_recipients X rnd info pre_digest cek i [] = Inr []"
| "seal_recipients X rnd info pre_digest cek i (p # ps) =
     res_bind (hpke_seal_cek_with_rng X (rnd i) p info pre_digest cek) (\<lambda>(enc, wrapped).
     res_bind (recipient_id_of X p) (\<lambda>rid.
     res_bind (seal_recipients X rnd info pre_digest cek (Suc i) ps) (\<lambda>rest.
     Inr (\<lparr> recipient_id = rid, recipient_pub = p, recipient_enc = enc, wrapped_cek = wrapped \<rparr> # rest))))"

definition wrap_encryption ::
  "'x kw_crates_scheme \<Rightarrow> WrapCmd \<Rightarrow> wrap_env \<Rightarrow> string \<Rightarrow> string \<Rightarrow> TrstManifest \<Rightarrow> cli_error + TrstManifest" where
  "wrap_encryption X C V signing_public_key ka_pub m =
     (if \<not> wc_sign_only C then
        let pre_digest = segment_hash X (to_canonical_bytes X m);
            info = cek_wrap_info signing_public_key (trst_version m);
            recipient_pubs = add_recipients [ka_pub] (wc_recipients C)
        in res_bind (try_crypto (seal_recipients X (we_hpke V) info pre_digest (we_cek V) 0 recipient_pubs)) (\<lambda>rs.
           Inr (m\<lparr> encryption := Some \<lparr> content_aead = CONTENT_AEAD_ID,
             hpke = \<lparr> hpke_kem = HPKE_KEM_ID, hpke_kdf = HPKE_KDF_ID, hpke_aead = HPKE_AEAD_ID \<rparr>, recipients = rs \<rparr> \<rparr>))
      else if wc_recipients C \<noteq> []
      then bail ''--recipient cannot be combined with --sign-only (sign-only archives are unencrypted)''
      else Inr m)"

section \<open>Wrapping\<close>

definition wrap_manifest ::
  "WrapCmd \<Rightarrow> string \<Rightarrow> string \<Rightarrow> string \<Rightarrow> ProfileMetadata \<Rightarrow> SegmentInfo list \<Rightarrow> TrstManifest" where
  "wrap_manifest C device_id signing_public_key ka_pub meta segs =
     \<lparr> trst_version = ''0.2.0'', profile = wc_profile C,
       device = \<lparr> dev_id = device_id, dev_model = ''TrustEdgeRefCam'', firmware_version = ''1.0.0'', public_key = signing_public_key,
         key_agreement_public = Some ka_pub, key_epoch = None \<rparr>,
       metadata = meta, chunk_info = \<lparr> size_bytes = word_of_nat (wc_chunk_size C), chunk_duration_seconds = chunk_seconds_of C \<rparr>,
       segments = segs, claims = [''location:unknown''], encryption = None, sequence = None, prev_archive_hash = None,
       man_signature = None \<rparr>"

definition started_at_of :: "WrapCmd \<Rightarrow> wrap_env \<Rightarrow> string" where
  "started_at_of C V = (case wc_seed C of Some _ \<Rightarrow> ''2025-01-01T00:00:00Z'' | None \<Rightarrow> we_now V)"

definition check_wrap_args :: "WrapCmd \<Rightarrow> cli_error + unit" where
  "check_wrap_args C =
     (if wc_chunk_size C > MAX_CHUNK_SIZE_BYTES
      then bail (''--chunk-size must not exceed 256 MB ('' @ show_nat MAX_CHUNK_SIZE_BYTES @ '' bytes), got '' @
        show_nat (wc_chunk_size C) @ '' bytes'')
      else if wc_backend C = ''yubikey'' \<and> \<not> wc_device_key_given C then bail ''--device-key is required with --backend yubikey''
      else if wc_backend C = ''yubikey'' \<and> \<not> wc_sign_only C
      then bail ''--backend yubikey currently requires --sign-only (C4 content encryption is software-backend only)''
      else Inr ())"

definition signing_key_of :: "WrapCmd \<Rightarrow> DeviceBundle \<Rightarrow> cli_error + string" where
  "signing_key_of C bundle =
     (if wc_backend C = ''software'' then Inr (kp_public (bundle_signing bundle))
      else if wc_backend C = ''yubikey'' then bail ''YubiKey support requires building with --features yubikey''
      else bail (''Unknown backend '' @ squoted (wc_backend C) @ ''. Use '' @ squoted ''software'' @ '' or '' @ squoted ''yubikey''))"

definition check_output :: "WrapCmd \<Rightarrow> cli_error + unit" where
  "check_output C =
     res_bind (ok_or (Anyhow [''Invalid output path'']) (wc_output_name C)) (\<lambda>name.
     if ends_with ''.seal'' (bytes_str (from_utf8_lossy (str_bytes name))) then Inr ()
     else bail ''Output directory must end with .seal'')"

definition advance_chronicle ::
  "'x crates_scheme \<Rightarrow> state_json \<Rightarrow> wrap_env \<Rightarrow> fs \<Rightarrow> string \<Rightarrow> TrstManifest \<Rightarrow> ChronicleLink option \<Rightarrow> cli_error + fs" where
  "advance_chronicle X S V F signing_public_key m lk =
     (case Option.bind lk cl_state_path of
        None \<Rightarrow> Inr F
      | Some path \<Rightarrow>
          map_err (\<lambda>e. Anyhow [''Failed to update chronicle state: '' @ show_path path, e])
            (state_save S F path \<lparr> cs_device_pub = signing_public_key, cs_sequence = cl_sequence (the lk),
               cs_tip = format_archive_id X (archive_digest X m), cs_key_epoch = cl_key_epoch (the lk), cs_updated_at = we_later V \<rparr>))"

definition cek_of :: "WrapCmd \<Rightarrow> wrap_env \<Rightarrow> bytes option" where
  "cek_of C V = (if wc_sign_only C then None else Some (we_cek V))"

definition handle_wrap ::
  "'x kw_crates_scheme \<Rightarrow> man_json \<Rightarrow> state_json \<Rightarrow> WrapCmd \<Rightarrow> wrap_env \<Rightarrow> cli_error + DeviceBundle \<Rightarrow> archive_dir \<Rightarrow> fs \<Rightarrow>
     cli_error + archive_dir \<times> fs" where
  "handle_wrap X J S C V loaded D F =
     res_bind (check_wrap_args C) (\<lambda>_.
     res_bind loaded (\<lambda>bundle.
     res_bind (signing_key_of C bundle) (\<lambda>signing_public_key.
     res_bind (map_err Anyhow (pub_key_to_device_id X signing_public_key)) (\<lambda>device_id.
     res_bind (ok_or (Anyhow [''Failed to read input file: '' @ wc_input C, ''No such file or directory (os error 2)'']) (we_input V)) (\<lambda>reader.
     if concat reader = [] then bail ''Input file is empty''
     else
     res_bind (check_output C) (\<lambda>_.
     let started_at = started_at_of C V;
         cek = cek_of C V;
         chunk_aad = chunk_aad_v2 X signing_public_key (wc_profile C) started_at;
         ka_pub = public_string X (bundle_agreement bundle) in
     res_bind (try_crypto (wrap_loop X C cek (we_nonce V) chunk_aad 0 reader (writer_create X D) [])) (\<lambda>(writer, segs).
     res_bind (wrap_metadata C V started_at (length segs)) (\<lambda>meta.
     res_bind (resolve_chronicle X J S F (wc_chronicle C) (wc_prev_archive C) (wc_prev_hash C) (wc_prev_seq C) signing_public_key) (\<lambda>lk.
     res_bind (wrap_encryption X C V signing_public_key ka_pub
       (link_manifest lk (wrap_manifest C device_id signing_public_key ka_pub meta segs))) (\<lambda>m.
     res_bind (try_crypto (sign_manifest X (bundle_signing bundle) (to_canonical_bytes X m))) (\<lambda>signature.
     let m = set_signature m signature in
     res_bind (try_archive (''Failed to finalize archive: '' @ base_path D) (finalize J writer m (str_bytes signature))) (\<lambda>D'.
     res_bind (advance_chronicle X S V F signing_public_key m lk) (\<lambda>F'.
     Inr (D', F'))))))))))))))"

section \<open>Verifying\<close>

text \<open>The report without its timing and duration figures.\<close>

record VerifyReport =
  vr_signature :: string
  vr_continuity :: string
  vr_segments :: u32
  vr_profile :: string
  vr_device_id :: string
  vr_error :: "string option"
  vr_first_gap_index :: "u32 option"
  vr_out_of_order :: "bool option"
  vr_chronicle_sequence :: "u64 option"

definition empty_report :: VerifyReport where
  "empty_report = \<lparr> vr_signature = [], vr_continuity = [], vr_segments = 0, vr_profile = [], vr_device_id = [], vr_error = None,
     vr_first_gap_index = None, vr_out_of_order = None, vr_chronicle_sequence = None \<rparr>"

fun read_error_line :: "ArchiveError \<Rightarrow> string" where
  "read_error_line (MissingChunk _) = ''Missing chunk file''"
| "read_error_line (UnreferencedChunk _) = ''Unreferenced chunk file''"
| "read_error_line (InvalidChunkIndex _ _) = ''Missing chunk file''"
| "read_error_line (Json _) = ''Invalid manifest format''"
| "read_error_line SignatureMismatch = ''Signature verification failed''"
| "read_error_line (Io _) = ''Archive read error''"
| "read_error_line (SchemaMismatch _) = ''Schema error''"
| "read_error_line (ManifestE _) = ''Manifest error''"
| "read_error_line (ChainE _) = ''Continuity chain error''"
| "read_error_line (ValidationFailed _) = ''Validation error''"

definition chain_details :: "ArchiveError \<Rightarrow> VerifyReport \<Rightarrow> VerifyReport" where
  "chain_details e r =
     (case e of
        ChainE (Gap i) \<Rightarrow> r\<lparr> vr_first_gap_index := Some (word_of_nat i) \<rparr>
      | ChainE (OutOfOrder _ _) \<Rightarrow> r\<lparr> vr_out_of_order := Some True \<rparr>
      | _ \<Rightarrow> r)"

text \<open>The report is printed or written on every path; the second component is the outcome that sets the exit code.\<close>

definition handle_verify :: "'x crates_scheme \<Rightarrow> man_json \<Rightarrow> archive_dir \<Rightarrow> string \<Rightarrow> VerifyReport \<times> (cli_error + unit)" where
  "handle_verify X J D device_pub =
     (case read_manifest J D of
        Inl e \<Rightarrow> (empty_report\<lparr> vr_error := Some (''Archive read failed: '' @ archive_error_text e) \<rparr>,
          Inl (CliExitError 12 (read_error_line e)))
      | Inr (m, _) \<Rightarrow>
        (case require_supported_version (trst_version m) of
           Inl e \<Rightarrow> (empty_report\<lparr> vr_error := Some (hd e) \<rparr>, Inl (CliExitError 12 (hd e)))
         | Inr _ \<Rightarrow>
           let device_pub_key = normalize_device_pub device_pub;
               r = empty_report\<lparr> vr_profile := profile m, vr_device_id := dev_id (device m), vr_segments := word_of_nat (length (segments m)),
                 vr_chronicle_sequence := sequence m \<rparr>;
               failed = (\<lambda>e. r\<lparr> vr_signature := ''fail'', vr_continuity := ''skip'', vr_error := Some e \<rparr>) in
           (case man_signature m of
              None \<Rightarrow> (failed ''Manifest missing signature'', Inl (CliExitError 12 ''Manifest missing signature''))
            | Some signature \<Rightarrow>
              (case verify_manifest X device_pub_key (to_canonical_bytes X m) signature of
                 Inr True \<Rightarrow>
                   (case validate_archive X J D of
                      Inr _ \<Rightarrow> (r\<lparr> vr_signature := ''pass'', vr_continuity := ''pass'' \<rparr>, Inr ())
                    | Inl e \<Rightarrow>
                        (chain_details e (r\<lparr> vr_signature := ''pass'', vr_continuity := ''fail'', vr_error := Some (archive_error_text e) \<rparr>),
                         Inl (CliExitError 11 ''Continuity chain verification failed'')))
               | Inr False \<Rightarrow> (failed ''Signature verification failed'', Inl (CliExitError 10 ''Signature verification failed''))
               | Inl e \<Rightarrow> (failed (''Signature verification error: '' @ crypto_error_text e),
                   Inl (CliExitError 10 ''Signature verification failed''))))))"

section \<open>Unwrapping\<close>

definition check_signer_pin :: "string option \<Rightarrow> TrstManifest \<Rightarrow> cli_error + unit" where
  "check_signer_pin pin m =
     (case pin of None \<Rightarrow> Inr ()
      | Some k \<Rightarrow> if normalize_device_pub k \<noteq> public_key (device m)
          then Inl (CliExitError 10 (''Signer mismatch: expected '' @ normalize_device_pub k @ '', archive is signed by '' @ public_key (device m)))
          else Inr ())"

definition decrypt_ctx :: "'x kw_crates_scheme \<Rightarrow> DeviceBundle \<Rightarrow> TrstManifest \<Rightarrow> cli_error + (bytes \<times> bytes) option" where
  "decrypt_ctx X bundle m =
     (case encryption m of
        None \<Rightarrow> Inr None
      | Some enc \<Rightarrow>
          res_bind (ok_or (Anyhow [''This key is not a recipient of the archive''])
            (find (\<lambda>r. recipient_pub r = public_string X (bundle_agreement bundle)) (recipients enc))) (\<lambda>entry.
          let pre_digest = segment_hash X (to_canonical_bytes X (m\<lparr> encryption := None \<rparr>));
              info = cek_wrap_info (public_key (device m)) (trst_version m) in
          res_bind (map_err (\<lambda>e. CliExitError 1 (''Failed to unwrap content key: '' @ crypto_error_text e))
            (hpke_open_cek X (bundle_agreement bundle) (recipient_enc entry) info pre_digest (wrapped_cek entry))) (\<lambda>cek.
          Inr (Some (cek, chunk_aad_v2 X (public_key (device m)) (profile m) (manifest_started_at (metadata m)))))))"

definition recover_chunk :: "'x crates_scheme \<Rightarrow> archive_dir \<Rightarrow> (bytes \<times> bytes) option \<Rightarrow> nat \<Rightarrow> cli_error + bytes" where
  "recover_chunk X D ctx i =
     (let name = chunk_filename i in
      res_bind (ok_or (Anyhow [''Failed to read chunk: '' @ base_path D @ ''/chunks/'' @ name, ''No such file or directory (os error 2)''])
        (chunk_content D name)) (\<lambda>content.
      let stored = take (MAX_STORED_CHUNK_BYTES + 1) content in
      if length stored > MAX_STORED_CHUNK_BYTES then bail (''Chunk '' @ show_nat05 i @ '' exceeds the maximum stored size'')
      else
      (case ctx of
         None \<Rightarrow> Inr stored
       | Some (cek, chunk_aad) \<Rightarrow>
           if length stored < 24
           then bail (''Chunk '' @ show_nat05 i @ '' too short to contain nonce ('' @ show_nat (length stored) @ '' bytes)'')
           else map_err (\<lambda>e. CliExitError 1 (''Decryption failed '' @ em_dash @ '' wrong key or corrupted archive: '' @ crypto_error_text e))
             (decrypt_segment X cek (take 24 stored) (drop 24 stored) chunk_aad))))"

text \<open>The loop over the chunks: what was written to the temporary file so far, and how it went.\<close>

fun recover_loop :: "'x crates_scheme \<Rightarrow> archive_dir \<Rightarrow> (bytes \<times> bytes) option \<Rightarrow> nat list \<Rightarrow> bytes \<Rightarrow> cli_error + bytes" where
  "recover_loop X D ctx [] out = Inr out"
| "recover_loop X D ctx (i # is) out = res_bind (recover_chunk X D ctx i) (\<lambda>p. recover_loop X D ctx is (out @ p))"

definition unwrap_checks ::
  "'x kw_crates_scheme \<Rightarrow> man_json \<Rightarrow> cli_error + DeviceBundle \<Rightarrow> archive_dir \<Rightarrow> string option \<Rightarrow>
     cli_error + TrstManifest \<times> (bytes \<times> bytes) option" where
  "unwrap_checks X J loaded D pin =
     res_bind loaded (\<lambda>bundle.
     res_bind (try_archive (''Failed to read archive: '' @ base_path D) (read_manifest J D)) (\<lambda>(m, _).
     res_bind (map_err Anyhow (require_supported_version (trst_version m))) (\<lambda>_.
     res_bind (check_signer_pin pin m) (\<lambda>_.
     res_bind (ok_or (Anyhow [''Archive has no signature'']) (man_signature m)) (\<lambda>signature.
     res_bind (try_crypto (verify_manifest X (public_key (device m)) (to_canonical_bytes X m) signature)) (\<lambda>sig_valid.
     if \<not> sig_valid then Inl (CliExitError 10 ''Signature: FAIL'')
     else
     res_bind (map_err (\<lambda>e. CliExitError 11 (''Continuity: FAIL ('' @ archive_error_text e @ '')'')) (validate_archive X J D)) (\<lambda>_.
     res_bind (decrypt_ctx X bundle m) (\<lambda>ctx. Inr (m, ctx)))))))))"

definition unwrap_tmp_path :: "nat \<Rightarrow> fs_path \<Rightarrow> fs_path" where
  "unwrap_tmp_path pid output =
     (fst output, Some ((case snd output of None \<Rightarrow> [] | Some n \<Rightarrow> n) @ ''.seal-unwrap.'' @ show_nat pid @ ''.partial''))"

text \<open>
  The file system after the command. The temporary file is created after the checks; the guard removes it on
  every error that follows, and on success it is renamed into place.
\<close>

definition handle_unwrap ::
  "'x kw_crates_scheme \<Rightarrow> man_json \<Rightarrow> cli_error + DeviceBundle \<Rightarrow> archive_dir \<Rightarrow> string option \<Rightarrow> nat \<Rightarrow> fs_path \<Rightarrow> fs \<Rightarrow>
     fs \<times> (cli_error + unit)" where
  "handle_unwrap X J loaded D pin pid output F =
     (case unwrap_checks X J loaded D pin of
        Inl e \<Rightarrow> (F, Inl e)
      | Inr (m, ctx) \<Rightarrow>
          let tmp_path = unwrap_tmp_path pid output in
          (case recover_loop X D ctx [0..<length (segments m)] [] of
             Inl e \<Rightarrow> (F(tmp_path := None), Inl e)
           | Inr out \<Rightarrow> (F(output := Some out, tmp_path := None), Inr ())))"

section \<open>Lemmas on the chunk loop\<close>

text \<open>The loop over whole chunks, as the code had it before it read the input in pieces.\<close>

fun wrap_ref ::
  "'x crates_scheme \<Rightarrow> WrapCmd \<Rightarrow> bytes option \<Rightarrow> (nat \<Rightarrow> bytes) \<Rightarrow> bytes \<Rightarrow> nat \<Rightarrow> bytes list \<Rightarrow> ArchiveWriter \<Rightarrow> SegmentInfo list \<Rightarrow>
     CryptoError + ArchiveWriter \<times> SegmentInfo list" where
  "wrap_ref X C key nonce aad i [] writer segs = Inr (writer, segs)"
| "wrap_ref X C key nonce aad i (c # cs) writer segs =
     res_bind (stored_chunk X key nonce aad i c) (\<lambda>stored.
     wrap_ref X C key nonce aad (Suc i) cs (fst (push_chunk X writer stored))
       (segs @ [wrap_segment X C i (snd (push_chunk X writer stored))]))"

lemma wrap_loop_ref:
  "0 < wc_chunk_size C \<Longrightarrow> [] \<notin> set reader \<Longrightarrow>
     wrap_loop X C key nonce aad i reader writer segs = wrap_ref X C key nonce aad i (chunks (wc_chunk_size C) (concat reader)) writer segs"
proof (induction X C key nonce aad i reader writer segs rule: wrap_loop.induct)
  case (1 X C key nonce aad i reader writer segs)
  obtain c rest where r: "read_exact_or_eof (wc_chunk_size C) [] reader = (c, rest)" by (cases "read_exact_or_eof (wc_chunk_size C) [] reader")
  have cr: "c = take (wc_chunk_size C) (concat reader)" "concat rest = drop (wc_chunk_size C) (concat reader)" "[] \<notin> set rest"
    using concat_pieces [OF r 1(3)] by simp_all
  show ?case
  proof (cases "c = []")
    case True
    then have "concat reader = []" using cr(1) 1(2) by (cases "concat reader") simp_all
    then have "chunks (wc_chunk_size C) (concat reader) = []" by (simp only: chunks_Nil)
    then show ?thesis using True by (subst wrap_loop.simps) (simp add: r)
  next
    case False
    then have ch: "chunks (wc_chunk_size C) (concat reader) = c # chunks (wc_chunk_size C) (concat rest)"
      using cr 1(2) by (simp add: chunks_step)
    have "wrap_loop X C key nonce aad (Suc i) rest w (segs @ [wrap_segment X C i out]) =
        wrap_ref X C key nonce aad (Suc i) (chunks (wc_chunk_size C) (concat rest)) w (segs @ [wrap_segment X C i out])"
      if "stored_chunk X key nonce aad i c = Inr st" "push_chunk X writer st = (w, out)" for st w out
      using 1(1) [OF r [symmetric] False that(1) that(2) [symmetric] 1(2) cr(3)] .
    then show ?thesis
      using False by (subst wrap_loop.simps) (auto simp: r ch res_bind_def split: sum.splits prod.splits)
  qed
qed

lemma segment_for_prefix: "segment_for X cs k s \<Longrightarrow> k < length cs \<Longrightarrow> segment_for X (cs @ ds) k s"
  by (simp add: segment_for_def chain_values_nth nth_append)

lemma pushed_segment:
  assumes "Suc (length cs) < 2 ^ 32"
  shows "segment_for X (cs @ [c]) (length cs) (wrap_segment X C i (snd (push_chunk X (writer_run X D cs) c)))"
proof -
  have "writer_inv X D (writer_run X D cs, cs)" using assms by (intro writer_run_inv) simp
  then have "unat (next_index (writer_run X D cs)) = length cs" "chain_state (writer_run X D cs) = chain_tip X (map (segment_hash X) cs)"
    using assms by (auto simp: writer_inv_def unat_index)
  then show ?thesis
    by (simp add: segment_for_def wrap_segment_def push_chunk_def Let_def chain_values_nth chain_tip_def)
qed

lemma wrap_ref_result:
  assumes "wrap_ref X C key nonce aad (length pre) cs (writer_run X D pre) segs = Inr (w, segs')"
    and "length pre + length cs < 2 ^ 32" "length segs = length pre" "\<And>k. k < length pre \<Longrightarrow> segment_for X pre k (segs ! k)"
  shows "\<exists>ss. length ss = length cs \<and> (\<forall>k < length cs. stored_chunk X key nonce aad (length pre + k) (cs ! k) = Inr (ss ! k)) \<and>
    w = writer_run X D (pre @ ss) \<and> length segs' = length (pre @ ss) \<and> (\<forall>k < length (pre @ ss). segment_for X (pre @ ss) k (segs' ! k))"
  using assms
proof (induction cs arbitrary: pre segs)
  case (Cons c cs)
  from Cons.prems(1) obtain st where st: "stored_chunk X key nonce aad (length pre) c = Inr st"
    and rest: "wrap_ref X C key nonce aad (length (pre @ [st])) cs (writer_run X D (pre @ [st]))
      (segs @ [wrap_segment X C (length pre) (snd (push_chunk X (writer_run X D pre) st))]) = Inr (w, segs')"
    by (auto simp: res_simps writer_run_def)
  have seg: "segment_for X (pre @ [st]) k ((segs @ [wrap_segment X C (length pre) (snd (push_chunk X (writer_run X D pre) st))]) ! k)"
    if "k < length (pre @ [st])" for k
  proof (cases "k = length pre")
    case True
    then show ?thesis using pushed_segment [of pre X st C "length pre" D] Cons.prems(2,3) by (simp add: nth_append)
  next
    case False
    then show ?thesis using that Cons.prems(3,4) by (simp add: nth_append segment_for_prefix)
  qed
  from Cons.IH [OF rest _ _ seg] Cons.prems(2,3) obtain ss where ss: "length ss = length cs"
    "\<forall>k < length cs. stored_chunk X key nonce aad (length (pre @ [st]) + k) (cs ! k) = Inr (ss ! k)"
    "w = writer_run X D ((pre @ [st]) @ ss)" "length segs' = length ((pre @ [st]) @ ss)"
    "\<forall>k < length ((pre @ [st]) @ ss). segment_for X ((pre @ [st]) @ ss) k (segs' ! k)"
    by auto
  show ?case
  proof (intro exI [of _ "st # ss"] conjI)
    show "\<forall>k < length (c # cs). stored_chunk X key nonce aad (length pre + k) ((c # cs) ! k) = Inr ((st # ss) ! k)"
      using st ss(2) by (auto simp: nth_Cons split: nat.splits)
  qed (use ss in simp_all)
qed (auto simp: writer_run_def)

section \<open>Lemmas on recovery\<close>

lemma stored_chunk_opens:
  assumes "aead_ok (xchacha_seal X) (xchacha_open X)" "\<And>i. length (nonce i) = 24" "stored_chunk X key nonce aad k c = Inr st"
    and "chunk_content D (chunk_filename k) = Some st" "length st \<le> MAX_STORED_CHUNK_BYTES"
  shows "recover_chunk X D (map_option (\<lambda>x. (x, aad)) key) k = Inr c"
proof -
  have t: "take (MAX_STORED_CHUNK_BYTES + 1) st = st" using assms(5) by simp
  show ?thesis
  proof (cases key)
    case None
    then show ?thesis using assms(3-5) by (simp add: recover_chunk_def stored_chunk_def t Let_def)
  next
    case (Some x)
    then obtain ct where ct: "xchacha_seal X x (nonce k) c aad = Inr ct" "st = nonce k @ ct"
      using assms(3) by (auto simp: stored_chunk_def encrypt_segment_def res_simps)
    have "decrypt_segment X x (nonce k) ct aad = Inr c"
      using aead_ok_open [OF assms(1) ct(1)] by (simp add: decrypt_segment_def)
    then show ?thesis
      using assms(2) [of k] assms(4,5) by (simp add: recover_chunk_def Some t Let_def) (simp add: ct(2))
  qed
qed

lemma stored_chunk_length:
  assumes "aead_ok (xchacha_seal X) (xchacha_open X)" "\<And>i. length (nonce i) = 24" "stored_chunk X key nonce aad k c = Inr st"
    and "length c \<le> MAX_CHUNK_SIZE_BYTES"
  shows "length st \<le> MAX_STORED_CHUNK_BYTES"
proof (cases key)
  case None
  then show ?thesis using assms(3,4) by (simp add: stored_chunk_def MAX_STORED_CHUNK_BYTES_def)
next
  case (Some x)
  then obtain ct where ct: "xchacha_seal X x (nonce k) c aad = Inr ct" "st = nonce k @ ct"
    using assms(3) by (auto simp: stored_chunk_def encrypt_segment_def res_simps)
  then show ?thesis using aead_ok_length [OF assms(1) ct(1)] assms(2) [of k] assms(4) by (simp add: MAX_STORED_CHUNK_BYTES_def)
qed

lemma recover_loop_chunks:
  "(\<And>k. k \<in> set ks \<Longrightarrow> recover_chunk X D ctx k = Inr (f k)) \<Longrightarrow> recover_loop X D ctx ks out = Inr (out @ concat (map f ks))"
  by (induction ks arbitrary: out) simp_all

text \<open>Every recipient of a sealed list can be found again, and opens the content key.\<close>

lemma seal_recipients_pubs:
  "seal_recipients X rnd info d cek i ps = Inr rs \<Longrightarrow> map recipient_pub rs = ps"
  by (induction ps arbitrary: i rs) (auto simp: res_simps)

lemma seal_recipients_sealed:
  "seal_recipients X rnd info d cek i ps = Inr rs \<Longrightarrow> r \<in> set rs \<Longrightarrow>
     \<exists>j. hpke_seal_cek_with_rng X (rnd j) (recipient_pub r) info d cek = Inr (recipient_enc r, wrapped_cek r)"
proof (induction ps arbitrary: i rs)
  case (Cons p ps)
  then show ?case by (auto simp: res_simps) blast
qed simp

lemma set_add_recipients: "set (add_recipients acc rs) = set acc \<union> set rs"
  by (induction rs arbitrary: acc) auto

lemma recipients_distinct: "distinct acc \<Longrightarrow> distinct (add_recipients acc rs)"
  by (induction rs arbitrary: acc) auto

lemma recipient_opens:
  assumes "b64_ok X" "hpke_ok X" "length sk = 32" "length cek = 32" "seal_recipients X rnd info d cek i ps = Inr rs"
    and "public_string X (ka_generate X sk) \<in> set ps"
  shows "\<exists>r. find (\<lambda>r. recipient_pub r = public_string X (ka_generate X sk)) rs = Some r \<and>
    hpke_open_cek X (ka_generate X sk) (recipient_enc r) info d (wrapped_cek r) = Inr cek"
proof -
  have "find (\<lambda>r. recipient_pub r = public_string X (ka_generate X sk)) rs \<noteq> None"
    using assms(6) seal_recipients_pubs [OF assms(5)] by (auto simp: find_None_iff) blast
  then obtain r where f: "find (\<lambda>r. recipient_pub r = public_string X (ka_generate X sk)) rs = Some r" by blast
  then have r: "r \<in> set rs" "recipient_pub r = public_string X (ka_generate X sk)"
    by (auto simp: find_Some_iff)
  obtain j where "hpke_seal_cek_with_rng X (rnd j) (public_string X (ka_generate X sk)) info d cek = Inr (recipient_enc r, wrapped_cek r)"
    using seal_recipients_sealed [OF assms(5) r(1)] r(2) by auto
  from f hpke_cek_opens [OF assms(1-4) this] show ?thesis by blast
qed

section \<open>Lemmas on a whole run\<close>

lemma handle_wrap_steps:
  assumes "handle_wrap X J S C V (Inr b) D F = Inr (D', F')"
  obtains pub did reader w segs meta lk m0 sig where
    "check_wrap_args C = Inr ()" "signing_key_of C b = Inr pub" "pub_key_to_device_id X pub = Inr did" "we_input V = Some reader"
    "concat reader \<noteq> []"
    "wrap_loop X C (cek_of C V) (we_nonce V) (chunk_aad_v2 X pub (wc_profile C) (started_at_of C V)) 0 reader (writer_create X D) [] = Inr (w, segs)"
    "wrap_metadata C V (started_at_of C V) (length segs) = Inr meta"
    "resolve_chronicle X J S F (wc_chronicle C) (wc_prev_archive C) (wc_prev_hash C) (wc_prev_seq C) pub = Inr lk"
    "wrap_encryption X C V pub (public_string X (bundle_agreement b))
       (link_manifest lk (wrap_manifest C did pub (public_string X (bundle_agreement b)) meta segs)) = Inr m0"
    "sign_manifest X (bundle_signing b) (to_canonical_bytes X m0) = Inr sig"
    "finalize J w (set_signature m0 sig) (str_bytes sig) = Inr D'"
    "advance_chronicle X S V F pub (set_signature m0 sig) lk = Inr F'"
  using assms unfolding handle_wrap_def Let_def try_crypto_def try_archive_def bail_def
  by (clarsimp simp: res_simps simp del: concat_eq_Nil_conv split: if_splits prod.splits)

text \<open>What the later steps keep of the manifest.\<close>

lemma link_manifest_fields [simp]:
  "trst_version (link_manifest lk m) = trst_version m" "profile (link_manifest lk m) = profile m"
  "metadata (link_manifest lk m) = metadata m" "segments (link_manifest lk m) = segments m"
  "public_key (device (link_manifest lk m)) = public_key (device m)" "encryption (link_manifest lk m) = encryption m"
  "man_signature (link_manifest lk m) = man_signature m" "dev_id (device (link_manifest lk m)) = dev_id (device m)"
  by (simp_all add: link_manifest_def split: option.splits)

lemma wrap_encryption_result:
  assumes "wrap_encryption X C V pub ka m = Inr m0" "encryption m = None"
  shows "m0\<lparr> encryption := None \<rparr> = m \<and>
    (if wc_sign_only C then encryption m0 = None
     else \<exists>e rs. encryption m0 = Some e \<and> recipients e = rs \<and>
       seal_recipients X (we_hpke V) (cek_wrap_info pub (trst_version m)) (segment_hash X (to_canonical_bytes X m)) (we_cek V) 0
         (add_recipients [ka] (wc_recipients C)) = Inr rs)"
  using assms by (auto simp: wrap_encryption_def Let_def try_crypto_def bail_def res_simps split: if_splits)

lemma set_signature_fields [simp]:
  "trst_version (set_signature m s) = trst_version m" "profile (set_signature m s) = profile m"
  "metadata (set_signature m s) = metadata m" "segments (set_signature m s) = segments m" "device (set_signature m s) = device m"
  "encryption (set_signature m s) = encryption m" "man_signature (set_signature m s) = Some s"
  "sequence (set_signature m s) = sequence m" "prev_archive_hash (set_signature m s) = prev_archive_hash m"
  by (simp_all add: set_signature_def)

lemma canonical_set_signature [simp]: "to_canonical_bytes X (set_signature m s) = to_canonical_bytes X m"
  by (simp add: to_canonical_bytes_def set_signature_def)

lemma encryption_fields:
  assumes "m0\<lparr> encryption := None \<rparr> = m"
  shows "trst_version m0 = trst_version m" "profile m0 = profile m" "metadata m0 = metadata m" "segments m0 = segments m"
    "device m0 = device m" "sequence m0 = sequence m" "prev_archive_hash m0 = prev_archive_hash m"
  using assms by (cases m0; auto)+

text \<open>base64 text is ASCII and short.\<close>

definition b64_text :: "'x crates_scheme \<Rightarrow> bool" where
  "b64_text X \<longleftrightarrow> (\<forall>b. ascii (b64_encode X b) \<and> length (b64_encode X b) \<le> 2 * length b + 4)"

lemma own_signature_ok:
  assumes "b64_text X" "ed_ok X"
  shows "utf8_valid (str_bytes (own_signature X sk m)) \<and> length (own_signature X sk m) \<le> SIG_MAX_BYTES"
proof -
  have "ascii ''ed25519:''" by (simp add: ascii_def)
  then have "ascii (own_signature X sk m)" unfolding own_signature_def ascii_append using assms(1) by (simp add: b64_text_def)
  moreover have "length (b64_encode X (ed_sign X sk m)) \<le> 2 * length (ed_sign X sk m) + 4"
    using assms(1) unfolding b64_text_def by blast
  then have "length (b64_encode X (ed_sign X sk m)) \<le> 132" by (simp add: ed_ok_simps(3) [OF assms(2)])
  ultimately show ?thesis by (simp add: utf8_valid_str own_signature_def SIG_MAX_BYTES_def)
qed

lemma finalize_read:
  assumes "finalize J w m (str_bytes s) = Inr D'" "man_json_ok J m" "man_signature m = Some s" "utf8_valid (str_bytes s)"
    and "length s \<le> SIG_MAX_BYTES"
  shows "read_manifest J D' = Inr (m, str_bytes s) \<and> chunk_entries D' = chunk_entries (w_dir w)"
  using assms
  by (auto simp: finalize_def read_manifest_def read_capped_iff man_json_ok_def from_utf8_lossy_valid res_simps split: if_splits)

lemma wrap_metadata_started: "wrap_metadata C V s n = Inr meta \<Longrightarrow> manifest_started_at meta = s"
  by (auto simp: wrap_metadata_def Let_def res_simps split: if_splits)

lemma wrap_loop_result:
  assumes "wrap_loop X C key nonce aad 0 reader (writer_create X D) [] = Inr (w, segs)" "0 < wc_chunk_size C" "[] \<notin> set reader"
    and "length (chunks (wc_chunk_size C) (concat reader)) < 2 ^ 32"
  obtains ss where "length ss = length (chunks (wc_chunk_size C) (concat reader))"
    "\<And>k. k < length ss \<Longrightarrow> stored_chunk X key nonce aad k (chunks (wc_chunk_size C) (concat reader) ! k) = Inr (ss ! k)"
    "w = writer_run X D ss" "length segs = length ss" "\<And>k. k < length ss \<Longrightarrow> segment_for X ss k (segs ! k)"
proof -
  have "wrap_ref X C key nonce aad (length ([] :: bytes list)) (chunks (wc_chunk_size C) (concat reader)) (writer_run X D []) [] = Inr (w, segs)"
    using assms(1) by (simp add: wrap_loop_ref [OF assms(2,3)] writer_run_def)
  from wrap_ref_result [OF this] assms(4) show ?thesis using that by auto
qed

text \<open>The circumstances in which the round trip is stated: the crates behave, and the run starts from a clean directory.\<close>

definition wrap_setting :: "'x kw_crates_scheme \<Rightarrow> man_json \<Rightarrow> WrapCmd \<Rightarrow> wrap_env \<Rightarrow> archive_dir \<Rightarrow> bytes list \<Rightarrow> bool" where
  "wrap_setting X J C V D reader \<longleftrightarrow> hex_ok X \<and> blake3_len X \<and> b64_ok X \<and> b64_text X \<and> ed_ok X \<and> hpke_ok X \<and>
     aead_ok (xchacha_seal X) (xchacha_open X) \<and> (\<forall>m. man_json_ok J m) \<and> no_chunk_files D \<and>
     we_input V = Some reader \<and> [] \<notin> set reader \<and> 0 < wc_chunk_size C \<and> length (chunks (wc_chunk_size C) (concat reader)) < 2 ^ 32 \<and>
     (\<forall>i. length (we_nonce V i) = 24) \<and> length (we_cek V) = 32"

text \<open>What a successful wrap wrote, for a bundle whose signing key comes from \<open>sk\<close>.\<close>

definition wrapped ::
  "'x kw_crates_scheme \<Rightarrow> man_json \<Rightarrow> WrapCmd \<Rightarrow> wrap_env \<Rightarrow> DeviceBundle \<Rightarrow> bytes \<Rightarrow> archive_dir \<Rightarrow> bytes list \<Rightarrow> ChronicleLink option \<Rightarrow>
     TrstManifest \<Rightarrow> bool" where
  "wrapped X J C V b sk D' ss lk m \<longleftrightarrow>
     (let pub = kp_public (keypair_of X sk) in
      read_manifest J D' = Inr (m, str_bytes (own_signature X sk (to_canonical_bytes X m))) \<and>
      man_signature m = Some (own_signature X sk (to_canonical_bytes X m)) \<and> public_key (device m) = pub \<and>
      trst_version m = ''0.2.0'' \<and> profile m = wc_profile C \<and> manifest_started_at (metadata m) = started_at_of C V \<and>
      length (segments m) = length ss \<and> (manifest_valid m \<longrightarrow> archive_intact X D' m ss) \<and>
      sequence m = Option.bind lk (\<lambda>l. Some (cl_sequence l)) \<and> prev_archive_hash m = Option.bind lk cl_prev \<and>
      key_epoch (device m) = Option.bind lk (\<lambda>l. if 0 < cl_key_epoch l then Some (cl_key_epoch l) else None) \<and>
      (if wc_sign_only C then encryption m = None
       else \<exists>e. encryption m = Some e \<and>
         seal_recipients X (we_hpke V) (cek_wrap_info pub ''0.2.0'')
           (segment_hash X (to_canonical_bytes X (m\<lparr> encryption := None, man_signature := None \<rparr>))) (we_cek V) 0
           (add_recipients [public_string X (bundle_agreement b)] (wc_recipients C)) = Inr (recipients e)))"

lemma handle_wrap_wrapped:
  assumes "wrap_setting X J C V D reader" "bundle_signing b = keypair_of X sk" "handle_wrap X J S C V (Inr b) D F = Inr (D', F')"
  obtains ss lk m where "wrapped X J C V b sk D' ss lk m" "length ss = length (chunks (wc_chunk_size C) (concat reader))"
    "\<And>k. k < length ss \<Longrightarrow> stored_chunk X (cek_of C V) (we_nonce V)
       (chunk_aad_v2 X (kp_public (keypair_of X sk)) (wc_profile C) (started_at_of C V)) k (chunks (wc_chunk_size C) (concat reader) ! k) = Inr (ss ! k)"
    "resolve_chronicle X J S F (wc_chronicle C) (wc_prev_archive C) (wc_prev_hash C) (wc_prev_seq C) (kp_public (keypair_of X sk)) = Inr lk"
    "advance_chronicle X S V F (kp_public (keypair_of X sk)) m lk = Inr F'" "wc_chunk_size C \<le> MAX_CHUNK_SIZE_BYTES"
proof -
  from assms(3) obtain pub did reader' w segs meta lk m0 sig where st:
    "check_wrap_args C = Inr ()" "signing_key_of C b = Inr pub" "pub_key_to_device_id X pub = Inr did" "we_input V = Some reader'"
    "concat reader' \<noteq> []"
    "wrap_loop X C (cek_of C V) (we_nonce V) (chunk_aad_v2 X pub (wc_profile C) (started_at_of C V)) 0 reader' (writer_create X D) [] = Inr (w, segs)"
    "wrap_metadata C V (started_at_of C V) (length segs) = Inr meta"
    "resolve_chronicle X J S F (wc_chronicle C) (wc_prev_archive C) (wc_prev_hash C) (wc_prev_seq C) pub = Inr lk"
    "wrap_encryption X C V pub (public_string X (bundle_agreement b))
       (link_manifest lk (wrap_manifest C did pub (public_string X (bundle_agreement b)) meta segs)) = Inr m0"
    "sign_manifest X (bundle_signing b) (to_canonical_bytes X m0) = Inr sig"
    "finalize J w (set_signature m0 sig) (str_bytes sig) = Inr D'"
    "advance_chronicle X S V F pub (set_signature m0 sig) lk = Inr F'"
    by (rule handle_wrap_steps)
  note set = assms(1) [unfolded wrap_setting_def]
  have reader: "reader' = reader" using st(4) set by simp
  have pub: "pub = kp_public (keypair_of X sk)"
    using st(2) assms(2) by (auto simp: signing_key_of_def bail_def split: if_splits)
  have sig: "sig = own_signature X sk (to_canonical_bytes X m0)" using st(10) by (simp add: assms(2))
  have cap: "wc_chunk_size C \<le> MAX_CHUNK_SIZE_BYTES" using st(1) by (auto simp: check_wrap_args_def bail_def split: if_splits)
  from wrap_loop_result [OF st(6)] obtain ss where ss: "length ss = length (chunks (wc_chunk_size C) (concat reader))"
    "\<And>k. k < length ss \<Longrightarrow> stored_chunk X (cek_of C V) (we_nonce V) (chunk_aad_v2 X pub (wc_profile C) (started_at_of C V)) k
       (chunks (wc_chunk_size C) (concat reader) ! k) = Inr (ss ! k)"
    "w = writer_run X D ss" "length segs = length ss" "\<And>k. k < length ss \<Longrightarrow> segment_for X ss k (segs ! k)"
    using set unfolding reader by blast
  let ?m = "set_signature m0 sig" and ?m1 = "link_manifest lk (wrap_manifest C did pub (public_string X (bundle_agreement b)) meta segs)"
  define m1 where "m1 = ?m1"
  have m1: "trst_version m1 = ''0.2.0''" "profile m1 = wc_profile C" "metadata m1 = meta" "segments m1 = segs"
    "public_key (device m1) = pub" "encryption m1 = None" "man_signature m1 = None"
    "sequence m1 = Option.bind lk (\<lambda>l. Some (cl_sequence l))" "prev_archive_hash m1 = Option.bind lk cl_prev"
    "key_epoch (device m1) = Option.bind lk (\<lambda>l. if 0 < cl_key_epoch l then Some (cl_key_epoch l) else None)"
    by (simp_all add: m1_def wrap_manifest_def) (simp_all add: link_manifest_def split: option.splits)
  have enc: "m0\<lparr> encryption := None \<rparr> = m1" "if wc_sign_only C then encryption m0 = None
     else \<exists>e. encryption m0 = Some e \<and>
       seal_recipients X (we_hpke V) (cek_wrap_info pub ''0.2.0'') (segment_hash X (to_canonical_bytes X m1)) (we_cek V) 0
         (add_recipients [public_string X (bundle_agreement b)] (wc_recipients C)) = Inr (recipients e)"
    using wrap_encryption_result [OF st(9) [folded m1_def] m1(6)] m1(1) by (auto split: if_splits)
  note f = encryption_fields [OF enc(1)]
  have fin: "read_manifest J D' = Inr (?m, str_bytes sig)" "chunk_entries D' = chunk_entries (w_dir w)"
    using finalize_read [OF st(11)] own_signature_ok [of X sk] set by (simp_all add: sig)
  have "list_all (\<lambda>c. length c \<le> MAX_STORED_CHUNK_BYTES) ss"
  proof -
    have "length (chunks (wc_chunk_size C) (concat reader) ! k) \<le> MAX_CHUNK_SIZE_BYTES" if "k < length ss" for k
      using chunks_bounds [OF nth_mem [of k "chunks (wc_chunk_size C) (concat reader)"]] that ss(1) cap by auto
    then show ?thesis using ss(2) stored_chunk_length set unfolding list_all_length by blast
  qed
  then have intact: "manifest_valid ?m \<longrightarrow> archive_intact X D' ?m ss"
    using written_archive_intact [of X D ?m ss D'] set ss fin(2) f(4) m1(4) by simp
  have "?m\<lparr> encryption := None, man_signature := None \<rparr> = (m0\<lparr> encryption := None \<rparr>)\<lparr> man_signature := None \<rparr>"
    by (simp add: set_signature_def)
  then have m1': "?m\<lparr> encryption := None, man_signature := None \<rparr> = m1"
    by (cases m1) (use enc(1) m1(7) in simp)
  have "wrapped X J C V b sk D' ss lk ?m"
    unfolding wrapped_def Let_def m1'
    using fin(1) intact enc(2) [unfolded pub] f m1 ss(4) wrap_metadata_started [OF st(7)] by (simp add: pub sig)
  then show ?thesis using that ss(1,2) st(8,12) cap unfolding pub by blast
qed

lemma normalize_own [simp]: "normalize_device_pub (kp_public (keypair_of X sk)) = kp_public (keypair_of X sk)"
  by (simp add: normalize_device_pub_def keypair_of_def starts_with_def)

lemma canonical_unsigned [simp]: "to_canonical_bytes X (m\<lparr> man_signature := s \<rparr>) = to_canonical_bytes X m"
  by (simp add: to_canonical_bytes_def)

lemma archive_intact_accepted: "read_manifest J D = Inr (m, raw) \<Longrightarrow> archive_intact X D m ss \<Longrightarrow> validate_archive X J D = Inr ()"
  unfolding validate_archive_iff by blast

lemma archive_intact_chunks:
  "archive_intact X D m ss \<Longrightarrow> k < length ss \<Longrightarrow>
     chunk_content D (chunk_filename k) = Some (ss ! k) \<and> length (ss ! k) \<le> MAX_STORED_CHUNK_BYTES"
  by (auto simp: archive_intact_def chunk_intact_def)

text \<open>A key for which the archive was made: any key when it is not encrypted.\<close>

definition intended :: "'x kw_crates_scheme \<Rightarrow> WrapCmd \<Rightarrow> DeviceBundle \<Rightarrow> DeviceBundle \<Rightarrow> bytes \<Rightarrow> bool" where
  "intended X C b b' s \<longleftrightarrow> bundle_agreement b' = ka_generate X s \<and> length s = 32 \<and>
     (wc_sign_only C \<or> public_string X (bundle_agreement b') \<in> insert (public_string X (bundle_agreement b)) (set (wc_recipients C)))"

lemma wrapped_decrypt_ctx:
  assumes "wrapped X J C V b sk D' ss lk m" "wrap_setting X J C V D reader" "intended X C b b' s"
  shows "decrypt_ctx X b' m =
    Inr (map_option (\<lambda>x. (x, chunk_aad_v2 X (kp_public (keypair_of X sk)) (wc_profile C) (started_at_of C V))) (cek_of C V))"
proof (cases "wc_sign_only C")
  case True
  then show ?thesis using assms(1) by (simp add: wrapped_def Let_def decrypt_ctx_def cek_of_def)
next
  case False
  then obtain e where e: "encryption m = Some e"
    "seal_recipients X (we_hpke V) (cek_wrap_info (kp_public (keypair_of X sk)) ''0.2.0'')
       (segment_hash X (to_canonical_bytes X (m\<lparr> encryption := None \<rparr>))) (we_cek V) 0
       (add_recipients [public_string X (bundle_agreement b)] (wc_recipients C)) = Inr (recipients e)"
    using assms(1) canonical_unsigned [of X None "m\<lparr> encryption := None \<rparr>"] by (auto simp: wrapped_def Let_def)
  have "b64_ok X" "hpke_ok X" "length (we_cek V) = 32" using assms(2) by (simp_all add: wrap_setting_def)
  from recipient_opens [OF this(1,2) _ this(3) e(2), of s] obtain r where
    "find (\<lambda>r. recipient_pub r = public_string X (ka_generate X s)) (recipients e) = Some r"
    "hpke_open_cek X (ka_generate X s) (recipient_enc r) (cek_wrap_info (kp_public (keypair_of X sk)) ''0.2.0'')
       (segment_hash X (to_canonical_bytes X (m\<lparr> encryption := None \<rparr>))) (wrapped_cek r) = Inr (we_cek V)"
    using assms(3) False by (auto simp: intended_def set_add_recipients)
  then show ?thesis using assms(1,3) e(1) False
    by (simp add: decrypt_ctx_def intended_def wrapped_def Let_def cek_of_def)
qed

lemma wrapped_recovered:
  assumes "wrap_setting X J C V D reader" "archive_intact X D' m ss"
    and "length ss = length (chunks (wc_chunk_size C) (concat reader))"
    and "\<And>k. k < length ss \<Longrightarrow> stored_chunk X key (we_nonce V) aad k (chunks (wc_chunk_size C) (concat reader) ! k) = Inr (ss ! k)"
  shows "recover_loop X D' (map_option (\<lambda>x. (x, aad)) key) [0..<length (segments m)] [] = Inr (concat reader)"
proof -
  let ?cs = "chunks (wc_chunk_size C) (concat reader)"
  have len: "length (segments m) = length ?cs" using assms(2,3) by (simp add: archive_intact_def)
  have set: "aead_ok (xchacha_seal X) (xchacha_open X)" "\<And>i. length (we_nonce V i) = 24" "0 < wc_chunk_size C"
    using assms(1) by (simp_all add: wrap_setting_def)
  have "recover_chunk X D' (map_option (\<lambda>x. (x, aad)) key) k = Inr (?cs ! k)" if "k \<in> set [0..<length (segments m)]" for k
  proof -
    have k: "k < length ss" using that len assms(3) by simp
    with archive_intact_chunks [OF assms(2) k] show ?thesis by (intro stored_chunk_opens [OF set(1,2) assms(4)]) simp_all
  qed
  from recover_loop_chunks [where ks = "[0..<length (segments m)]" and f = "(!) ?cs" and out = "[]", OF this] have "recover_loop X D' (map_option (\<lambda>x. (x, aad)) key) [0..<length (segments m)] [] =
    Inr (concat (map ((!) ?cs) [0..<length ?cs]))" by (simp add: len)
  then show ?thesis using concat_chunks [OF set(3)] by (simp add: map_nth)
qed

lemma unwrap_checks_steps:
  assumes "unwrap_checks X J loaded D pin = Inr (m, ctx)"
  obtains b raw sig ss where "loaded = Inr b" "read_manifest J D = Inr (m, raw)" "trst_version m = ''0.2.0''" "man_signature m = Some sig"
    "verify_manifest X (public_key (device m)) (to_canonical_bytes X m) sig = Inr True"
    "\<forall>k. pin = Some k \<longrightarrow> normalize_device_pub k = public_key (device m)" "archive_intact X D m ss" "decrypt_ctx X b m = Inr ctx"
proof -
  from assms obtain b raw sig where s: "loaded = Inr b" "read_manifest J D = Inr (m, raw)" "trst_version m = ''0.2.0''"
    "man_signature m = Some sig" "verify_manifest X (public_key (device m)) (to_canonical_bytes X m) sig = Inr True"
    "check_signer_pin pin m = Inr ()" "validate_archive X J D = Inr ()" "decrypt_ctx X b m = Inr ctx"
    unfolding unwrap_checks_def
    by (clarsimp simp: res_simps try_archive_def try_crypto_def require_supported_version_def split: if_splits prod.splits)
  from s(7) s(2) obtain ss where "archive_intact X D m ss" unfolding validate_archive_iff by auto
  with s that show ?thesis by (auto simp: check_signer_pin_def split: if_splits option.splits)
qed

lemma unwrap_tmp_path_neq [simp]: "p \<noteq> unwrap_tmp_path pid p"
  by (cases p) (auto simp: unwrap_tmp_path_def split: option.splits)

lemma recover_loop_run:
  "recover_loop X D ctx is out = Inr res \<Longrightarrow>
     \<exists>ps. res = out @ concat ps \<and> length ps = length is \<and> (\<forall>k < length is. recover_chunk X D ctx (is ! k) = Inr (ps ! k))"
proof (induction "is" arbitrary: out)
  case (Cons i "is")
  from Cons.prems obtain p where p: "recover_chunk X D ctx i = Inr p" "recover_loop X D ctx is (out @ p) = Inr res" by (auto simp: res_simps)
  from Cons.IH [OF p(2)] obtain ps where "res = (out @ p) @ concat ps" "length ps = length is"
    "\<forall>k < length is. recover_chunk X D ctx (is ! k) = Inr (ps ! k)" by blast
  with p(1) show ?case by (intro exI [of _ "p # ps"]) (auto simp: nth_Cons split: nat.splits)
qed simp

lemma recover_loop_result:
  assumes "recover_loop X D ctx [0..<n] [] = Inr res"
  obtains ps where "res = concat ps" "length ps = n" "\<forall>k < length ps. recover_chunk X D ctx k = Inr (ps ! k)"
  using recover_loop_run [OF assms] by auto

lemma wrapped_unwrap_checks:
  assumes "wrapped X J C V b sk D' ss lk m" "wrap_setting X J C V D reader" "manifest_valid m" "intended X C b b' s"
    and "pin = None \<or> pin = Some (kp_public (keypair_of X sk))"
  shows "unwrap_checks X J (Inr b') D' pin =
    Inr (m, map_option (\<lambda>x. (x, chunk_aad_v2 X (kp_public (keypair_of X sk)) (wc_profile C) (started_at_of C V))) (cek_of C V))"
proof -
  have ok: "ed_ok X" "b64_ok X" using assms(2) by (simp_all add: wrap_setting_def)
  have rd: "read_manifest J D' = Inr (m, str_bytes (own_signature X sk (to_canonical_bytes X m)))"
    and "archive_intact X D' m ss" using assms(1,3) by (simp_all add: wrapped_def Let_def)
  from archive_intact_accepted [OF this] have va: "validate_archive X J D' = Inr ()" .
  have w: "man_signature m = Some (own_signature X sk (to_canonical_bytes X m))" "public_key (device m) = kp_public (keypair_of X sk)"
    "trst_version m = ''0.2.0''" using assms(1) by (simp_all add: wrapped_def Let_def)
  have pin: "check_signer_pin pin m = Inr ()" using assms(5) w(2) by (auto simp: check_signer_pin_def)
  show ?thesis
    by (simp add: unwrap_checks_def rd w pin va wrapped_decrypt_ctx [OF assms(1,2,4)] verify_own_signature [OF ok] try_archive_def
        try_crypto_def require_supported_version_def)
qed

lemma wrapped_verify:
  assumes "wrapped X J C V b sk D' ss lk m" "wrap_setting X J C V D reader" "manifest_valid m"
  shows "handle_verify X J D' (kp_public (keypair_of X sk)) =
    (empty_report\<lparr> vr_profile := wc_profile C, vr_device_id := dev_id (device m), vr_segments := word_of_nat (length ss),
       vr_chronicle_sequence := sequence m, vr_signature := ''pass'', vr_continuity := ''pass'' \<rparr>, Inr ())"
proof -
  have ok: "ed_ok X" "b64_ok X" using assms(2) by (simp_all add: wrap_setting_def)
  have rd: "read_manifest J D' = Inr (m, str_bytes (own_signature X sk (to_canonical_bytes X m)))"
    and "archive_intact X D' m ss" using assms(1,3) by (simp_all add: wrapped_def Let_def)
  from archive_intact_accepted [OF this] have va: "validate_archive X J D' = Inr ()" .
  have w: "man_signature m = Some (own_signature X sk (to_canonical_bytes X m))" "trst_version m = ''0.2.0''" "profile m = wc_profile C"
    "length (segments m) = length ss" using assms(1) by (simp_all add: wrapped_def Let_def)
  show ?thesis
    by (simp add: handle_verify_def rd w va verify_own_signature [OF ok] require_supported_version_def Let_def)
qed

section \<open>Properties\<close>


text \<open>
  C24: the streaming loop of \<^verbatim>\<open>seal wrap\<close> does not depend on how the operating system delivers the input. For any
  sequence of non-empty reads, it produces the archive writer and the segments that the loop over the whole input cut
  into chunks produces.
\<close>

theorem wrap_stream_exact:
  assumes "0 < wc_chunk_size C" "[] \<notin> set reader"
  shows "wrap_loop X C key nonce aad i reader w segs = wrap_ref X C key nonce aad i (chunks (wc_chunk_size C) (concat reader)) w segs"
  using assms by (rule wrap_loop_ref)

text \<open>
  C16: \<open>handle_unwrap\<close> is all or nothing. On an error no path but the temporary one has changed, and that one is
  unchanged or gone. On success the archive was of the supported version, signed by the key in its manifest (the pinned
  one, if there is a pin), intact chunk by chunk, and the output path holds the concatenation of the recovered chunks.
\<close>

theorem unwrap_all_or_nothing:
  "case handle_unwrap X J loaded D pin pid target F of
     (F', Inl e) \<Rightarrow> (\<forall>p. p \<noteq> unwrap_tmp_path pid target \<longrightarrow> F' p = F p) \<and>
       (F' = F \<or> F' (unwrap_tmp_path pid target) = None)
   | (F', Inr _) \<Rightarrow>
       \<exists>b m raw sig ss ctx ps. loaded = Inr b \<and> read_manifest J D = Inr (m, raw) \<and> trst_version m = ''0.2.0'' \<and>
         man_signature m = Some sig \<and> verify_manifest X (public_key (device m)) (to_canonical_bytes X m) sig = Inr True \<and>
         (\<forall>k. pin = Some k \<longrightarrow> normalize_device_pub k = public_key (device m)) \<and> archive_intact X D m ss \<and>
         decrypt_ctx X b m = Inr ctx \<and> length ps = length (segments m) \<and>
         (\<forall>k < length ps. recover_chunk X D ctx k = Inr (ps ! k)) \<and>
         (\<forall>p. p \<noteq> target \<longrightarrow> p \<noteq> unwrap_tmp_path pid target \<longrightarrow> F' p = F p) \<and> F' (unwrap_tmp_path pid target) = None \<and>
         F' target = Some (concat ps)"
proof (cases "unwrap_checks X J loaded D pin")
  case (Inl e)
  then show ?thesis by (simp add: handle_unwrap_def)
next
  case (Inr p)
  then obtain m ctx where p: "unwrap_checks X J loaded D pin = Inr (m, ctx)" by (cases p) auto
  then obtain b raw sig ss where c: "loaded = Inr b" "read_manifest J D = Inr (m, raw)" "trst_version m = ''0.2.0''" "man_signature m = Some sig"
    "verify_manifest X (public_key (device m)) (to_canonical_bytes X m) sig = Inr True"
    "\<forall>k. pin = Some k \<longrightarrow> normalize_device_pub k = public_key (device m)" "archive_intact X D m ss" "decrypt_ctx X b m = Inr ctx"
    by (rule unwrap_checks_steps)
  show ?thesis
  proof (cases "recover_loop X D ctx [0..<length (segments m)] []")
    case (Inl e)
    then show ?thesis by (simp add: handle_unwrap_def p Let_def)
  next
    case (Inr out)
    then obtain ps where "out = concat ps" "length ps = length (segments m)" "\<forall>k < length ps. recover_chunk X D ctx k = Inr (ps ! k)"
      by (rule recover_loop_result)
    moreover have "handle_unwrap X J loaded D pin pid target F = (F(target := Some out, unwrap_tmp_path pid target := None), Inr ())"
      using Inr by (simp add: handle_unwrap_def p Let_def)
    ultimately show ?thesis using c by simp (rule conjI, blast, rule exI [of _ ps], simp)
  qed
qed



section \<open>A sample run\<close>

definition sample_cmd :: "string \<Rightarrow> fs_path option \<Rightarrow> WrapCmd" where
  "sample_cmd p ch = \<lparr> wc_input = ''in.bin'', wc_output_name = Some ''a.seal'', wc_profile = p, wc_chunk_size = 16,
     wc_chunk_seconds = None, wc_fps = None, wc_device_key_given = True, wc_seed = None, wc_data_type = None, wc_source = None,
     wc_description = None, wc_mime_type = None, wc_sample_rate = None, wc_unit = None, wc_sensor_model = None, wc_latitude = None,
     wc_longitude = None, wc_altitude = None, wc_bit_depth = None, wc_channels = None, wc_codec = None, wc_application = None,
     wc_host = None, wc_log_level = None, wc_log_format = None, wc_backend = ''software'', wc_recipients = [], wc_sign_only = False,
     wc_chronicle = ch, wc_prev_archive = None, wc_prev_hash = None, wc_prev_seq = None \<rparr>"

definition sample_env :: wrap_env where
  "sample_env = \<lparr> we_input = Some [[1, 2], [3]], we_cek = replicate 32 9, we_nonce = (\<lambda>_. replicate 24 5), we_hpke = (\<lambda>_. [1]),
     we_now = ''t0'', we_later = ''t1'', we_add_ms = (\<lambda>t _ _. Inr t) \<rparr>"

definition sample_bundle :: DeviceBundle where
  "sample_bundle = bundle_generate sample_kw (replicate 32 7) (replicate 32 8)"

definition sample_pub :: string where "sample_pub = kp_public (keypair_of sample_kw (replicate 32 7))"

definition sample_aad :: "string \<Rightarrow> bytes" where "sample_aad p = chunk_aad_v2 sample_kw sample_pub p ''t0''"

definition sample_stored :: "string \<Rightarrow> bytes" where
  "sample_stored p = replicate 24 5 @ [1, 2, 3] @ sample_tag (replicate 32 9) (replicate 24 5) [1, 2, 3] (sample_aad p)"

definition sample_out :: "string \<Rightarrow> ArchiveWriter \<times> ChunkOutcome" where
  "sample_out p = push_chunk sample_kw (writer_create sample_kw empty_dir) (sample_stored p)"

lemma sample_kw_more: "xchacha_seal sample_kw = sample_seal" "xchacha_open sample_kw = sample_open" "hex_encode sample_kw = sample_hex"
  "hex_decode sample_kw = sample_unhex" "ed_public sample_kw = ed_public sample_crates" "ed_sign sample_kw = sample_signature"
  by (simp_all add: sample_kw_def sample_crates_def crates.defs)

lemma sample_wrap_setting_crates: "hex_ok sample_kw" "blake3_len sample_kw" "b64_ok sample_kw" "b64_text sample_kw" "ed_ok sample_kw"
  "hpke_ok sample_kw" "aead_ok (xchacha_seal sample_kw) (xchacha_open sample_kw)"
proof -
  show "hex_ok sample_kw" using sample_hex_ok by (simp add: hex_ok_def sample_kw_def crates.defs)
  show "blake3_len sample_kw" using sample_blake3_len by (simp add: blake3_len_def sample_kw_def crates.defs)
  have "ascii (sample_hex b)" for b
  proof (induction b)
    case (Cons w b)
    have "unat w div 16 < 16" by (intro less_mult_imp_div_less) simp
    with Cons show ?case by (auto simp: ascii_def hex_digit_def)
  qed (simp add: ascii_def)
  then show "b64_text sample_kw" by (simp add: b64_text_def sample_kw_base length_sample_hex)
  show "aead_ok (xchacha_seal sample_kw) (xchacha_open sample_kw)"
    using sample_kw_oks(2) by (simp add: sample_kw_base sample_kw_more)
qed (fact sample_kw_oks sample_kw_ed_ok sample_hpke_ok)+

lemma sample_wrap_loop:
  "wrap_loop sample_kw (sample_cmd p ch) (cek_of (sample_cmd p ch) sample_env) (we_nonce sample_env) (sample_aad p) 0 [[1, 2], [3]]
     (writer_create sample_kw empty_dir) [] = Inr (fst (sample_out p), [wrap_segment sample_kw (sample_cmd p ch) 0 (snd (sample_out p))])"
proof -
  have "chunks 16 [1, 2, 3 :: u8] = [[1, 2, 3]]" by (simp add: chunks.simps)
  then show ?thesis
    by (subst wrap_loop_ref)
      (simp_all add: sample_cmd_def sample_env_def cek_of_def stored_chunk_def encrypt_segment_def sample_kw_more sample_seal_def
        case_prod_beta sample_out_def sample_stored_def)
qed

definition sample_lk :: "fs_path option \<Rightarrow> ChronicleLink option" where
  "sample_lk ch = map_option (\<lambda>path. \<lparr> cl_sequence = 0, cl_prev = None, cl_key_epoch = 0, cl_state_path = Some path \<rparr>) ch"

definition sample_linked :: "string \<Rightarrow> fs_path option \<Rightarrow> TrstManifest" where
  "sample_linked p ch = link_manifest (sample_lk ch) (wrap_manifest (sample_cmd p ch) (case pub_key_to_device_id sample_kw sample_pub of Inr d \<Rightarrow> d | Inl _ \<Rightarrow> [])
     sample_pub (public_string sample_kw (bundle_agreement sample_bundle))
     (Generic \<lparr> ge_started_at = ''t0'', ge_ended_at = ''t0'', ge_data_type = None, ge_source = None, ge_description = None,
        ge_mime_type = None, ge_labels = [] \<rparr>) [wrap_segment sample_kw (sample_cmd p ch) 0 (snd (sample_out p))])"

definition sample_encrypted :: "string \<Rightarrow> fs_path option \<Rightarrow> TrstManifest" where
  "sample_encrypted p ch = (case wrap_encryption sample_kw (sample_cmd p ch) sample_env sample_pub (public_string sample_kw (bundle_agreement sample_bundle))
     (sample_linked p ch) of Inr m \<Rightarrow> m | Inl _ \<Rightarrow> (sample_linked p ch))"

definition sample_wrapped :: "string \<Rightarrow> fs_path option \<Rightarrow> TrstManifest" where
  "sample_wrapped p ch = set_signature (sample_encrypted p ch) (own_signature sample_kw (replicate 32 7) (to_canonical_bytes sample_kw (sample_encrypted p ch)))"

text \<open>A codec that writes this manifest and no other. The run has the profile and the chronicle option as parameters.\<close>

definition sample_wrap_json :: "string \<Rightarrow> fs_path option \<Rightarrow> man_json" where
  "sample_wrap_json p ch = \<lparr> man_print = (\<lambda>m. if m = (sample_wrapped p ch) then Inr ''{}'' else Inl ''unsupported''), man_parse = (\<lambda>_. Inr (sample_wrapped p ch)) \<rparr>"

lemma sample_wrap_setting: "wrap_setting sample_kw (sample_wrap_json p ch) (sample_cmd p ch) sample_env empty_dir [[1, 2], [3]]"
proof -
  have "chunks 16 [1, 2, 3 :: u8] = [[1, 2, 3]]" by (simp add: chunks.simps)
  then show ?thesis
    using sample_wrap_setting_crates
    by (auto simp: wrap_setting_def man_json_ok_def sample_wrap_json_def no_chunk_files_def empty_dir_def sample_env_def sample_cmd_def)
qed

lemma sample_ka_parse:
  "parse_x25519_bytes sample_kw (public_string sample_kw (bundle_agreement sample_bundle)) = Inr (pad32 (replicate 32 8))"
  using parse_x25519_encode [OF sample_kw_oks(1), of "pad32 (replicate 32 8)"]
  by (simp add: public_string_def ka_generate_def sample_kw_base pad32_def sample_bundle_def bundle_generate_def)

lemma sample_device_id: "\<exists>d. pub_key_to_device_id sample_kw sample_pub = Inr (''te:cam:'' @ d)"
  by (simp add: pub_key_to_device_id_def sample_pub_def keypair_of_def sample_kw_base sample_kw_more strip_prefix_def starts_with_def
      sample_unhex_hex sample_crates_def pad32_def)

lemma sample_encryption:
  "wrap_encryption sample_kw (sample_cmd p ch) sample_env sample_pub (public_string sample_kw (bundle_agreement sample_bundle)) (sample_linked p ch) =
     Inr (sample_encrypted p ch)"
proof -
  have "\<exists>m. wrap_encryption sample_kw (sample_cmd p ch) sample_env sample_pub (public_string sample_kw (bundle_agreement sample_bundle)) (sample_linked p ch) = Inr m"
    by (simp add: wrap_encryption_def sample_cmd_def Let_def hpke_seal_cek_with_rng_def sample_ka_parse recipient_id_of_def try_crypto_def)
      (simp add: sample_kw_def crates.defs sample_seal_def)
  then show ?thesis by (auto simp: sample_encrypted_def)
qed

lemma sample_fields: "profile (sample_encrypted p ch) = p" "trst_version (sample_encrypted p ch) = ''0.2.0''"
  "device (sample_encrypted p ch) = device (sample_linked p ch)" "metadata (sample_encrypted p ch) = metadata (sample_linked p ch)"
  "segments (sample_encrypted p ch) = segments (sample_linked p ch)" "sequence (sample_encrypted p ch) = map_option (\<lambda>_. 0) ch" "prev_archive_hash (sample_encrypted p ch) = None"
  "\<exists>e. encryption (sample_encrypted p ch) = Some e \<and> recipients e \<noteq> []"
proof -
  have n: "encryption (sample_linked p ch) = None" by (simp add: sample_linked_def wrap_manifest_def)
  note r = wrap_encryption_result [OF sample_encryption n]
  note f = encryption_fields [OF conjunct1 [OF r]]
  show "profile (sample_encrypted p ch) = p" "trst_version (sample_encrypted p ch) = ''0.2.0''"
    "device (sample_encrypted p ch) = device (sample_linked p ch)" "metadata (sample_encrypted p ch) = metadata (sample_linked p ch)"
    "segments (sample_encrypted p ch) = segments (sample_linked p ch)" "sequence (sample_encrypted p ch) = map_option (\<lambda>_. 0) ch" "prev_archive_hash (sample_encrypted p ch) = None"
    using f by (simp_all add: sample_linked_def wrap_manifest_def sample_cmd_def) (auto simp: link_manifest_def sample_lk_def split: option.splits)
  show "\<exists>e. encryption (sample_encrypted p ch) = Some e \<and> recipients e \<noteq> []"
    using conjunct2 [OF r] by (auto simp: sample_cmd_def res_simps)
qed

lemma sample_wrapped_valid: "manifest_validate (sample_wrapped ''generic'' ch) = Inr ()"
proof -
  have "seg_blake3_hash s \<noteq> [] \<and> continuity_hash s \<noteq> [] \<and> chunk_file s \<noteq> []" if "s \<in> set (segments (sample_linked ''generic'' ch))" for s
    using that hex_sample_nonempty
    by (simp add: sample_linked_def wrap_manifest_def wrap_segment_def sample_out_def push_chunk_def Let_def chunk_filename_def
        segment_hash_def chain_next_def sample_kw_base sample_kw_more) (simp add: sample_crates_def)
  then show ?thesis
    using sample_fields [of "''generic''" ch] sample_device_id
    by (auto simp: sample_wrapped_def manifest_validate_ok_iff manifest_valid_def list_all_iff split: option.splits)
      (auto simp: sample_linked_def wrap_manifest_def metadata_complete_def times_of_def sample_pub_def keypair_of_def
        link_manifest_def sample_lk_def split: option.splits)
qed

lemma sample_finalize:
  "\<exists>D'. finalize (sample_wrap_json p ch) (fst (sample_out p)) (sample_wrapped p ch)
     (str_bytes (own_signature sample_kw (replicate 32 7) (to_canonical_bytes sample_kw (sample_encrypted p ch)))) = Inr D'"
  by (simp add: finalize_def sample_wrap_json_def MANIFEST_MAX_BYTES_def sample_wrapped_def Let_def sample_fields)
    (simp add: sample_linked_def wrap_manifest_def sample_out_def push_chunk_def writer_create_def Let_def)

lemma sample_wrap_runs:
  "p \<in> {''generic'', ''x''} \<Longrightarrow> \<exists>D' F'. handle_wrap sample_kw (sample_wrap_json p ch) sample_state_json (sample_cmd p ch) sample_env (Inr sample_bundle) empty_dir (\<lambda>_. None) = Inr (D', F')"
proof -
  assume q: "p \<in> {''generic'', ''x''}"
  obtain d where d: "pub_key_to_device_id sample_kw sample_pub = Inr d" using sample_device_id by blast
  then have linked: "link_manifest (sample_lk ch) (wrap_manifest (sample_cmd p ch) d sample_pub (public_string sample_kw (bundle_agreement sample_bundle))
     (Generic \<lparr> ge_started_at = ''t0'', ge_ended_at = ''t0'', ge_data_type = None, ge_source = None, ge_description = None,
        ge_mime_type = None, ge_labels = [] \<rparr>) [wrap_segment sample_kw (sample_cmd p ch) 0 (snd (sample_out p))]) = sample_linked p ch"
    by (simp add: sample_linked_def)
  have b: "bundle_signing sample_bundle = keypair_of sample_kw (replicate 32 7)"
    by (simp add: sample_bundle_def bundle_generate_def generate_def)
  have o: "check_output (sample_cmd p ch) = Inr ()"
  proof -
    have "ends_with ''.seal'' (bytes_str (from_utf8_lossy (str_bytes ''a.seal'')))"
      by (subst from_utf8_lossy_valid [OF utf8_valid_str]) (simp_all add: ascii_def ends_with_def)
    then show ?thesis by (simp add: check_output_def sample_cmd_def)
  qed
  obtain D' where fin: "finalize (sample_wrap_json p ch) (fst (sample_out p)) (sample_wrapped p ch)
     (str_bytes (own_signature sample_kw (replicate 32 7) (to_canonical_bytes sample_kw (sample_encrypted p ch)))) = Inr D'"
    using sample_finalize by blast
  have args: "check_wrap_args (sample_cmd p ch) = Inr ()" "signing_key_of (sample_cmd p ch) sample_bundle = Inr sample_pub"
    "we_input sample_env = Some [[1, 2], [3]]" "started_at_of (sample_cmd p ch) sample_env = ''t0''" "wc_profile (sample_cmd p ch) = p"
    "wc_chronicle (sample_cmd p ch) = ch" "wc_prev_archive (sample_cmd p ch) = None" "wc_prev_hash (sample_cmd p ch) = None" "wc_prev_seq (sample_cmd p ch) = None"
    by (simp_all add: check_wrap_args_def signing_key_of_def started_at_of_def sample_cmd_def sample_env_def b sample_pub_def
        MAX_CHUNK_SIZE_BYTES_def)
  have meta: "wrap_metadata (sample_cmd p ch) sample_env ''t0'' 1 = Inr (Generic \<lparr> ge_started_at = ''t0'', ge_ended_at = ''t0'',
    ge_data_type = None, ge_source = None, ge_description = None, ge_mime_type = None, ge_labels = [] \<rparr>)"
    using q by (auto simp: wrap_metadata_def sample_cmd_def)
  have rc: "resolve_chronicle sample_kw J sample_state_json (\<lambda>_. None) ch None None None k = Inr (sample_lk ch)" for J k
    by (simp add: resolve_chronicle_def sample_lk_def split: option.splits)
  obtain F' where ac: "advance_chronicle sample_kw sample_state_json sample_env (\<lambda>_. None) sample_pub (sample_wrapped p ch) (sample_lk ch) = Inr F'"
    by (cases ch) (simp_all add: advance_chronicle_def sample_lk_def state_save_def save_states_def sample_state_json_def)
  show ?thesis
    by (simp add: handle_wrap_def args d o Let_def sample_aad_def [symmetric] sample_wrap_loop try_crypto_def meta [simplified]
        rc linked sample_encryption b sample_wrapped_def [symmetric] try_archive_def fin ac)
qed

lemma sample_intended: "intended sample_kw (sample_cmd p ch) sample_bundle sample_bundle (replicate 32 8)"
  by (simp add: intended_def sample_bundle_def bundle_generate_def)

lemma sample_signing: "bundle_signing sample_bundle = keypair_of sample_kw (replicate 32 7)"
  by (simp add: sample_bundle_def bundle_generate_def generate_def)


theorem wrap_stream_exact_witness:
  "wrap_loop sample_kw (sample_cmd ''generic'' None) None (\<lambda>_. []) [] 0 [[1, 2], [3]] (writer_create sample_kw empty_dir) [] =
     wrap_ref sample_kw (sample_cmd ''generic'' None) None (\<lambda>_. []) [] 0 [[1, 2, 3]] (writer_create sample_kw empty_dir) []"
proof -
  have "chunks 16 [1, 2, 3 :: u8] = [[1, 2, 3]]" by (simp add: chunks.simps)
  moreover have "wc_chunk_size (sample_cmd ''generic'' None) = 16" by (simp add: sample_cmd_def)
  ultimately show ?thesis
    using wrap_stream_exact [of "sample_cmd ''generic'' None" "[[1, 2], [3]]" sample_kw None "\<lambda>_. []" "[]" 0 "writer_create sample_kw empty_dir" "[]"] by simp
qed

theorem unwrap_all_or_nothing_witness:
  "snd (handle_unwrap sample_kw (sample_wrap_json ''generic'' None) (Inr sample_bundle) empty_dir None 1 (''d'', Some ''out'') (\<lambda>_. Some [7])) \<noteq> Inr () \<and>
   fst (handle_unwrap sample_kw (sample_wrap_json ''generic'' None) (Inr sample_bundle) empty_dir None 1 (''d'', Some ''out'') (\<lambda>_. Some [7])) (''d'', Some ''out'') = Some [7]"
proof -
  let ?r = "handle_unwrap sample_kw (sample_wrap_json ''generic'' None) (Inr sample_bundle) empty_dir None 1 (''d'', Some ''out'') (\<lambda>_. Some [7])"
  have "read_manifest (sample_wrap_json ''generic'' None) empty_dir = Inl e \<Longrightarrow> snd ?r \<noteq> Inr ()" for e
    by (simp add: handle_unwrap_def unwrap_checks_def try_archive_def)
  moreover have "\<exists>e. read_manifest (sample_wrap_json ''generic'' None) empty_dir = Inl e"
    by (simp add: read_manifest_def empty_dir_def read_capped_def)
  ultimately obtain e where e: "snd ?r = Inl e" by (cases "snd ?r") auto
  then show ?thesis
    using unwrap_all_or_nothing [where X = sample_kw and J = "sample_wrap_json ''generic'' None" and loaded = "Inr sample_bundle" and D = empty_dir and pin = None
      and pid = 1 and target = "(''d'', Some ''out'')" and F = "\<lambda>_. Some [7]"]
    by (simp add: case_prod_beta)
qed


end
