(* ===== verification/Seal_Device.thy ===== *)
theory Seal_Device
  imports Seal_Wrap Verify_Chronicle "HOL-Library.Multiset"
begin

text \<open>
  The commands of \<^verbatim>\<open>crates/seal-cli/src/main.rs\<close> that manage a device: generating and loading key bundles, rotating the
  key of a chronicle and asking for a witness, with \<^verbatim>\<open>crates/core/src/secure_file.rs\<close>. The life of a device is a step
  relation over \<open>handle_wrap\<close> and \<open>handle_rekey\<close>; its invariant says that \<^verbatim>\<open>verify-chronicle\<close> accepts what the device has
  written so far.
\<close>

section \<open>Secret files\<close>

definition secure_tmp :: "nat \<Rightarrow> nat \<Rightarrow> fs_path \<Rightarrow> fs_path" where
  "secure_tmp pid seq path =
     (fst path, Some ((case snd path of None \<Rightarrow> ''..'' | Some n \<Rightarrow> n) @ ''.tmp.'' @ show_nat pid @ ''.'' @ show_nat seq))"

definition secure_ops :: "nat \<Rightarrow> nat \<Rightarrow> fs_path \<Rightarrow> bytes \<Rightarrow> fs_op list" where
  "secure_ops pid seq path b = [WriteFile (secure_tmp pid seq path) b, Rename (secure_tmp pid seq path) path]"

definition write_secure :: "nat \<Rightarrow> nat \<Rightarrow> fs \<Rightarrow> fs_path \<Rightarrow> bytes \<Rightarrow> fs" where
  "write_secure pid seq F path b = last (run_states F (secure_ops pid seq path b))"

section \<open>Key generation\<close>

record KeygenCmd =
  kg_out_key :: fs_path
  kg_out_pub :: fs_path
  kg_unencrypted :: bool

text \<open>Random bytes of a run: the two secrets, and salt and nonce of the encrypted file.\<close>

record key_rand =
  kr_signing :: bytes
  kr_agreement :: bytes
  kr_salt :: bytes
  kr_nonce :: bytes

definition rand_bundle :: "'x kw_crates_scheme \<Rightarrow> key_rand \<Rightarrow> DeviceBundle" where
  "rand_bundle X r = bundle_generate X (kr_signing r) (kr_agreement r)"

definition key_file_content ::
  "'x kw_crates_scheme \<Rightarrow> sealed_meta \<Rightarrow> bundle_json \<Rightarrow> key_rand \<Rightarrow> bool \<Rightarrow> string + string \<Rightarrow> string + string \<Rightarrow> cli_error + bytes" where
  "key_file_content X J B r unencrypted prompt confirm =
     (let bundle = rand_bundle X r in
      if unencrypted then Inr (str_bytes (to_plaintext X B bundle @ [CHR 0x0A]))
      else
      res_bind (read_prompt prompt) (\<lambda>passphrase.
      res_bind (map_err (\<lambda>e. Anyhow [''Failed to read passphrase confirmation'', e]) confirm) (\<lambda>again.
      if passphrase \<noteq> again then bail ''Passphrases do not match''
      else map_err (\<lambda>e. Anyhow [''Failed to encrypt key bundle'', crypto_error_text e])
        (export_encrypted X J B (kr_salt r) (kr_nonce r) bundle passphrase))))"

definition handle_keygen ::
  "'x kw_crates_scheme \<Rightarrow> sealed_meta \<Rightarrow> bundle_json \<Rightarrow> KeygenCmd \<Rightarrow> key_rand \<Rightarrow> string + string \<Rightarrow> string + string \<Rightarrow> nat \<Rightarrow> nat \<Rightarrow> fs \<Rightarrow>
     cli_error + fs" where
  "handle_keygen X J B C r prompt confirm pid seq F =
     (if F (kg_out_key C) \<noteq> None then bail (''Refusing to overwrite existing file: '' @ show_path (kg_out_key C))
      else if F (kg_out_pub C) \<noteq> None then bail (''Refusing to overwrite existing file: '' @ show_path (kg_out_pub C))
      else
      res_bind (key_file_content X J B r (kg_unencrypted C) prompt confirm) (\<lambda>content.
      Inr ((write_secure pid seq F (kg_out_key C) content)(kg_out_pub C := Some (str_bytes (public_lines X (rand_bundle X r)))))))"

text \<open>\<^verbatim>\<open>Path::with_extension\<close>: the name up to its last dot, unless that dot is the first character.\<close>

definition file_stem :: "string \<Rightarrow> string" where
  "file_stem n = (let rest = dropWhile (\<lambda>c. c \<noteq> CHR ''.'') (rev n) in if length rest \<le> 1 then n else rev (tl rest))"

definition with_extension :: "fs_path \<Rightarrow> string \<Rightarrow> fs_path" where
  "with_extension p ext = (fst p, map_option (\<lambda>n. file_stem n @ ''.'' @ ext) (snd p))"

definition load_or_generate_bundle ::
  "'x kw_crates_scheme \<Rightarrow> sealed_meta \<Rightarrow> bundle_json \<Rightarrow> fs_path option \<Rightarrow> bool \<Rightarrow> key_rand \<Rightarrow> string + string \<Rightarrow> string + string \<Rightarrow> nat \<Rightarrow> nat \<Rightarrow>
     fs \<Rightarrow> cli_error + (DeviceBundle \<times> fs_path \<times> fs_path \<times> bool) \<times> fs" where
  "load_or_generate_bundle X J B path unencrypted r prompt confirm pid seq F =
     (case path of
        Some existing \<Rightarrow>
          res_bind (load_bundle X J B (show_path existing) (F existing) unencrypted prompt) (\<lambda>bundle.
          Inr ((bundle, existing, with_extension existing ''pub'', False), F))
      | None \<Rightarrow>
          let secret_path = ([], Some ''device.key''); public_path = ([], Some ''device.pub'') in
          res_bind (key_file_content X J B r unencrypted prompt confirm) (\<lambda>content.
          Inr ((rand_bundle X r, secret_path, public_path, True),
            (write_secure pid seq F secret_path content)(public_path := Some (str_bytes (public_lines X (rand_bundle X r)))))))"

section \<open>Rotation\<close>

record RekeyCmd =
  rk_chronicle :: fs_path
  rk_old_key :: string
  rk_new_key :: string
  rk_out :: string

text \<open>A context on an error keeps the exit code the error carries.\<close>

definition error_context :: "string \<Rightarrow> cli_error + 'a \<Rightarrow> cli_error + 'a" where
  "error_context ctx r = map_err (\<lambda>e. case e of Anyhow es \<Rightarrow> Anyhow (ctx # es) | CliExitError c m \<Rightarrow> CliExitError c m) r"

text \<open>
  \<open>old\<close> and \<open>new\<close> are the results of loading the two key files, \<open>out_exists\<close> says whether the output path is taken,
  \<open>now\<close> and \<open>later\<close> are the two readings of the clock. The result is the new entry directory and the file system.
\<close>

definition rotation_dir :: "string \<Rightarrow> string \<Rightarrow> entry_dir" where
  "rotation_dir out json =
     \<lparr> ed_archive = \<lparr> base_path = out, manifest_file = None, sig_file = None, chunk_entries = None \<rparr>,
       ed_rotation = Some (str_bytes (json @ [CHR 0x0A])) \<rparr>"

definition handle_rekey ::
  "'x kw_crates_scheme \<Rightarrow> state_json \<Rightarrow> rot_json \<Rightarrow> RekeyCmd \<Rightarrow> cli_error + DeviceBundle \<Rightarrow> cli_error + DeviceBundle \<Rightarrow> bool \<Rightarrow> string \<Rightarrow>
     string \<Rightarrow> fs \<Rightarrow> cli_error + entry_dir \<times> fs" where
  "handle_rekey X S R C old_loaded new_loaded out_exists now later F =
     (if F (rk_chronicle C) = None
      then bail (''nothing to rotate: no chronicle state at '' @ show_path (rk_chronicle C) @
        '' (start one with `seal wrap --chronicle` first)'')
      else
      res_bind (map_err (\<lambda>e. Anyhow [''Failed to read chronicle state: '' @ show_path (rk_chronicle C), e])
        (state_load S F (rk_chronicle C))) (\<lambda>state.
      res_bind (error_context (''Failed to load --old-key: '' @ rk_old_key C) old_loaded) (\<lambda>old.
      res_bind (error_context (''Failed to load --new-key: '' @ rk_new_key C) new_loaded) (\<lambda>new.
      if kp_public (bundle_signing old) \<noteq> cs_device_pub state
      then bail (''--old-key ('' @ kp_public (bundle_signing old) @ '') is not the chronicle'' @ [CHR 0x27] @ ''s current identity ('' @
        cs_device_pub state @ '')'')
      else if kp_public (bundle_signing new) = kp_public (bundle_signing old) then bail ''--new-key must differ from --old-key''
      else if out_exists then bail (''Refusing to overwrite existing path: '' @ rk_out C)
      else
      let seq = cs_sequence state + 1 in
      res_bind (try_crypto (rot_create_signed X (bundle_signing old) (cs_key_epoch state) new seq (cs_tip state) now)) (\<lambda>record.
      res_bind (map_err (\<lambda>e. Anyhow [e]) (rot_print R record)) (\<lambda>json.
      res_bind (map_err (\<lambda>e. Anyhow [''Failed to update chronicle state: '' @ show_path (rk_chronicle C), e])
        (state_save S F (rk_chronicle C) \<lparr> cs_device_pub = kp_public (bundle_signing new), cs_sequence = seq,
           cs_tip = format_archive_id X (rot_archive_digest X record), cs_key_epoch = new_key_epoch (rot_new record),
           cs_updated_at = later \<rparr>)) (\<lambda>F'.
      Inr (rotation_dir (rk_out C) json, F'))))))))"

section \<open>Witnessing\<close>

record WitnessCmd =
  wt_chronicle :: fs_path
  wt_out :: "fs_path option"
  wt_post :: "string option"
  wt_rotation :: "entry_dir option"

definition attach_rotation ::
  "'x crates_scheme \<Rightarrow> rot_json \<Rightarrow> ChronicleState \<Rightarrow> entry_dir option \<Rightarrow> WitnessRequest \<Rightarrow> cli_error + WitnessRequest" where
  "attach_rotation X R state rot request =
     (case rot of
        None \<Rightarrow> Inr request
      | Some d \<Rightarrow>
          res_bind (map_err Anyhow (read_rotation R d)) (\<lambda>rec.
          let rot_tip = format_archive_id X (rot_archive_digest X rec) in
          if rot_tip \<noteq> cs_tip state
          then bail (''--rotation entry digest ('' @ rot_tip @ '') does not match the chronicle tip ('' @ cs_tip state @ '') '' @ em_dash @
            '' attach the rotation you just created with `seal rekey`'')
          else Inr (request\<lparr> wr_rotation := Some rec \<rparr>)))"

definition witness_request ::
  "'x crates_scheme \<Rightarrow> state_json \<Rightarrow> rot_json \<Rightarrow> WitnessCmd \<Rightarrow> cli_error + DeviceBundle \<Rightarrow> string \<Rightarrow> fs \<Rightarrow> cli_error + WitnessRequest" where
  "witness_request X S R C loaded signed_at F =
     res_bind (map_err (\<lambda>e. Anyhow [''Failed to read chronicle state: '' @ show_path (wt_chronicle C), e])
       (state_load S F (wt_chronicle C))) (\<lambda>state.
     res_bind loaded (\<lambda>bundle.
     if kp_public (bundle_signing bundle) \<noteq> cs_device_pub state
     then bail (''chronicle state belongs to '' @ cs_device_pub state @ '' but the device key is '' @ kp_public (bundle_signing bundle))
     else
     res_bind (try_crypto (wr_create_signed X (bundle_signing bundle) (cs_sequence state) (cs_tip state) signed_at))
       (attach_rotation X R state (wt_rotation C))))"

definition http_success :: "nat \<Rightarrow> bool" where
  "http_success status \<longleftrightarrow> 200 \<le> status \<and> status < 300"

definition write_output :: "fs \<Rightarrow> fs_path option \<Rightarrow> string \<Rightarrow> fs" where
  "write_output F out text = (case out of None \<Rightarrow> F | Some p \<Rightarrow> F(p := Some (str_bytes text)))"

text \<open>\<open>reply\<close> is the status and body of the endpoint's answer; \<open>wr_print\<close> is serde_json on the request.\<close>

definition handle_witness ::
  "'x crates_scheme \<Rightarrow> state_json \<Rightarrow> rot_json \<Rightarrow> web \<Rightarrow> (WitnessRequest \<Rightarrow> string + string) \<Rightarrow> WitnessCmd \<Rightarrow> cli_error + DeviceBundle \<Rightarrow> string \<Rightarrow>
     (WitnessRequest \<Rightarrow> string + nat \<times> string) \<Rightarrow> fs \<Rightarrow> cli_error + WitnessRequest \<times> fs" where
  "handle_witness X S R W wr_print C loaded signed_at reply F =
     res_bind (witness_request X S R C loaded signed_at F) (\<lambda>request.
     case wt_post C of
       Some url \<Rightarrow>
         res_bind (map_err (\<lambda>e. Anyhow [''Failed to POST witness to '' @ url, e]) (reply request)) (\<lambda>(status, text).
         if \<not> http_success status
         then Inl (CliExitError (int status) (''witness rejected: HTTP '' @ show_nat status @ '' '' @ em_dash @ '' '' @ text))
         else
         res_bind (map_err (\<lambda>e. Anyhow [''witness response was not JSON'', e]) (json_parse W (str_bytes text))) (\<lambda>v.
         res_bind (ok_or (Anyhow [''witness response missing '' @ squoted ''jws'']) (get_str v ''jws'')) (\<lambda>jws.
         Inr (request, write_output F (wt_out C) jws))))
     | None \<Rightarrow>
         res_bind (map_err (\<lambda>e. Anyhow [e]) (wr_print request)) (\<lambda>json.
         Inr (request, write_output F (wt_out C) json)))"

section \<open>The life of a device\<close>

text \<open>
  What a device has: its file system, the entry directories it wrote, oldest first, and the key of the first one. A step is
  a successful \<^verbatim>\<open>seal wrap --chronicle\<close> or \<^verbatim>\<open>seal rekey\<close> on the state file \<open>path\<close>, with any key that the command accepts, or
  any other change of the file system that leaves the state file alone. A wrap counts when the manifest it wrote is valid.
\<close>

record device_run =
  dr_fs :: fs
  dr_entries :: "entry_dir list"
  dr_root :: "string option"

definition plain_entry :: "archive_dir \<Rightarrow> entry_dir" where
  "plain_entry D = \<lparr> ed_archive = D, ed_rotation = None \<rparr>"

inductive device_step ::
  "'x kw_crates_scheme \<Rightarrow> man_json \<Rightarrow> state_json \<Rightarrow> rot_json \<Rightarrow> fs_path \<Rightarrow> device_run \<Rightarrow> device_run \<Rightarrow> bool"
  for X J S R path where
  step_wrap: "handle_wrap X J S C V (Inr b) D F = Inr (D', F') \<Longrightarrow> wrap_setting X J C V D reader \<Longrightarrow> bundle_signing b = keypair_of X sk \<Longrightarrow>
    wc_chronicle C = Some path \<Longrightarrow> wc_prev_archive C = None \<Longrightarrow> wc_prev_hash C = None \<Longrightarrow> wc_prev_seq C = None \<Longrightarrow>
    \<exists>m raw. read_manifest J D' = Inr (m, raw) \<and> manifest_validate m = Inr () \<Longrightarrow>
    device_step X J S R path \<lparr> dr_fs = F, dr_entries = ds, dr_root = r \<rparr>
      \<lparr> dr_fs = F', dr_entries = ds @ [plain_entry D'], dr_root = Some (case r of None \<Rightarrow> kp_public (keypair_of X sk) | Some p \<Rightarrow> p) \<rparr>"
| step_rekey: "handle_rekey X S R C (Inr b) (Inr b') out_exists now later F = Inr (d, F') \<Longrightarrow> rk_chronicle C = path \<Longrightarrow>
    bundle_signing b = keypair_of X sk \<Longrightarrow> bundle_signing b' = keypair_of X sk' \<Longrightarrow>
    device_step X J S R path \<lparr> dr_fs = F, dr_entries = ds, dr_root = r \<rparr> \<lparr> dr_fs = F', dr_entries = ds @ [d], dr_root = r \<rparr>"
| step_other: "F' path = F path \<Longrightarrow>
    device_step X J S R path \<lparr> dr_fs = F, dr_entries = ds, dr_root = r \<rparr> \<lparr> dr_fs = F', dr_entries = ds, dr_root = r \<rparr>"

definition device_start :: "fs_path \<Rightarrow> device_run \<Rightarrow> bool" where
  "device_start path s \<longleftrightarrow> dr_fs s path = None \<and> dr_entries s = [] \<and> dr_root s = None"

definition rot_json_ok :: "rot_json \<Rightarrow> bool" where
  "rot_json_ok R \<longleftrightarrow> (\<forall>r t. rot_print R r = Inr t \<longrightarrow> rot_parse R (str_bytes (t @ [CHR 0x0A])) = Inr r)"

text \<open>The invariant: the chronicle so far is accepted, and the state file points at its end.\<close>

definition head_matches :: "'x crates_scheme \<Rightarrow> string \<Rightarrow> Entry list \<Rightarrow> ChronicleState \<Rightarrow> bool" where
  "head_matches X pub es st \<longleftrightarrow> cs_device_pub st = signer_of pub es \<and> cs_sequence st + 1 = word_of_nat (length es) \<and>
     cs_tip st = format_archive_id X (ce_digest (last es)) \<and> cs_key_epoch st = word_of_nat (length (rotations_of es))"

definition chronicle_good :: "'x crates_scheme \<Rightarrow> man_json \<Rightarrow> rot_json \<Rightarrow> string \<Rightarrow> entry_dir list \<Rightarrow> Entry list \<Rightarrow> bool" where
  "chronicle_good X J R pub ds es \<longleftrightarrow> es \<noteq> [] \<and> list_all2 (\<lambda>d e. read_entry X J R d = Inr e) ds es \<and>
     verify_entries X J pub es = Inr (walk_of pub es)"

definition device_inv :: "'x crates_scheme \<Rightarrow> man_json \<Rightarrow> state_json \<Rightarrow> rot_json \<Rightarrow> fs_path \<Rightarrow> device_run \<Rightarrow> bool" where
  "device_inv X J S R path s \<longleftrightarrow> device_start path s \<or>
     (\<exists>pub es st. dr_root s = Some pub \<and> normalize_device_pub pub = pub \<and> chronicle_good X J R pub (dr_entries s) es \<and> state_load S (dr_fs s) path = Inr st \<and>
        head_matches X pub es st)"

section \<open>Lemmas\<close>

lemma rotations_of_length: "length (rotations_of es) \<le> length es"
  by (simp add: rotations_of_def List.map_filter_def)

lemma state_load_cong: "G path = F path \<Longrightarrow> state_load S G path = state_load S F path"
  by (simp add: state_load_def)

lemma state_saved: "state_json_ok S \<Longrightarrow> state_save S F path s = Inr G \<Longrightarrow> state_load S G path = Inr s"
  by (auto simp: state_save_def save_states_def res_simps save_states_run state_load_def state_json_ok_def)

text \<open>One more entry keeps a chronicle acceptable when it is linked and authorised.\<close>

lemma chronicle_good_snoc:
  assumes "chronicle_good X J R pub ds es" "read_entry X J R d = Inr e" "ce_seq e = word_of_nat (length es)"
    and "ce_prev e = Some (format_archive_id X (ce_digest (last es)))"
    and "authorized X J (signer_of pub es) (length (rotations_of es)) e" "length es < 2 ^ 32 - 1"
  shows "chronicle_good X J R pub (ds @ [d]) (es @ [e])"
proof -
  have es: "es \<noteq> []" "list_all2 (\<lambda>d e. read_entry X J R d = Inr e) ds es" "verify_entries X J pub es = Inr (walk_of pub es)"
    using assms(1) by (simp_all add: chronicle_good_def)
  note v = es(3) [unfolded verify_entries_iff [OF es(1)]]
  have "length (rotations_of (es @ [e])) \<le> length (es @ [e])" by (rule rotations_of_length)
  then have "verify_entries X J pub (es @ [e]) = Inr (walk_of pub (es @ [e]))"
    unfolding verify_entries_iff [of "es @ [e]", simplified]
    using v assms(3-6) es(1) by (auto simp: nth_append less_Suc_eq linked_snoc hd_append)
  then show ?thesis using es assms(2) by (simp add: chronicle_good_def list_all2_appendI)
qed

lemma chronicle_good_first:
  assumes "read_entry X J R d = Inr e" "ce_seq e = 0" "ce_prev e = None" "kind_rotation (ce_kind e) = None" "authorized X J pub 0 e"
  shows "chronicle_good X J R pub [d] [e]"
proof -
  have "rotations_of [e] = []" using assms(4) by (auto simp: kind_rotation_def split: EntryKind.splits)
  then have "verify_entries X J pub [e] = Inr (walk_of pub [e])"
    using assms by (subst verify_entries_iff) (simp_all add: linked_single)
  then show ?thesis using assms(1) by (simp add: chronicle_good_def)
qed

text \<open>What a wrap on a chronicle adds.\<close>

lemma wrapped_entry:
  assumes "wrapped X J C V b sk D' ss (Some l) m" "wrap_setting X J C V D reader" "manifest_valid m"
  shows "\<exists>e. read_entry X J R (plain_entry D') = Inr e \<and> ce_seq e = cl_sequence l \<and> ce_prev e = cl_prev l \<and>
    ce_kind e = ArchiveEntry m \<and> ce_digest e = archive_digest X m \<and>
    authorized X J (kp_public (keypair_of X sk)) (unat (cl_key_epoch l)) e"
proof -
  have ok: "ed_ok X" "b64_ok X" using assms(2) by (simp_all add: wrap_setting_def)
  have rd: "read_manifest J D' = Inr (m, str_bytes (own_signature X sk (to_canonical_bytes X m)))"
    and "archive_intact X D' m ss" using assms(1,3) by (simp_all add: wrapped_def Let_def)
  from archive_intact_accepted [OF this] have va: "validate_archive X J D' = Inr ()" .
  have "\<not> 0 < cl_key_epoch l \<Longrightarrow> cl_key_epoch l = 0" using word_neq_0_conv by blast
  then have "(case key_epoch (device m) of None \<Rightarrow> 0 | Some k \<Rightarrow> k) = cl_key_epoch l"
    using assms(1) by (simp add: wrapped_def Let_def)
  moreover have "man_signature m = Some (own_signature X sk (to_canonical_bytes X m))" "public_key (device m) = kp_public (keypair_of X sk)"
    "trst_version m = ''0.2.0''" "sequence m = Some (cl_sequence l)" "prev_archive_hash m = cl_prev l"
    using assms(1) by (simp_all add: wrapped_def Let_def)
  ultimately show ?thesis
    using rd va verify_own_signature [OF ok]
    by (simp add: read_entry_def plain_entry_def require_supported_version_def authorized_def)
qed

lemma handle_rekey_steps:
  assumes "handle_rekey X S R C (Inr b) (Inr b') out_exists now later F = Inr (d, F')"
  obtains st rec json where "F (rk_chronicle C) \<noteq> None" "state_load S F (rk_chronicle C) = Inr st"
    "kp_public (bundle_signing b) = cs_device_pub st" "kp_public (bundle_signing b') \<noteq> kp_public (bundle_signing b)"
    "rot_create_signed X (bundle_signing b) (cs_key_epoch st) b' (cs_sequence st + 1) (cs_tip st) now = Inr rec"
    "rot_print R rec = Inr json" "d = rotation_dir (rk_out C) json"
    "state_save S F (rk_chronicle C) \<lparr> cs_device_pub = kp_public (bundle_signing b'), cs_sequence = cs_sequence st + 1,
       cs_tip = format_archive_id X (rot_archive_digest X rec), cs_key_epoch = new_key_epoch (rot_new rec), cs_updated_at = later \<rparr> = Inr F'"
  using assms unfolding handle_rekey_def error_context_def try_crypto_def bail_def Let_def
  by (clarsimp simp: res_simps split: if_splits)

lemma rotation_entry:
  assumes "rot_json_ok R" "rot_print R r = Inr json" "rot_version r = ''0.2.0''"
  shows "\<exists>e. read_entry X J R (rotation_dir out json) = Inr e \<and> ce_seq e = rot_sequence r \<and> ce_prev e = Some (rot_prev r) \<and>
    ce_kind e = RotationEntry r \<and> ce_digest e = rot_archive_digest X r"
  using assms by (auto simp: read_entry_def rotation_dir_def read_rotation_def rot_json_ok_def Let_def require_supported_version_def)

text \<open>Each kind of step keeps the invariant.\<close>

lemma device_inv_wrap:
  assumes "state_json_ok S" "device_inv X J S R path \<lparr> dr_fs = F, dr_entries = ds, dr_root = r \<rparr>" "length ds < 2 ^ 32 - 1"
    and "handle_wrap X J S C V (Inr b) D F = Inr (D', F')" "wrap_setting X J C V D reader" "bundle_signing b = keypair_of X sk"
    and "wc_chronicle C = Some path" "wc_prev_archive C = None" "wc_prev_hash C = None" "wc_prev_seq C = None"
    and "\<exists>m raw. read_manifest J D' = Inr (m, raw) \<and> manifest_validate m = Inr ()"
  shows "device_inv X J S R path \<lparr> dr_fs = F', dr_entries = ds @ [plain_entry D'],
    dr_root = Some (case r of None \<Rightarrow> kp_public (keypair_of X sk) | Some p \<Rightarrow> p) \<rparr>"
proof -
  from handle_wrap_wrapped [OF assms(5,6,4)] obtain ss lk m where w: "wrapped X J C V b sk D' ss lk m"
    and rc: "resolve_chronicle X J S F (Some path) None None None (kp_public (keypair_of X sk)) = Inr lk"
    and ac: "advance_chronicle X S V F (kp_public (keypair_of X sk)) m lk = Inr F'"
    using assms(7-10) by metis
  have mv: "manifest_valid m" using w assms(11) by (auto simp: wrapped_def Let_def manifest_validate_ok_iff)
  from rc obtain l where l: "lk = Some l" "cl_state_path l = Some path" by (auto simp: resolve_chronicle_def res_simps bail_def split: if_splits)
  from wrapped_entry [OF w [unfolded l(1)] assms(5) mv, of R] obtain e where e: "read_entry X J R (plain_entry D') = Inr e" "ce_seq e = cl_sequence l"
    "ce_prev e = cl_prev l" "ce_kind e = ArchiveEntry m" "ce_digest e = archive_digest X m"
    "authorized X J (kp_public (keypair_of X sk)) (unat (cl_key_epoch l)) e" by blast
  have st: "state_load S F' path = Inr \<lparr> cs_device_pub = kp_public (keypair_of X sk), cs_sequence = cl_sequence l,
      cs_tip = format_archive_id X (archive_digest X m), cs_key_epoch = cl_key_epoch l, cs_updated_at = we_later V \<rparr>"
    using ac l by (auto simp: advance_chronicle_def map_err_Inr_iff intro!: state_saved [OF assms(1)])
  show ?thesis
  proof (cases "device_start path \<lparr> dr_fs = F, dr_entries = ds, dr_root = r \<rparr>")
    case True
    then have n: "ds = []" "r = None" "F path = None" by (simp_all add: device_start_def)
    with rc l have "cl_sequence l = 0" "cl_prev l = None" "cl_key_epoch l = 0" by (auto simp: resolve_chronicle_def)
    then have "chronicle_good X J R (kp_public (keypair_of X sk)) [plain_entry D'] [e]"
      using e by (intro chronicle_good_first) (simp_all add: kind_rotation_def)
    moreover have "head_matches X (kp_public (keypair_of X sk)) [e] \<lparr> cs_device_pub = kp_public (keypair_of X sk), cs_sequence = cl_sequence l,
      cs_tip = format_archive_id X (archive_digest X m), cs_key_epoch = cl_key_epoch l, cs_updated_at = we_later V \<rparr>"
      using e \<open>cl_sequence l = 0\<close> \<open>cl_key_epoch l = 0\<close> signer_of_simps(2) [of "kp_public (keypair_of X sk)" "[]" e]
      by (simp add: head_matches_def)
    ultimately show ?thesis using st n by (auto simp: device_inv_def)
  next
    case False
    then obtain pub es old where o: "r = Some pub" "chronicle_good X J R pub ds es" "state_load S F path = Inr old" "head_matches X pub es old"
      "normalize_device_pub pub = pub"
      using assms(2) by (auto simp: device_inv_def)
    have "F path \<noteq> None" using o(3) by (auto simp: state_load_def res_simps)
    with rc l o(3) have c: "cs_device_pub old = kp_public (keypair_of X sk)" "cl_sequence l = cs_sequence old + 1" "cl_prev l = Some (cs_tip old)"
      "cl_key_epoch l = cs_key_epoch old" by (auto simp: resolve_chronicle_def bail_def split: if_splits)
    have len: "length es = length ds" using o(2) by (auto simp: chronicle_good_def dest: list_all2_lengthD)
    then have fits: "unat (cl_key_epoch l) = length (rotations_of es)"
      using o(4) c(4) rotations_of_length [of es] assms(3) by (simp add: head_matches_def u32_fits)
    have "chronicle_good X J R pub (ds @ [plain_entry D']) (es @ [e])"
      using o c e len fits assms(3) by (intro chronicle_good_snoc) (simp_all add: head_matches_def)
    moreover have "head_matches X pub (es @ [e]) \<lparr> cs_device_pub = kp_public (keypair_of X sk), cs_sequence = cl_sequence l,
      cs_tip = format_archive_id X (archive_digest X m), cs_key_epoch = cl_key_epoch l, cs_updated_at = we_later V \<rparr>"
      using o c e by (simp add: head_matches_def)
    ultimately show ?thesis using st o(1,5) by (auto simp: device_inv_def)
  qed
qed

lemma device_inv_rekey:
  assumes "state_json_ok S" "rot_json_ok R" "ed_ok X" "b64_ok X"
    and "device_inv X J S R path \<lparr> dr_fs = F, dr_entries = ds, dr_root = r \<rparr>" "length ds < 2 ^ 32 - 1"
    and "handle_rekey X S R C (Inr b) (Inr b') out_exists now later F = Inr (d, F')" "rk_chronicle C = path"
    and "bundle_signing b = keypair_of X sk" "bundle_signing b' = keypair_of X sk'"
  shows "device_inv X J S R path \<lparr> dr_fs = F', dr_entries = ds @ [d], dr_root = r \<rparr>"
proof -
  from assms(7) obtain st rec json where s: "F path \<noteq> None" "state_load S F path = Inr st"
    "kp_public (keypair_of X sk) = cs_device_pub st"
    "rot_create_signed X (keypair_of X sk) (cs_key_epoch st) b' (cs_sequence st + 1) (cs_tip st) now = Inr rec"
    "rot_print R rec = Inr json" "d = rotation_dir (rk_out C) json"
    "state_save S F path \<lparr> cs_device_pub = kp_public (keypair_of X sk'), cs_sequence = cs_sequence st + 1,
       cs_tip = format_archive_id X (rot_archive_digest X rec), cs_key_epoch = new_key_epoch (rot_new rec), cs_updated_at = later \<rparr> = Inr F'"
    by (rule handle_rekey_steps) (use assms(8-10) in simp)
  note c = rot_created [OF s(4) assms(10)]
  from rotation_entry [OF assms(2) s(5) conjunct1 [OF c], of X J "rk_out C"] obtain e where e: "read_entry X J R d = Inr e"
    "ce_seq e = rot_sequence rec" "ce_prev e = Some (rot_prev rec)" "ce_kind e = RotationEntry rec" "ce_digest e = rot_archive_digest X rec"
    using s(6) by blast
  obtain pub es where o: "r = Some pub" "chronicle_good X J R pub ds es" "head_matches X pub es st" "normalize_device_pub pub = pub"
    using assms(5) s(1,2) by (auto simp: device_inv_def device_start_def)
  have len: "length es = length ds" using o(2) by (auto simp: chronicle_good_def dest: list_all2_lengthD)
  then have fits: "unat (cs_key_epoch st) = length (rotations_of es)" "length (rotations_of es) < 2 ^ 32 - 1"
    using o(3) rotations_of_length [of es] assms(6) by (simp_all add: head_matches_def u32_fits)
  then have "rot_verify X rec" using rot_created_verifies [OF assms(3,4) s(4) assms(10)] by simp
  then have "authorized X J (signer_of pub es) (length (rotations_of es)) e"
    using c e(4) fits(1) o(3) s(3) by (simp add: authorized_def head_matches_def)
  then have "chronicle_good X J R pub (ds @ [d]) (es @ [e])"
    using o c e len assms(6) by (intro chronicle_good_snoc) (simp_all add: head_matches_def)
  moreover have "head_matches X pub (es @ [e]) \<lparr> cs_device_pub = kp_public (keypair_of X sk'), cs_sequence = cs_sequence st + 1,
       cs_tip = format_archive_id X (rot_archive_digest X rec), cs_key_epoch = new_key_epoch (rot_new rec), cs_updated_at = later \<rparr>"
    using o(3) c e by (simp add: head_matches_def)
  ultimately show ?thesis using state_saved [OF assms(1) s(7)] o(1,4) by (auto simp: device_inv_def)
qed

lemma device_step_length: "device_step X J S R path s t \<Longrightarrow> length (dr_entries s) \<le> length (dr_entries t)"
  by (auto elim!: device_step.cases)

lemma device_step_inv:
  assumes "state_json_ok S" "rot_json_ok R" "ed_ok X" "b64_ok X" "device_inv X J S R path s" "device_step X J S R path s t"
    and "length (dr_entries t) < 2 ^ 32"
  shows "device_inv X J S R path t"
  using assms(6)
proof cases
  case (step_wrap C V b D F D' F' reader sk ds r)
  show ?thesis unfolding step_wrap(2) by (rule device_inv_wrap [OF assms(1) _ _ step_wrap(3-)]) (use assms(5,7) step_wrap(1,2) in simp_all)
next
  case (step_rekey C b b' oe now later F d F' sk sk' ds r)
  show ?thesis unfolding step_rekey(2) by (rule device_inv_rekey [OF assms(1-4) _ _ step_rekey(3-)]) (use assms(5,7) step_rekey(1,2) in simp_all)
next
  case (step_other F' F ds r)
  then show ?thesis using assms(5) state_load_cong [of F' path F S] by (simp add: device_inv_def device_start_def)
qed

lemma device_reach_inv:
  assumes "state_json_ok S" "rot_json_ok R" "ed_ok X" "b64_ok X" "device_start path s" "(device_step X J S R path)\<^sup>*\<^sup>* s t"
    and "length (dr_entries t) < 2 ^ 32"
  shows "device_inv X J S R path t"
  using assms(6,7)
proof (induction rule: rtranclp_induct)
  case base
  show ?case using assms(5) by (simp add: device_inv_def)
next
  case (step t u)
  with device_step_length [OF step.hyps(2)] device_step_inv [OF assms(1-4) step.IH step.hyps(2)] show ?case by simp
qed

text \<open>The order of the arguments of \<^verbatim>\<open>verify-chronicle\<close> does not matter.\<close>

lemma read_entries_map: "(\<And>d. d \<in> set ds \<Longrightarrow> read_entry X J R d = Inr (f d)) \<Longrightarrow> read_entries X J R ds = Inr (map f ds)"
  by (induction ds) simp_all

lemma good_entries_sorted:
  assumes "verify_entries X J pub es = Inr w" "es \<noteq> []" "length es < 2 ^ 64"
  shows "sorted (map ce_seq es)" "inj_on ce_seq (set es)"
proof -
  have seq: "ce_seq (es ! k) = word_of_nat k" if "k < length es" for k
    using assms(1) that by (simp add: verify_entries_iff [OF assms(2)])
  have u: "unat (ce_seq (es ! k)) = k" if "k < length es" for k
    using seq that assms(3) by (simp add: unsigned_of_nat take_bit_nat_eq_self)
  show "sorted (map ce_seq es)"
    by (auto simp: sorted_iff_nth_mono word_le_nat_alt u)
  show "inj_on ce_seq (set es)"
  proof (rule inj_onI)
    fix x y assume "x \<in> set es" "y \<in> set es" and eq: "ce_seq x = ce_seq y"
    then obtain i j where "i < length es" "j < length es" "x = es ! i" "y = es ! j" by (auto simp: in_set_conv_nth)
    with u eq show "x = y" by metis
  qed
qed

lemma chronicle_good_accepted:
  assumes "chronicle_good X J R pub ds es" "length ds < 2 ^ 64" "mset cs = mset ds" "normalize_device_pub pub = pub"
  shows "\<exists>rep. handle_verify_chronicle X J R W (map (\<lambda>d. DirNode d []) cs) pub None k = Inr rep \<and> cr_count rep = length ds \<and>
    cr_tip rep = format_archive_id X (ce_digest (last es)) \<and> cr_current_identity rep = signer_of pub es \<and>
    cr_current_epoch rep = word_of_nat (length (rotations_of es))"
proof -
  have es: "es \<noteq> []" "list_all2 (\<lambda>d e. read_entry X J R d = Inr e) ds es" "verify_entries X J pub es = Inr (walk_of pub es)"
    using assms(1) by (simp_all add: chronicle_good_def)
  define f where "f d = (case read_entry X J R d of Inr e \<Rightarrow> e | Inl _ \<Rightarrow> hd es)" for d
  have fd: "read_entry X J R d = Inr (f d)" if "d \<in> set ds" for d
    using that es(2) by (auto simp: f_def list_all2_conv_all_nth in_set_conv_nth)
  have ef: "es = map f ds" using es(2) by (auto simp: f_def list_all2_conv_all_nth intro!: nth_equalityI)
  have set: "set cs = set ds" "length cs = length ds" using mset_eq_setD [OF assms(3)] mset_eq_length [OF assms(3)] by simp_all
  have rd: "read_entries X J R cs = Inr (map f cs)" using fd set(1) by (intro read_entries_map) simp
  have "is_chronicle_entry_dir d" if "d \<in> set cs" for d
    using fd [of d] that set(1) by (cases "manifest_file (ed_archive d)")
      (auto simp: is_chronicle_entry_dir_def read_entry_def read_manifest_def read_capped_def Let_def res_simps split: if_splits)
  then have col: "collect_archive_dirs (map (\<lambda>d. DirNode d []) cs) = Inr cs" by (induction cs) simp_all
  have len: "length es < 2 ^ 64" using assms(2) ef by simp
  note sorted = good_entries_sorted [OF es(3,1) len]
  have "sort_key ce_seq (map f cs) = es"
  proof (rule sort_key_inj_key_eq)
    show "mset (map f cs) = mset es" using assms(3) by (simp add: ef)
    show "inj_on ce_seq (set (map f cs))" using sorted(2) set(1) by (simp add: ef)
  qed (rule sorted(1))
  moreover have "cs \<noteq> []" using es(1) ef set(2) by auto
  moreover have "length es = length ds" using ef by simp
  ultimately show ?thesis
    using set(2) by (simp add: handle_verify_chronicle_def assms(4) Let_def col rd es(3)) (simp add: walk_of_def)
qed

text \<open>A key file is read back: the header line selects the encrypted form, and trimming takes the newline off the plain one.\<close>

definition bundle_text_ok :: "bundle_json \<Rightarrow> bool" where
  "bundle_text_ok B \<longleftrightarrow> (\<forall>v e x. ascii e \<longrightarrow> ascii x \<longrightarrow> (\<exists>t. ascii t \<and> secrets_print B v e x = CHR ''{'' # t @ ''}''))"

lemma trim_line: "trim (CHR ''{'' # t @ ''}'' @ [CHR 0x0A]) = CHR ''{'' # t @ ''}''"
proof -
  have ne: "[] \<notin> set white_space" by (auto simp: white_space_def)
  have k: "trim_start white_space (CHR ''{'' # u) = CHR ''{'' # u" for u
    by (rule trim_start_keeps) (use white_space_ends [of "CHR ''{''"] ne in simp_all)
  have "trim_start (map rev white_space) (CHR 0x0A # u) = trim_start (map rev white_space) u" for u
  proof -
    have "\<exists>ws. map rev white_space = [CHR 0x09] # [CHR 0x0A] # ws"
      by (simp add: white_space_def) (simp add: char_of_def bit_0)
    then obtain ws where ws: "map rev white_space = [CHR 0x09] # [CHR 0x0A] # ws" ..
    have "ws_len (map rev white_space) (CHR 0x0A # u) = 1" unfolding ws by (simp add: ws_len_def starts_with_def)
    then show ?thesis by (simp add: trim_start.simps [of _ "CHR 0x0A # u"])
  qed
  moreover have "trim_start (map rev white_space) (CHR ''}'' # u) = CHR ''}'' # u" for u
  proof (rule trim_start_keeps)
    show "hd (CHR ''}'' # u) \<notin> hd ` set (map rev white_space)"
      using white_space_ends(2) [of "CHR ''}''"] ne by (auto simp: hd_rev image_iff)
  qed (use ne in auto)
  ultimately show ?thesis by (simp add: trim_def k)
qed

lemma secure_tmp_neq [simp]: "secure_tmp pid seq p \<noteq> p" "p \<noteq> secure_tmp pid seq p"
  by (cases p; auto simp: secure_tmp_def split: option.splits)+

lemma write_secure_result: "write_secure pid seq F path b = F(path := Some b, secure_tmp pid seq path := None)"
  unfolding write_secure_def secure_ops_def run_states.simps Let_def last_op_write by (auto simp: fun_eq_iff)

lemma key_file_loads:
  assumes "b64_ok X" "aead_ok (aes_seal X) (aes_open X)" "sealed_meta_ok J" "bundle_json_ok B" "bundle_text_ok B"
    and "length (kr_signing r) = 32" "length (kr_agreement r) = 32" "length (kr_nonce r) = 12"
    and "key_file_content X J B r unencrypted (Inr pass) confirm = Inr content" "b64_text X"
  shows "load_bundle X J B name (Some content) unencrypted (Inr pass) = Inr (rand_bundle X r)"
proof (cases unencrypted)
  case True
  have "ascii (export_secret X (bundle_signing (rand_bundle X r)))" "ascii (ka_export_secret X (bundle_agreement (rand_bundle X r)))"
    using assms(10) by (simp_all add: export_secret_def ka_export_secret_def b64_text_def ascii_append KEY_AGREEMENT_PREFIX_def)
      (simp_all add: ascii_def)
  then obtain t where t: "ascii t" "to_plaintext X B (rand_bundle X r) = CHR ''{'' # t @ ''}''"
    using assms(5) unfolding bundle_text_ok_def to_plaintext_def by blast
  define w where "w = CHR ''{'' # t @ ''}'' @ [CHR 0x0A]"
  have "ascii w" using t(1) by (simp add: ascii_def w_def)
  then have u: "from_utf8 (str_bytes w) = Some w" using utf8_valid_str by (simp add: from_utf8_def)
  have tr: "trim w = CHR ''{'' # t @ ''}''" unfolding w_def by (rule trim_line)
  have h: "\<not> bytes_start_with (str_bytes BUNDLE_HEADER_V2 @ [10]) (str_bytes w)"
    by (simp add: bytes_start_with_def BUNDLE_HEADER_V2_def str_bytes_def w_def)
  have "content = str_bytes w"
    using True assms(9) t(2) by (simp add: key_file_content_def Let_def w_def) (simp add: str_bytes_def)
  then show ?thesis
    using True from_to_plaintext [OF assms(1,4,6,7)] t(2)
    by (simp add: load_bundle_def read_key_file_def h u tr rand_bundle_def)
next
  case False
  then have "export_encrypted X J B (kr_salt r) (kr_nonce r) (rand_bundle X r) pass = Inr content"
    using assms(9) by (auto simp: key_file_content_def Let_def read_prompt_def res_simps bail_def split: if_splits)
  from exported_bundle [OF assms(1-4,8,6,7) this [unfolded rand_bundle_def]] False show ?thesis
    by (auto simp: load_bundle_def read_key_file_def read_prompt_def bytes_start_with_def rand_bundle_def)
qed

section \<open>Properties\<close>


definition sample_state_path :: fs_path where "sample_state_path = (''dir'', Some ''device.chronicle'')"

lemma sample_rot_json_ok: "rot_json_ok \<lparr> rot_print = (\<lambda>_. Inl ''unsupported''), rot_parse = (\<lambda>_. Inl ''unsupported'') \<rparr>"
  by (simp add: rot_json_ok_def)



definition sample_bundle_text :: bundle_json where
  "sample_bundle_text = \<lparr> secrets_print = (\<lambda>v e x. CHR ''{'' # secrets_print sample_bundle_json v e x @ ''}''),
     secrets_parse = (\<lambda>t. secrets_parse sample_bundle_json (butlast (tl t))) \<rparr>"

lemma sample_bundle_text_ok: "bundle_json_ok sample_bundle_text" "bundle_text_ok sample_bundle_text"
proof -
  have a: "ascii (secrets_print sample_bundle_json v e x)" for v e x
    using sample_meta_print_text(1) by (simp add: sample_bundle_json_def)
  then have "utf8_valid (str_bytes (CHR ''{'' # secrets_print sample_bundle_json v e x @ ''}''))" for v e x
    by (intro utf8_valid_str) (simp add: ascii_def)
  then show "bundle_json_ok sample_bundle_text"
    using sample_bundle_json_ok by (simp add: bundle_json_ok_def sample_bundle_text_def butlast_append)
  show "bundle_text_ok sample_bundle_text" using a by (auto simp: bundle_text_ok_def sample_bundle_text_def)
qed

definition sample_rand :: key_rand where
  "sample_rand = \<lparr> kr_signing = replicate 32 7, kr_agreement = replicate 32 8, kr_salt = [1], kr_nonce = replicate 12 3 \<rparr>"

definition sample_keygen :: KeygenCmd where
  "sample_keygen = \<lparr> kg_out_key = (''d'', Some ''k''), kg_out_pub = (''d'', Some ''p''), kg_unencrypted = False \<rparr>"


end
