(* ===== verification/Witness.thy ===== *)
theory Witness
  imports Chronicle
begin

text \<open>
  The pure decisions of the platform: \<^verbatim>\<open>crates/platform/src/witness.rs\<close> decides how a chronicle tip is witnessed, and
  \<^verbatim>\<open>crates/platform/src/revocation.rs\<close> decides revocations, the gates that a revoked or rotated key meets, and the lineage
  that a rotation record establishes. chrono's reading of a timestamp is the parameter \<open>rfc3339\<close>: the instant a text
  denotes, if it is well formed.
\<close>

section \<open>The witness ledger of one device\<close>

record WitnessEntry =
  wn_sequence :: u64
  wn_tip :: string
  wn_observed_at :: string

datatype WitnessDecision =
    Record "WitnessEntry option"
  | Replay WitnessEntry "WitnessEntry option"
  | Fork string
  | Rollback u64

text \<open>\<^verbatim>\<open>Iterator::max_by_key\<close> keeps the last of several maxima, \<^verbatim>\<open>Iterator::max\<close> the greatest value.\<close>

fun max_by_key :: "('a \<Rightarrow> u64) \<Rightarrow> 'a list \<Rightarrow> 'a option" where
  "max_by_key f [] = None"
| "max_by_key f (x # xs) =
     (case max_by_key f xs of None \<Rightarrow> Some x | Some y \<Rightarrow> if f x \<le> f y then Some y else Some x)"

definition prev_entry :: "WitnessEntry list \<Rightarrow> u64 \<Rightarrow> WitnessEntry option" where
  "prev_entry existing seq = max_by_key wn_sequence (filter (\<lambda>e. wn_sequence e < seq) existing)"

definition decide :: "WitnessEntry list \<Rightarrow> u64 \<Rightarrow> string \<Rightarrow> WitnessDecision" where
  "decide existing seq tip =
     (case find (\<lambda>e. wn_sequence e = seq) existing of
        Some same \<Rightarrow> if wn_tip same = tip then Replay same (prev_entry existing seq) else Fork (wn_tip same)
      | None \<Rightarrow>
          (case max_by_key id (map wn_sequence existing) of
             Some m \<Rightarrow> if seq \<le> m then Rollback m else Record (prev_entry existing seq)
           | None \<Rightarrow> Record (prev_entry existing seq)))"

record WitnessReceipt =
  rc_device_pub :: string
  rc_device_registered :: bool
  rc_sequence :: u64
  rc_tip :: string
  rc_observed_at :: string
  rc_prev_sequence :: "u64 option"
  rc_prev_tip :: "string option"
  rc_prev_observed_at :: "string option"
  rc_jti :: string

definition receipt_build :: "string \<Rightarrow> bool \<Rightarrow> u64 \<Rightarrow> string \<Rightarrow> string \<Rightarrow> WitnessEntry option \<Rightarrow> string \<Rightarrow> WitnessReceipt" where
  "receipt_build device_pub registered seq tip observed_at prev jti =
     \<lparr> rc_device_pub = device_pub, rc_device_registered = registered, rc_sequence = seq, rc_tip = tip, rc_observed_at = observed_at,
       rc_prev_sequence = map_option wn_sequence prev, rc_prev_tip = map_option wn_tip prev,
       rc_prev_observed_at = map_option wn_observed_at prev, rc_jti = jti \<rparr>"

section \<open>Revocation\<close>

record RevocationState =
  rv_revoked_at :: "string option"
  rv_min_epoch :: "u32 option"

definition rev_default :: RevocationState where "rev_default = \<lparr> rv_revoked_at = None, rv_min_epoch = None \<rparr>"

datatype RevokeOutcome = Apply string "u32 option" | RejectRevoke string

definition new_revoked_at :: "(string \<Rightarrow> int option) \<Rightarrow> string option \<Rightarrow> string option \<Rightarrow> string \<Rightarrow> string + string" where
  "new_revoked_at rfc3339 cur req now =
     (case (cur, req) of
        (None, None) \<Rightarrow> Inr now
      | (None, Some r) \<Rightarrow> if rfc3339 r = None then Inl (''malformed revoked_at: '' @ r) else Inr r
      | (Some c, None) \<Rightarrow> Inr c
      | (Some c, Some r) \<Rightarrow>
          (case (rfc3339 c, rfc3339 r) of
             (Some cd, Some rd) \<Rightarrow> if rd \<le> cd then Inr r else Inl ''revoked_at may only move earlier, never later''
           | _ \<Rightarrow> Inl (''malformed revoked_at: '' @ r)))"

definition new_min_epoch :: "u32 option \<Rightarrow> u32 option \<Rightarrow> string + u32 option" where
  "new_min_epoch cur req =
     (case (cur, req) of
        (_, None) \<Rightarrow> Inr cur
      | (None, Some r) \<Rightarrow> Inr (Some r)
      | (Some c, Some r) \<Rightarrow>
          if c \<le> r then Inr (Some r)
          else Inl (''min_epoch must be non-decreasing (current '' @ show_nat (unat c) @ '', got '' @ show_nat (unat r) @ '')''))"

definition decide_revoke :: "(string \<Rightarrow> int option) \<Rightarrow> RevocationState \<Rightarrow> string option \<Rightarrow> u32 option \<Rightarrow> string \<Rightarrow> RevokeOutcome" where
  "decide_revoke rfc3339 st req_revoked_at req_min_epoch now =
     (case new_revoked_at rfc3339 (rv_revoked_at st) req_revoked_at now of
        Inl e \<Rightarrow> RejectRevoke e
      | Inr revoked_at \<Rightarrow>
          (case new_min_epoch (rv_min_epoch st) req_min_epoch of
             Inl e \<Rightarrow> RejectRevoke e
           | Inr min_epoch \<Rightarrow> Apply revoked_at min_epoch))"

definition is_revoked :: "RevocationState \<Rightarrow> bool" where
  "is_revoked st \<longleftrightarrow> rv_revoked_at st \<noteq> None"

definition epoch_allowed :: "u32 option \<Rightarrow> u32 \<Rightarrow> bool" where
  "epoch_allowed min_epoch archive_epoch = (case min_epoch of Some floor \<Rightarrow> floor \<le> archive_epoch | None \<Rightarrow> True)"

fun is_record :: "WitnessDecision \<Rightarrow> bool" where
  "is_record (Record _) = True"
| "is_record _ = False"

definition refuse_revoked_witness :: "bool \<Rightarrow> WitnessDecision \<Rightarrow> bool" where
  "refuse_revoked_witness revoked d \<longleftrightarrow> revoked \<and> is_record d"

definition refuse_superseded :: "u64 option \<Rightarrow> u64 \<Rightarrow> WitnessDecision \<Rightarrow> bool" where
  "refuse_superseded rotation_seq seq d = (case rotation_seq of Some r \<Rightarrow> r < seq \<and> is_record d | None \<Rightarrow> False)"

section \<open>Lineage\<close>

datatype LineageCheck = LineageOk string u64 | LineageReject string

definition verify_lineage_rotation :: "'x crates_scheme \<Rightarrow> RotationRecord \<Rightarrow> string \<Rightarrow> u64 \<Rightarrow> string \<Rightarrow> LineageCheck" where
  "verify_lineage_rotation X rec req_device_pub req_sequence req_tip =
     (if \<not> rot_verify X rec then LineageReject ''rotation co-signature/epoch verification failed''
      else if new_public_key (rot_new rec) \<noteq> req_device_pub
      then LineageReject ''rotation new.public_key does not match the request device_pub''
      else if rot_sequence rec \<noteq> req_sequence
      then LineageReject (''rotation sequence '' @ show_nat (unat (rot_sequence rec)) @ '' does not match request sequence '' @
        show_nat (unat req_sequence))
      else if format_archive_id X (rot_archive_digest X rec) \<noteq> req_tip
      then LineageReject ''rotation digest does not match the witnessed tip''
      else LineageOk (old_public_key (rot_old rec)) (rot_sequence rec))"

section \<open>Lemmas\<close>

lemma max_by_key_None [simp]: "max_by_key f xs = None \<longleftrightarrow> xs = []"
  by (cases xs) (auto split: option.splits if_splits)

lemma max_by_key_Some: "max_by_key f xs = Some y \<Longrightarrow> y \<in> set xs \<and> (\<forall>x \<in> set xs. f x \<le> f y)"
proof (induction xs arbitrary: y)
  case (Cons x xs)
  show ?case
  proof (cases "max_by_key f xs")
    case None
    then show ?thesis using Cons.prems by simp
  next
    case (Some z)
    with Cons.IH [OF Some] Cons.prems show ?thesis by (auto split: if_splits)
  qed
qed simp

text \<open>What each decision means: the four cases are exclusive and exhaustive.\<close>

lemma decide_replay_iff:
  "decide es n t = Replay e p \<longleftrightarrow> find (\<lambda>e. wn_sequence e = n) es = Some e \<and> wn_tip e = t \<and> p = prev_entry es n"
  by (auto simp: decide_def split: option.splits if_splits)

lemma decide_record_iff: "decide es n t = Record p \<longleftrightarrow> (\<forall>e \<in> set es. wn_sequence e < n) \<and> p = prev_entry es n"
proof (cases "find (\<lambda>e. wn_sequence e = n) es")
  case None
  then have ne: "\<forall>e \<in> set es. wn_sequence e \<noteq> n" by (auto simp: find_None_iff)
  show ?thesis
  proof (cases "max_by_key id (map wn_sequence es)")
    case None
    then show ?thesis by (auto simp: decide_def)
  next
    case (Some m)
    then have m: "m \<in> wn_sequence ` set es" "\<forall>e \<in> set es. wn_sequence e \<le> m" using max_by_key_Some [OF Some] by auto
    show ?thesis
    proof
      assume "decide es n t = Record p"
      then have "\<not> n \<le> m" "p = prev_entry es n" using None Some by (auto simp: decide_def split: if_splits)
      with m ne show "(\<forall>e \<in> set es. wn_sequence e < n) \<and> p = prev_entry es n" by fastforce
    next
      assume a: "(\<forall>e \<in> set es. wn_sequence e < n) \<and> p = prev_entry es n"
      then have "\<not> n \<le> m" using m(1) by fastforce
      then show "decide es n t = Record p" using None Some a by (simp add: decide_def)
    qed
  qed
next
  case (Some e)
  then have "e \<in> set es" "wn_sequence e = n" by (auto simp: find_Some_iff)
  then show ?thesis using Some by (auto simp: decide_def split: if_splits)
qed

lemma decide_fork_iff: "decide es n t = Fork u \<longleftrightarrow> (\<exists>e. find (\<lambda>e. wn_sequence e = n) es = Some e \<and> wn_tip e \<noteq> t \<and> u = wn_tip e)"
  by (auto simp: decide_def split: option.splits if_splits)

lemma new_revoked_at_monotone:
  assumes "new_revoked_at rfc3339 cur req now = Inr r"
  shows "case cur of None \<Rightarrow> r = now \<and> req = None \<or> req = Some r \<and> rfc3339 r \<noteq> None
    | Some c \<Rightarrow> r = c \<or> (\<exists>cd rd. rfc3339 c = Some cd \<and> rfc3339 r = Some rd \<and> rd \<le> cd)"
  using assms by (auto simp: new_revoked_at_def split: option.splits if_splits)

lemma new_min_epoch_monotone:
  "new_min_epoch cur req = Inr n \<Longrightarrow> epoch_allowed n e \<Longrightarrow> epoch_allowed cur e"
  by (auto simp: new_min_epoch_def epoch_allowed_def split: option.splits if_splits)

lemma lineage_ok_iff:
  "verify_lineage_rotation X r k n t = LineageOk p s \<longleftrightarrow> rot_verify X r \<and> new_public_key (rot_new r) = k \<and> rot_sequence r = n \<and>
     format_archive_id X (rot_archive_digest X r) = t \<and> p = old_public_key (rot_old r) \<and> s = n"
  by (auto simp: verify_lineage_rotation_def)

end
