(* ===== verification/Verify_Engine.thy ===== *)
theory Verify_Engine
  imports Seal_Device
begin

text \<open>
  The verification engine of the platform (\<^verbatim>\<open>crates/platform/src/verify/engine.rs\<close> and \<^verbatim>\<open>validation.rs\<close>), the request
  types it shares with the command line tool, and \<^verbatim>\<open>seal emit-request\<close>, which produces the requests. Conversion between
  manifests and JSON values is serde's and a parameter.
\<close>

section \<open>Wire types\<close>

record SegmentRef =
  sr_index :: u32
  sr_hash :: string

record VerifyOptions =
  vo_return_receipt :: bool
  vo_device_id :: "string option"

record VerifyRequest =
  vq_device_pub :: string
  vq_manifest :: json
  vq_segments :: "SegmentRef list"
  vq_options :: VerifyOptions

record VerificationResult =
  vx_passed :: bool
  vx_error :: "string option"

record VerificationMetadata =
  vm_total_segments :: u32
  vm_verified_segments :: u32
  vm_chain_tip :: string
  vm_genesis_hash :: string

record EngineReport =
  er_signature :: VerificationResult
  er_continuity :: VerificationResult
  er_metadata :: VerificationMetadata

record ReceiptClaims =
  rcl_verification_id :: string
  rcl_signer_pub :: string
  rcl_device_id :: string
  rcl_device_registered :: bool
  rcl_manifest_digest :: string
  rcl_chain_tip :: string
  rcl_timestamp :: string
  rcl_kid :: string
  rcl_result :: EngineReport

text \<open>serde on manifests as JSON values.\<close>

record man_value =
  mv_from :: "json \<Rightarrow> string + TrstManifest"
  mv_to :: "TrstManifest \<Rightarrow> string + json"

section \<open>The engine\<close>

definition SUPPORTED_TRST_VERSION :: string where "SUPPORTED_TRST_VERSION = ''0.2.0''"

definition to_ascii_lowercase :: "string \<Rightarrow> string" where
  "to_ascii_lowercase s =
     map (\<lambda>c. let n = (of_char c :: nat) in if 65 \<le> n \<and> n \<le> 90 then char_of (n + 32) else c) s"

text \<open>\<^verbatim>\<open>strip_prefix(p).unwrap_or(s)\<close>\<close>

definition without_prefix :: "string \<Rightarrow> string \<Rightarrow> string" where
  "without_prefix p s = (case strip_prefix p s of None \<Rightarrow> s | Some t \<Rightarrow> t)"

definition decode_b3_hex_32 :: "'x crates_scheme \<Rightarrow> string \<Rightarrow> bytes option" where
  "decode_b3_hex_32 X value =
     (case hex_decode X (without_prefix ''b3:'' value) of
        Inl _ \<Rightarrow> None
      | Inr b \<Rightarrow> if length b = 32 then Some b else None)"

definition format_b3 :: "'x crates_scheme \<Rightarrow> bytes \<Rightarrow> string" where
  "format_b3 X b = ''b3:'' @ hex_encode X b"

definition verify_signature :: "'x crates_scheme \<Rightarrow> TrstManifest \<Rightarrow> string \<Rightarrow> anyhow + VerificationResult" where
  "verify_signature X manifest device_pub =
     (if \<not> starts_with ''ed25519:'' device_pub \<and> \<not> starts_with ''ecdsa-p256:'' device_pub
      then Inl [''Device public key must have an algorithm prefix (ed25519: or ecdsa-p256:)'']
      else if public_key (device manifest) \<noteq> device_pub
      then Inr \<lparr> vx_passed = False,
        vx_error = Some (''verification key does not match the manifest'' @ [CHR 0x27] @ ''s device.public_key'') \<rparr>
      else
      res_bind (ok_or [''Missing signature in manifest''] (man_signature manifest)) (\<lambda>signature.
      Inr (case verify_manifest X device_pub (to_canonical_bytes X manifest) signature of
          Inr True \<Rightarrow> \<lparr> vx_passed = True, vx_error = None \<rparr>
        | Inr False \<Rightarrow> \<lparr> vx_passed = False, vx_error = Some ''Signature verification failed'' \<rparr>
        | Inl e \<Rightarrow> \<lparr> vx_passed = False, vx_error = Some (''Signature verification failed: '' @ crypto_error_text e) \<rparr>)))"

record ContinuityOutcome =
  co_result :: VerificationResult
  co_verified_segments :: u32
  co_chain_tip :: string

definition co_fail :: "'x crates_scheme \<Rightarrow> string \<Rightarrow> ContinuityOutcome" where
  "co_fail X msg =
     \<lparr> co_result = \<lparr> vx_passed = False, vx_error = Some msg \<rparr>, co_verified_segments = 0, co_chain_tip = format_b3 X (genesis X) \<rparr>"

fun reconstruct_chain :: "'x crates_scheme \<Rightarrow> nat \<Rightarrow> SegmentInfo list \<Rightarrow> string + ChainSegment list" where
  "reconstruct_chain X i [] = Inr []"
| "reconstruct_chain X i (seg # rest) =
     res_bind (ok_or (''segment['' @ show_nat i @ ''] blake3_hash is not 32-byte hex'') (decode_b3_hex_32 X (seg_blake3_hash seg))) (\<lambda>h.
     res_bind (ok_or (''segment['' @ show_nat i @ ''] continuity_hash is not 32-byte hex'') (decode_b3_hex_32 X (continuity_hash seg))) (\<lambda>c.
     res_bind (reconstruct_chain X (Suc i) rest) (\<lambda>cs.
     Inr (\<lparr> index = i, stored_hash = h, stored_continuity = c \<rparr> # cs))))"

fun bind_segments :: "nat \<Rightarrow> SegmentRef list \<Rightarrow> SegmentInfo list \<Rightarrow> string + unit" where
  "bind_segments i (cs # rest) (seg # segs) =
     (if unat (sr_index cs) \<noteq> i then Inl (''missing segment at index '' @ show_nat i)
      else if to_ascii_lowercase (without_prefix ''b3:'' (sr_hash cs)) \<noteq> to_ascii_lowercase (seg_blake3_hash seg)
      then Inl (''segment['' @ show_nat i @ ''] hash does not match the signed manifest'')
      else bind_segments (Suc i) rest segs)"
| "bind_segments i _ _ = Inr ()"

definition continuity_check :: "'x crates_scheme \<Rightarrow> TrstManifest \<Rightarrow> SegmentRef list \<Rightarrow> string + ChainSegment list" where
  "continuity_check X manifest client_segments =
     res_bind (reconstruct_chain X 0 (segments manifest)) (\<lambda>chain_segments.
     if length client_segments \<noteq> length (segments manifest)
     then Inl (''submitted '' @ show_nat (length client_segments) @ '' segments but signed manifest declares '' @
       show_nat (length (segments manifest)))
     else
     res_bind (bind_segments 0 (sort_key sr_index client_segments) (segments manifest)) (\<lambda>_.
     res_bind (map_err (\<lambda>e. ''continuity chain invalid: '' @ chain_error_text e) (validate_chain X chain_segments)) (\<lambda>_.
     Inr chain_segments)))"

definition verify_continuity :: "'x crates_scheme \<Rightarrow> TrstManifest \<Rightarrow> SegmentRef list \<Rightarrow> ContinuityOutcome" where
  "verify_continuity X manifest client_segments =
     (case continuity_check X manifest client_segments of
        Inl msg \<Rightarrow> co_fail X msg
      | Inr chain_segments \<Rightarrow>
          \<lparr> co_result = \<lparr> vx_passed = True, vx_error = None \<rparr>, co_verified_segments = word_of_nat (length chain_segments),
            co_chain_tip = format_b3 X (if chain_segments = [] then genesis X else stored_continuity (last chain_segments)) \<rparr>)"

definition verify_to_report :: "'x crates_scheme \<Rightarrow> man_value \<Rightarrow> json \<Rightarrow> SegmentRef list \<Rightarrow> string \<Rightarrow> anyhow + EngineReport" where
  "verify_to_report X MV manifest segs device_pub =
     res_bind (map_err (\<lambda>e. [''Manifest does not match the canonical .trst schema: '' @ e]) (mv_from MV manifest)) (\<lambda>parsed.
     if trst_version parsed \<noteq> SUPPORTED_TRST_VERSION
     then Inl [''unsupported archive version '' @ trst_version parsed @ '' (expected '' @ SUPPORTED_TRST_VERSION @ '')'']
     else
     res_bind (verify_signature X parsed device_pub) (\<lambda>signature_result.
     let continuity = verify_continuity X parsed segs in
     Inr \<lparr> er_signature = signature_result, er_continuity = co_result continuity,
       er_metadata = \<lparr> vm_total_segments = word_of_nat (length (segments parsed)), vm_verified_segments = co_verified_segments continuity,
         vm_chain_tip = co_chain_tip continuity, vm_genesis_hash = format_b3 X (genesis X) \<rparr> \<rparr>))"

text \<open>\<open>uuid\<close> is the fresh identifier in its simple form.\<close>

definition receipt_from_report ::
  "string \<Rightarrow> EngineReport \<Rightarrow> string \<Rightarrow> string \<Rightarrow> string \<Rightarrow> bool \<Rightarrow> string \<Rightarrow> string \<Rightarrow> string \<Rightarrow> ReceiptClaims" where
  "receipt_from_report uuid report manifest_digest signer_pub device_id device_registered kid now_rfc3339 tip =
     \<lparr> rcl_verification_id = ''v_'' @ uuid, rcl_signer_pub = signer_pub, rcl_device_id = device_id,
       rcl_device_registered = device_registered, rcl_manifest_digest = manifest_digest, rcl_chain_tip = tip,
       rcl_timestamp = now_rfc3339, rcl_kid = kid, rcl_result = report \<rparr>"

section \<open>Request validation\<close>

record ValidationError =
  ve_error :: string
  ve_detail :: string

definition ve_new :: "string \<Rightarrow> string \<Rightarrow> ValidationError" where
  "ve_new e d = \<lparr> ve_error = e, ve_detail = d \<rparr>"

definition is_lower_hex :: "char \<Rightarrow> bool" where
  "is_lower_hex c \<longleftrightarrow> (let n = (of_char c :: nat) in 48 \<le> n \<and> n \<le> 57 \<or> 97 \<le> n \<and> n \<le> 102)"

text \<open>The regular expression \<^verbatim>\<open>^b3:[0-9a-f]{64}$\<close>: in the regex crate the dollar sign matches at the very end only.\<close>

definition hash_regex :: "string \<Rightarrow> bool" where
  "hash_regex s \<longleftrightarrow> (case strip_prefix ''b3:'' s of None \<Rightarrow> False | Some h \<Rightarrow> length h = 64 \<and> list_all is_lower_hex h)"

fun check_hashes :: "nat \<Rightarrow> SegmentRef list \<Rightarrow> ValidationError + unit" where
  "check_hashes i [] = Inr ()"
| "check_hashes i (s # rest) =
     (if \<not> hash_regex (sr_hash s)
      then Inl (ve_new ''invalid_segments'' (''segments['' @ show_nat i @ ''].hash must match ^b3:[0-9a-f]{64}$, got '' @ squoted (sr_hash s)))
      else check_hashes (Suc i) rest)"

definition validate_segment_hashes :: "SegmentRef list \<Rightarrow> ValidationError + unit" where
  "validate_segment_hashes segs = check_hashes 0 segs"

definition validate_verify_request :: "VerifyRequest \<Rightarrow> ValidationError + unit" where
  "validate_verify_request request =
     (if vq_segments request = [] then Inl (ve_new ''invalid_segments'' ''segments array cannot be empty'')
      else validate_segment_hashes (vq_segments request))"

definition validate_verify_request_full :: "VerifyRequest \<Rightarrow> ValidationError + unit" where
  "validate_verify_request_full request =
     (if vq_segments request = [] then Inl (ve_new ''invalid_segments'' ''segments array cannot be empty'')
      else if vq_device_pub request = [] then Inl (ve_new ''invalid_device_pub'' ''device_pub cannot be empty'')
      else if vq_manifest request = JNull \<or> vq_manifest request = JObj [] \<or> as_str (vq_manifest request) = Some []
      then Inl (ve_new ''invalid_manifest'' ''manifest cannot be empty'')
      else validate_segment_hashes (vq_segments request))"

section \<open>Emitting requests\<close>

record EmitRequestCmd =
  eq_device_pub :: fs_path
  eq_out :: fs_path
  eq_post :: "string option"

text \<open>\<^verbatim>\<open>str::lines\<close>: lines end at a line feed, with a carriage return before it, and there is no empty last line.\<close>

definition drop_cr :: "string \<Rightarrow> string" where
  "drop_cr acc = (case acc of [] \<Rightarrow> [] | c # rest \<Rightarrow> if c = CHR 0x0D then rest else acc)"

fun str_lines_from :: "string \<Rightarrow> string \<Rightarrow> string list" where
  "str_lines_from acc [] = (if acc = [] then [] else [rev acc])"
| "str_lines_from acc (c # rest) =
     (if c = CHR 0x0A then rev (drop_cr acc) # str_lines_from [] rest else str_lines_from (c # acc) rest)"

definition str_lines :: "string \<Rightarrow> string list" where
  "str_lines s = str_lines_from [] s"

definition select_device_pub :: "string \<Rightarrow> string" where
  "select_device_pub content =
     (case find (starts_with ''ed25519:'') (map trim (str_lines content)) of Some l \<Rightarrow> l | None \<Rightarrow> trim content)"

fun emit_hash_loop :: "'x crates_scheme \<Rightarrow> string \<Rightarrow> nat \<Rightarrow> bytes \<Rightarrow> bytes list \<Rightarrow> cli_error + bytes" where
  "emit_hash_loop X name fill fed [] = Inr (blake3_hash X fed)"
| "emit_hash_loop X name fill fed (buf # rest) =
     (let fill = min (fill + length buf) (2 ^ 64 - 1) in
      if fill > MAX_STORED_CHUNK_BYTES then bail (''Chunk '' @ name @ '' exceeds the maximum stored size'')
      else emit_hash_loop X name fill (fed @ buf) rest)"

fun emit_segments :: "'x crates_scheme \<Rightarrow> archive_dir \<Rightarrow> nat \<Rightarrow> SegmentInfo list \<Rightarrow> cli_error + SegmentRef list" where
  "emit_segments X D i [] = Inr []"
| "emit_segments X D i (seg # rest) =
     (let name = chunk_filename i in
      if chunk_file seg \<noteq> name
      then bail (''Segment '' @ show_nat i @ '' references '' @ squoted (chunk_file seg) @ '', expected '' @ squoted name)
      else
      res_bind (ok_or (Anyhow [''Failed to read chunk: '' @ base_path D @ ''/chunks/'' @ name, ''No such file or directory (os error 2)''])
        (chunk_content D name)) (\<lambda>f.
      res_bind (emit_hash_loop X name 0 [] (chunks BUF_LEN f)) (\<lambda>h.
      res_bind (emit_segments X D (Suc i) rest) (\<lambda>rs.
      Inr (\<lparr> sr_index = word_of_nat i, sr_hash = ''b3:'' @ hex_encode X h \<rparr> # rs)))))"

definition emit_request ::
  "'x crates_scheme \<Rightarrow> man_json \<Rightarrow> man_value \<Rightarrow> EmitRequestCmd \<Rightarrow> archive_dir \<Rightarrow> fs \<Rightarrow> cli_error + VerifyRequest" where
  "emit_request X J MV C D F =
     res_bind (try_archive (''Failed to read archive: '' @ base_path D) (read_manifest J D)) (\<lambda>(manifest, _).
     res_bind (emit_segments X D 0 (segments manifest)) (\<lambda>segs.
     res_bind (map_err (\<lambda>e. Anyhow [''Failed to read device pub file: '' @ show_path (eq_device_pub C), e])
       (case F (eq_device_pub C) of
          None \<Rightarrow> Inl ''No such file or directory (os error 2)''
        | Some b \<Rightarrow> if utf8_valid b then Inr (bytes_str b) else Inl ''stream did not contain valid UTF-8'')) (\<lambda>content.
     res_bind (map_err (\<lambda>e. Anyhow [''Failed to serialize manifest to JSON value'', e]) (mv_to MV manifest)) (\<lambda>manifest_value.
     Inr \<lparr> vq_device_pub = select_device_pub content, vq_manifest = manifest_value, vq_segments = segs,
       vq_options = \<lparr> vo_return_receipt = True, vo_device_id = Some (dev_id (device manifest)) \<rparr> \<rparr>))))"

text \<open>\<open>vq_print\<close> is serde_json on requests, \<open>reason\<close> the table of HTTP reason phrases, \<open>reply\<close> the answer of the endpoint.\<close>

definition handle_emit_request ::
  "'x crates_scheme \<Rightarrow> man_json \<Rightarrow> man_value \<Rightarrow> (VerifyRequest \<Rightarrow> string + string) \<Rightarrow> (nat \<Rightarrow> string option) \<Rightarrow> EmitRequestCmd \<Rightarrow>
     (VerifyRequest \<Rightarrow> string + nat \<times> (string + string)) \<Rightarrow> archive_dir \<Rightarrow> fs \<Rightarrow> fs \<times> (cli_error + unit)" where
  "handle_emit_request X J MV vq_print reason C reply D F =
     (case res_bind (emit_request X J MV C D F) (\<lambda>request.
         res_bind (map_err (\<lambda>e. Anyhow [e]) (vq_print request)) (\<lambda>json_output. Inr (request, json_output))) of
        Inl e \<Rightarrow> (F, Inl e)
      | Inr (request, json_output) \<Rightarrow>
          (F(eq_out C := Some (str_bytes json_output)),
           case eq_post C of
             None \<Rightarrow> Inr ()
           | Some post_url \<Rightarrow>
               res_bind (map_err (\<lambda>e. Anyhow [''Failed to POST to '' @ post_url, e]) (reply request)) (\<lambda>(status, body).
               res_bind (map_err (\<lambda>e. Anyhow [e]) body) (\<lambda>_.
               if http_success status then Inr ()
               else Inl (CliExitError (int status) (''HTTP '' @ show_nat status @ '' '' @
                 (case reason status of Some r \<Rightarrow> r | None \<Rightarrow> [])))))))"

section \<open>Hypotheses on the parameters\<close>

text \<open>The hex crate prints lower case digits and reads nothing but hex digits.\<close>

definition hex_text :: "'x crates_scheme \<Rightarrow> bool" where
  "hex_text X \<longleftrightarrow> (\<forall>b. list_all is_lower_hex (hex_encode X b)) \<and>
     (\<forall>s b. hex_decode X s = Inr b \<longrightarrow> list_all is_ascii_hexdigit s)"

text \<open>A manifest survives its conversion to a JSON value and back.\<close>

definition man_value_ok :: "man_value \<Rightarrow> TrstManifest \<Rightarrow> bool" where
  "man_value_ok MV m \<longleftrightarrow> (\<forall>v. mv_to MV m = Inr v \<longrightarrow> mv_from MV v = Inr m)"

section \<open>Lemmas\<close>

lemma colon_not_hex [simp]: "\<not> is_ascii_hexdigit (CHR '':'')" "\<not> is_lower_hex (CHR '':'')"
  by (simp_all add: is_ascii_hexdigit_def is_lower_hex_def Let_def)

lemma without_prefix_hex [simp]:
  "list_all is_ascii_hexdigit s \<Longrightarrow> without_prefix ''b3:'' s = s"
  "list_all is_lower_hex s \<Longrightarrow> without_prefix ''b3:'' s = s"
  by (auto simp: without_prefix_def strip_prefix_Some_iff split: option.splits)

lemma without_prefix_append [simp]: "without_prefix p (p @ s) = s"
  by (simp add: without_prefix_def)

lemma without_prefix_absent: "\<not> starts_with p s \<Longrightarrow> without_prefix p s = s"
  by (auto simp: without_prefix_def strip_prefix_Some_iff starts_with_iff split: option.splits)

lemma lower_hex_lowercase [simp]: "list_all is_lower_hex s \<Longrightarrow> to_ascii_lowercase s = s"
  by (auto simp: to_ascii_lowercase_def list_all_iff is_lower_hex_def Let_def intro!: map_idI)

lemma hex_textD: "hex_text X \<Longrightarrow> list_all is_lower_hex (hex_encode X b)"
  "hex_text X \<Longrightarrow> hex_decode X s = Inr b \<Longrightarrow> list_all is_ascii_hexdigit s"
  by (simp_all add: hex_text_def)

lemma decode_b3_own:
  "hex_ok X \<Longrightarrow> hex_text X \<Longrightarrow> length b = 32 \<Longrightarrow> decode_b3_hex_32 X (hex_encode X b) = Some b"
  by (simp add: decode_b3_hex_32_def hex_textD hex_ok_simps)

lemma decode_b3_plain:
  "decode_b3_hex_32 X s = Some b \<Longrightarrow> \<not> starts_with ''b3:'' s \<Longrightarrow> hex_decode X s = Inr b \<and> length b = 32"
  by (auto simp: decode_b3_hex_32_def without_prefix_absent split: sum.splits if_splits)

lemma decode_b3_bare: "hex_text X \<Longrightarrow> hex_decode X s = Inr b \<Longrightarrow> length b = 32 \<Longrightarrow> decode_b3_hex_32 X s = Some b"
  by (simp add: decode_b3_hex_32_def hex_textD)

lemma emit_hash_loop_eq:
  "emit_hash_loop X name n fed ps =
     map_err (\<lambda>_. Anyhow [''Chunk '' @ name @ '' exceeds the maximum stored size'']) (hash_loop X name n fed ps)"
  by (induction ps arbitrary: n fed) (simp_all add: Let_def bail_def)

lemma emit_hash:
  "emit_hash_loop X name 0 [] (chunks BUF_LEN f) = Inr h \<longleftrightarrow> length f \<le> MAX_STORED_CHUNK_BYTES \<and> h = segment_hash X f"
  using hash_loop_spec [of 0 X name "[]" "chunks BUF_LEN f"]
  by (auto simp: emit_hash_loop_eq res_simps BUF_LEN_pos segment_hash_def)

definition emitted :: "'x crates_scheme \<Rightarrow> nat \<Rightarrow> bytes \<Rightarrow> SegmentRef" where
  "emitted X k f = \<lparr> sr_index = word_of_nat k, sr_hash = ''b3:'' @ hex_encode X (segment_hash X f) \<rparr>"

lemma emitted_simps [simp]: "sr_index (emitted X k f) = word_of_nat k"
  "without_prefix ''b3:'' (sr_hash (emitted X k f)) = hex_encode X (segment_hash X f)"
  using without_prefix_append [of "''b3:''"] by (simp_all add: emitted_def)

lemma emit_segments_Inr:
  "emit_segments X D i ss = Inr rs \<Longrightarrow> \<exists>fs. length fs = length ss \<and> length rs = length ss \<and>
     (\<forall>k < length ss. chunk_file (ss ! k) = chunk_filename (i + k) \<and> chunk_content D (chunk_filename (i + k)) = Some (fs ! k) \<and>
        length (fs ! k) \<le> MAX_STORED_CHUNK_BYTES \<and> rs ! k = emitted X (i + k) (fs ! k))"
proof (induction ss arbitrary: i rs)
  case (Cons s ss)
  from Cons.prems obtain f rs' where f: "chunk_file s = chunk_filename i" "chunk_content D (chunk_filename i) = Some f"
    "length f \<le> MAX_STORED_CHUNK_BYTES" "rs = emitted X i f # rs'" and r: "emit_segments X D (Suc i) ss = Inr rs'"
    by (auto simp: Let_def res_simps emit_hash bail_def emitted_def split: if_splits)
  from Cons.IH [OF r] obtain fs where "length fs = length ss \<and> length rs' = length ss \<and>
     (\<forall>k < length ss. chunk_file (ss ! k) = chunk_filename (Suc i + k) \<and> chunk_content D (chunk_filename (Suc i + k)) = Some (fs ! k) \<and>
        length (fs ! k) \<le> MAX_STORED_CHUNK_BYTES \<and> rs' ! k = emitted X (Suc i + k) (fs ! k))" by blast
  with f show ?case by (intro exI [of _ "f # fs"]) (simp add: All_less_Suc2)
qed simp

lemma reconstruct_chain_iff:
  "reconstruct_chain X i ss = Inr cs \<longleftrightarrow> length cs = length ss \<and>
     (\<forall>k < length ss. index (cs ! k) = i + k \<and> decode_b3_hex_32 X (seg_blake3_hash (ss ! k)) = Some (stored_hash (cs ! k)) \<and>
        decode_b3_hex_32 X (continuity_hash (ss ! k)) = Some (stored_continuity (cs ! k)))"
proof (induction ss arbitrary: i cs)
  case (Cons s ss)
  show ?case
  proof (cases cs)
    case (Cons c cs')
    then show ?thesis by (cases c) (auto simp: res_simps Cons.IH All_less_Suc2)
  qed (simp add: res_simps)
qed auto

lemma bind_segments_iff:
  "length rs = length ss \<Longrightarrow> bind_segments i rs ss = Inr () \<longleftrightarrow>
     (\<forall>k < length ss. unat (sr_index (rs ! k)) = i + k \<and>
        to_ascii_lowercase (without_prefix ''b3:'' (sr_hash (rs ! k))) = to_ascii_lowercase (seg_blake3_hash (ss ! k)))"
  by (induction rs ss arbitrary: i rule: list_induct2) (auto simp: All_less_Suc2)

lemma emitted_sorted:
  assumes "length rs \<le> 2 ^ 32" "\<forall>k < length rs. rs ! k = emitted X k (fs ! k)"
  shows "sort_key sr_index rs = rs"
proof -
  have "sr_index (rs ! j) \<le> sr_index (rs ! k)" if "j \<le> k" "k < length rs" for j k
    using that assms by (simp add: word_le_nat_alt unat_index)
  then have "sorted (map sr_index rs)" by (simp add: sorted_iff_nth_mono)
  then show ?thesis by (rule sort_key_id_if_sorted)
qed

text \<open>The hashes of a manifest are in the form the writer gives them: lower case, without a prefix.\<close>

definition canonical_hashes :: "TrstManifest \<Rightarrow> bool" where
  "canonical_hashes m \<longleftrightarrow> (\<forall>s \<in> set (segments m). to_ascii_lowercase (seg_blake3_hash s) = seg_blake3_hash s \<and>
     \<not> starts_with ''b3:'' (continuity_hash s))"

lemma hex_no_prefix: "list_all is_ascii_hexdigit s \<Longrightarrow> \<not> starts_with ''b3:'' s"
  by (auto simp: starts_with_iff)

text \<open>Emitted segment references \<open>rs\<close> over the chunk files \<open>fs\<close> that the directory holds.\<close>

definition emission :: "'x crates_scheme \<Rightarrow> archive_dir \<Rightarrow> TrstManifest \<Rightarrow> bytes list \<Rightarrow> SegmentRef list \<Rightarrow> bool" where
  "emission X D m fs rs \<longleftrightarrow> length fs = length (segments m) \<and> length rs = length (segments m) \<and>
     (\<forall>k < length (segments m). chunk_file (segments m ! k) = chunk_filename k \<and> chunk_content D (chunk_filename k) = Some (fs ! k) \<and>
        length (fs ! k) \<le> MAX_STORED_CHUNK_BYTES \<and> rs ! k = emitted X k (fs ! k))"

definition chain_intact :: "'x crates_scheme \<Rightarrow> archive_dir \<Rightarrow> TrstManifest \<Rightarrow> bytes list \<Rightarrow> bool" where
  "chain_intact X D m fs \<longleftrightarrow> length fs = length (segments m) \<and>
     (\<forall>k < length fs. chunk_intact X D k (segments m ! k) (fs ! k) (chain_values X (genesis X) (map (segment_hash X) fs) ! k))"

lemma chain_intact_unique: "chain_intact X D m gs \<Longrightarrow> emission X D m fs rs \<Longrightarrow> gs = fs"
  by (rule nth_equalityI) (auto simp: chain_intact_def emission_def chunk_intact_def)

lemma intact_continuity:
  assumes hyp: "hex_ok X" "hex_text X" "blake3_len X" and e: "emission X D m fs rs" and small: "length (segments m) \<le> 2 ^ 32"
    and i: "chain_intact X D m fs"
  shows "continuity_check X m rs = Inr (honest_segments X (map (segment_hash X) fs))" "canonical_hashes m"
proof -
  let ?cs = "honest_segments X (map (segment_hash X) fs)"
  have len: "length fs = length (segments m)" "length rs = length (segments m)" using e by (simp_all add: emission_def)
  have k: "seg_blake3_hash (segments m ! k) = hex_encode X (segment_hash X (fs ! k)) \<and>
      hex_decode X (continuity_hash (segments m ! k)) = Inr (stored_continuity (?cs ! k)) \<and> length (stored_continuity (?cs ! k)) = 32 \<and>
      stored_hash (?cs ! k) = segment_hash X (fs ! k) \<and> index (?cs ! k) = k \<and> rs ! k = emitted X k (fs ! k)"
    if "k < length (segments m)" for k
    using that i e len by (simp add: chain_intact_def chunk_intact_def emission_def honest_segments_def)
  have h: "length (segment_hash X f) = 32" for f using hyp(3) by (simp add: segment_hash_def blake3_len_def)
  have "reconstruct_chain X 0 (segments m) = Inr ?cs"
    unfolding reconstruct_chain_iff using k len decode_b3_own [OF hyp(1,2) h] decode_b3_bare [OF hyp(2)] by simp
  moreover have "bind_segments 0 rs (segments m) = Inr ()"
    unfolding bind_segments_iff [OF len(2)]
    using k small hex_textD(1) [OF hyp(2)] by (simp add: unat_index)
  moreover have "sort_key sr_index rs = rs" using emitted_sorted [of rs X fs] small k len by simp
  ultimately show "continuity_check X m rs = Inr ?cs"
    using len by (simp add: continuity_check_def honest_segments_ok)
  have "to_ascii_lowercase (seg_blake3_hash s) = seg_blake3_hash s \<and> \<not> starts_with ''b3:'' (continuity_hash s)"
    if s: "s = segments m ! k" "k < length (segments m)" for s k
    using k [OF s(2)] hex_textD(1) [OF hyp(2)] hex_no_prefix [OF hex_textD(2) [OF hyp(2)]] unfolding s(1) by simp
  then show "canonical_hashes m"
    unfolding canonical_hashes_def all_set_conv_all_nth by blast
qed

lemma continuity_intact:
  assumes hyp: "hex_ok X" "hex_text X" and e: "emission X D m fs rs" and small: "length (segments m) \<le> 2 ^ 32"
    and c: "continuity_check X m rs = Inr cs" "canonical_hashes m"
  shows "chain_intact X D m fs"
proof -
  have len: "length fs = length (segments m)" "length rs = length (segments m)" using e by (simp_all add: emission_def)
  have s: "sort_key sr_index rs = rs"
    using emitted_sorted [of rs X fs] small e by (simp add: emission_def)
  from c(1) have r: "reconstruct_chain X 0 (segments m) = Inr cs" "bind_segments 0 rs (segments m) = Inr ()" "validate_chain X cs = Inr ()"
    by (auto simp: continuity_check_def s len res_simps)
  have lc: "length cs = length (segments m)" using r(1) by (simp add: reconstruct_chain_iff)
  have hash: "seg_blake3_hash (segments m ! k) = hex_encode X (segment_hash X (fs ! k))" if "k < length (segments m)" for k
    using r(2) that e c(2) hex_textD(1) [OF hyp(2)]
    unfolding bind_segments_iff [OF len(2)] by (simp add: emission_def canonical_hashes_def)
  have "stored_hash (cs ! k) = segment_hash X (fs ! k)" if "k < length (segments m)" for k
    using r(1) that hash [OF that] hex_textD(1) [OF hyp(2)] hyp(1)
    by (auto simp: reconstruct_chain_iff decode_b3_hex_32_def hex_ok_simps split: if_splits)
  then have sh: "map stored_hash cs = map (segment_hash X) fs"
    using lc len by (intro nth_equalityI) auto
  then have "map stored_continuity cs = chain_values X (genesis X) (map (segment_hash X) fs)"
    using r(3) by (simp add: validate_chain_ok)
  then have sc: "stored_continuity (cs ! k) = chain_values X (genesis X) (map (segment_hash X) fs) ! k" if "k < length fs" for k
    using that lc len by (metis nth_map)
  have "hex_decode X (continuity_hash (segments m ! k)) = Inr (stored_continuity (cs ! k)) \<and> length (stored_continuity (cs ! k)) = 32"
    if "k < length fs" for k
    using r(1) that len c(2) by (intro decode_b3_plain) (simp_all add: reconstruct_chain_iff canonical_hashes_def)
  then show ?thesis
    using e hash sc len by (simp add: chain_intact_def chunk_intact_def emission_def)
qed

definition engine_passes :: "'x crates_scheme \<Rightarrow> man_value \<Rightarrow> VerifyRequest \<Rightarrow> EngineReport \<Rightarrow> bool" where
  "engine_passes X MV r rep \<longleftrightarrow> verify_to_report X MV (vq_manifest r) (vq_segments r) (vq_device_pub r) = Inr rep \<and>
     vx_passed (er_signature rep) \<and> vx_passed (er_continuity rep)"

text \<open>The signature checks the engine and \<^verbatim>\<open>seal verify\<close> have in common.\<close>

definition signed_by :: "'x crates_scheme \<Rightarrow> TrstManifest \<Rightarrow> string \<Rightarrow> bool" where
  "signed_by X m k \<longleftrightarrow> trst_version m = ''0.2.0'' \<and>
     (\<exists>sig. man_signature m = Some sig \<and> verify_manifest X k (to_canonical_bytes X m) sig = Inr True)"

lemma verify_accepts_iff:
  assumes "read_manifest J D = Inr (m, raw)"
  shows "exit_code (snd (handle_verify X J D k)) = 0 \<longleftrightarrow> signed_by X m (normalize_device_pub k) \<and> (\<exists>fs. archive_intact X D m fs)"
proof -
  have "validate_archive X J D = Inr () \<longleftrightarrow> (\<exists>fs. archive_intact X D m fs)"
    using assms by (simp add: validate_archive_iff)
  then show ?thesis
    using assms by (auto simp: handle_verify_def signed_by_def require_supported_version_def Let_def exit_code_def
      split: option.splits sum.splits bool.splits)
qed

lemma normalized_iff: "normalize_device_pub k = k \<longleftrightarrow> starts_with ''ed25519:'' k \<or> starts_with ''ecdsa-p256:'' k"
proof -
  have "''ed25519:'' @ k \<noteq> k" by (metis append_self_conv2 list.distinct(1))
  then show ?thesis by (simp add: normalize_device_pub_def)
qed

lemma signature_passes:
  "(\<exists>v. verify_signature X m k = Inr v \<and> vx_passed v) \<longleftrightarrow> normalize_device_pub k = k \<and> k = public_key (device m) \<and>
     (\<exists>sig. man_signature m = Some sig \<and> verify_manifest X k (to_canonical_bytes X m) sig = Inr True)"
proof (cases "(starts_with ''ed25519:'' k \<or> starts_with ''ecdsa-p256:'' k) \<and> public_key (device m) = k")
  case True
  then show ?thesis
    by (cases "man_signature m") (auto simp: verify_signature_def normalized_iff split: sum.splits bool.splits)
qed (auto simp: verify_signature_def normalized_iff)

lemma continuity_passes: "vx_passed (co_result (verify_continuity X m rs)) \<longleftrightarrow> (\<exists>cs. continuity_check X m rs = Inr cs)"
  by (cases "continuity_check X m rs") (simp_all add: verify_continuity_def co_fail_def)

lemma engine_passes_iff:
  assumes "mv_from MV (vq_manifest r) = Inr m"
  shows "(\<exists>rep. engine_passes X MV r rep) \<longleftrightarrow> normalize_device_pub (vq_device_pub r) = vq_device_pub r \<and>
    vq_device_pub r = public_key (device m) \<and> signed_by X m (vq_device_pub r) \<and> (\<exists>cs. continuity_check X m (vq_segments r) = Inr cs)"
    and "engine_passes X MV r rep \<Longrightarrow> continuity_check X m (vq_segments r) = Inr cs \<Longrightarrow>
      vm_chain_tip (er_metadata rep) = format_b3 X (if cs = [] then genesis X else stored_continuity (last cs))"
proof -
  have *: "engine_passes X MV r rep \<longleftrightarrow> trst_version m = ''0.2.0'' \<and>
      (\<exists>v. verify_signature X m (vq_device_pub r) = Inr v \<and> vx_passed v \<and> vx_passed (co_result (verify_continuity X m (vq_segments r))) \<and>
        rep = \<lparr> er_signature = v, er_continuity = co_result (verify_continuity X m (vq_segments r)),
          er_metadata = \<lparr> vm_total_segments = word_of_nat (length (segments m)),
            vm_verified_segments = co_verified_segments (verify_continuity X m (vq_segments r)),
            vm_chain_tip = co_chain_tip (verify_continuity X m (vq_segments r)), vm_genesis_hash = format_b3 X (genesis X) \<rparr> \<rparr>)" for rep
    unfolding engine_passes_def verify_to_report_def assms SUPPORTED_TRST_VERSION_def
    by (cases "verify_signature X m (vq_device_pub r)") (auto simp: Let_def)
  have "(\<exists>rep. engine_passes X MV r rep) \<longleftrightarrow> trst_version m = ''0.2.0'' \<and>
      (\<exists>v. verify_signature X m (vq_device_pub r) = Inr v \<and> vx_passed v) \<and> vx_passed (co_result (verify_continuity X m (vq_segments r)))"
    unfolding * by auto
  then show "(\<exists>rep. engine_passes X MV r rep) \<longleftrightarrow> normalize_device_pub (vq_device_pub r) = vq_device_pub r \<and>
    vq_device_pub r = public_key (device m) \<and> signed_by X m (vq_device_pub r) \<and> (\<exists>cs. continuity_check X m (vq_segments r) = Inr cs)"
    unfolding signature_passes continuity_passes signed_by_def by blast
  show "vm_chain_tip (er_metadata rep) = format_b3 X (if cs = [] then genesis X else stored_continuity (last cs))"
    if "engine_passes X MV r rep" "continuity_check X m (vq_segments r) = Inr cs"
    using that unfolding * by (auto simp: verify_continuity_def)
qed

lemma emit_request_Inr:
  assumes "emit_request X J MV C D F = Inr r" "read_manifest J D = Inr (m, raw)" "man_value_ok MV m"
  obtains fs where "emission X D m fs (vq_segments r)" "mv_from MV (vq_manifest r) = Inr m"
proof -
  from assms(1,2) have "emit_segments X D 0 (segments m) = Inr (vq_segments r)" "mv_to MV m = Inr (vq_manifest r)"
    by (auto simp: emit_request_def try_archive_def res_simps)
  then show thesis
    using that emit_segments_Inr [of X D 0 "segments m"] assms(3) by (auto simp: emission_def man_value_ok_def)
qed

lemma archive_intact_split: "archive_intact X D m fs \<longleftrightarrow> no_stray_chunks D m \<and> manifest_valid m \<and> chain_intact X D m fs"
  by (auto simp: archive_intact_def chain_intact_def)

lemma emission_hashes:
  assumes "hex_ok X" "hex_text X" "blake3_len X" "emission X D m fs rs"
  shows "validate_segment_hashes rs = Inr ()"
proof -
  have "check_hashes i rs = Inr ()" if "\<forall>r \<in> set rs. hash_regex (sr_hash r)" for i
    using that by (induction rs arbitrary: i) simp_all
  moreover have "hash_regex (sr_hash (emitted X k f))" for k f
    using assms(1-3) strip_prefix_append [of "''b3:''"]
    by (simp add: hash_regex_def emitted_def hex_ok_simps hex_textD segment_hash_def blake3_len_def)
  then have "\<forall>r \<in> set rs. hash_regex (sr_hash r)"
    using assms(4) by (auto simp: emission_def all_set_conv_all_nth)
  ultimately show ?thesis by (simp add: validate_segment_hashes_def)
qed

lemma emit_segments_runs:
  assumes "length fs = length ss" "\<forall>k < length ss. chunk_intact X D (i + k) (ss ! k) (fs ! k) (c k)"
  shows "\<exists>rs. emit_segments X D i ss = Inr rs"
  using assms
proof (induction fs ss arbitrary: i c rule: list_induct2)
  case (Cons f fs s ss)
  have "\<exists>rs. emit_segments X D (Suc i) ss = Inr rs"
    by (rule Cons.IH [of _ "\<lambda>k. c (Suc k)"]) (use Cons.prems in \<open>auto simp: All_less_Suc2\<close>)
  moreover have "chunk_intact X D i s f (c 0)" using Cons.prems by auto
  ultimately show ?case
    using emit_hash [of X "chunk_filename i" f "segment_hash X f"] by (auto simp: chunk_intact_def Let_def)
qed simp

text \<open>The public key file of \<^verbatim>\<open>seal keygen\<close> has the signing key in its first line.\<close>

lemma str_lines_first: "CHR 0x0A \<notin> set p \<Longrightarrow> str_lines_from acc (p @ CHR 0x0A # rest) = rev (drop_cr (rev p @ acc)) # str_lines_from [] rest"
  by (induction p arbitrary: acc) auto

lemma select_public_lines:
  assumes "b64_text X" "\<And>b c. c \<in> set (b64_encode X b) \<Longrightarrow> 46 \<le> (of_char c :: nat)" "bundle_signing b = keypair_of X sk"
  shows "select_device_pub (public_lines X b) = kp_public (keypair_of X sk)"
proof -
  let ?p = "kp_public (keypair_of X sk)"
  have c: "46 \<le> (of_char c :: nat) \<and> of_char c < (128 :: nat)" if "c \<in> set ?p" for c
    using that assms(1) assms(2) [of c] by (auto simp: keypair_of_def b64_text_def ascii_def list_all_iff)
  have ne: "?p \<noteq> []" by (simp add: keypair_of_def)
  have t: "trim ?p = ?p"
    by (rule trim_keeps) (use ne c [OF hd_in_set [OF ne]] c [OF last_in_set [OF ne]] in simp_all)
  have nl: "CHR 0x0A \<notin> set ?p" "CHR 0x0D \<notin> set ?p" using c by fastforce+
  then have "drop_cr (rev ?p) = rev ?p" by (auto simp: drop_cr_def split: list.splits)
  then have "str_lines (public_lines X b) = ?p # str_lines_from [] (public_string X (bundle_agreement b) @ [CHR 0x0A])"
    using str_lines_first [OF nl(1), of "[]"] by (simp add: str_lines_def public_lines_def assms(3))
  then show ?thesis by (simp add: select_device_pub_def t) (simp add: keypair_of_def starts_with_def)
qed

lemma engine_iff:
  assumes "hex_ok X" "hex_text X" "blake3_len X"
    and emit: "emit_request X J MV C D F = Inr r" and rd: "read_manifest J D = Inr (m, raw)" and mv: "man_value_ok MV m"
    and small: "length (segments m) \<le> 2 ^ 32"
  shows "(\<exists>rep. engine_passes X MV r rep) \<and> manifest_valid m \<and> canonical_hashes m \<and> no_stray_chunks D m \<longleftrightarrow>
       exit_code (snd (handle_verify X J D (vq_device_pub r))) = 0 \<and> vq_device_pub r = public_key (device m) \<and>
       normalize_device_pub (vq_device_pub r) = vq_device_pub r"
proof -
  from emit_request_Inr [OF emit rd mv] obtain fs where e: "emission X D m fs (vq_segments r)"
    and v: "mv_from MV (vq_manifest r) = Inr m" .
  have "(\<exists>gs. archive_intact X D m gs) \<longleftrightarrow> no_stray_chunks D m \<and> manifest_valid m \<and> chain_intact X D m fs"
    using chain_intact_unique [OF _ e] by (auto simp: archive_intact_split)
  then show ?thesis unfolding engine_passes_iff(1) [OF v] verify_accepts_iff [OF rd]
    using intact_continuity [OF assms(1-3) e small] continuity_intact [OF assms(1,2) e small] by auto
qed

section \<open>Properties\<close>

text \<open>
  C7: the platform's engine and \<^verbatim>\<open>seal verify\<close> agree on the requests that \<^verbatim>\<open>seal emit-request\<close> makes from an archive
  directory. The segment hashes of such a request pass the platform's format check. The engine passes the request, the
  manifest is valid with its hashes in the written form and the directory has no stray chunk, exactly when \<^verbatim>\<open>seal verify\<close>
  exits with 0 under the same key and this key is the manifest's device key with its algorithm prefix. The tip that the
  engine then reports is that of the chain over the chunk files.
\<close>

theorem engine_agrees_with_verify:
  assumes "hex_ok X" "hex_text X" "blake3_len X"
    and emit: "emit_request X J MV C D F = Inr r" and rd: "read_manifest J D = Inr (m, raw)" and mv: "man_value_ok MV m"
    and small: "length (segments m) \<le> 2 ^ 32"
  shows "validate_segment_hashes (vq_segments r) = Inr () \<and>
    ((\<exists>rep. engine_passes X MV r rep) \<and> manifest_valid m \<and> canonical_hashes m \<and> no_stray_chunks D m \<longleftrightarrow>
       exit_code (snd (handle_verify X J D (vq_device_pub r))) = 0 \<and> vq_device_pub r = public_key (device m) \<and>
       normalize_device_pub (vq_device_pub r) = vq_device_pub r) \<and>
    (\<forall>rep fs. engine_passes X MV r rep \<and> archive_intact X D m fs \<longrightarrow>
       vm_chain_tip (er_metadata rep) = format_b3 X (chain_tip X (map (segment_hash X) fs)))"
proof -
  from emit_request_Inr [OF emit rd mv] obtain fs where e: "emission X D m fs (vq_segments r)"
    and v: "mv_from MV (vq_manifest r) = Inr m" .
  have "vm_chain_tip (er_metadata rep) = format_b3 X (chain_tip X (map (segment_hash X) gs))"
    if p: "engine_passes X MV r rep" and i: "archive_intact X D m gs" for rep gs
  proof -
    have gs: "gs = fs" "chain_intact X D m fs" using i chain_intact_unique [OF _ e] by (auto simp: archive_intact_split)
    show ?thesis
      unfolding engine_passes_iff(2) [OF v p intact_continuity(1) [OF assms(1-3) e small gs(2)]] gs(1)
      using last_chain_values [of "map (segment_hash X) fs" X] last_conv_nth [of "chain_values X (genesis X) (map (segment_hash X) fs)"]
      by (cases fs) (simp_all add: honest_segments_def chain_tip_def last_map)
  qed
  then show ?thesis using emission_hashes [OF assms(1-3) e] engine_iff [OF assms] by blast
qed

section \<open>Witnesses\<close>

definition sample_man_value :: "TrstManifest \<Rightarrow> man_value" where
  "sample_man_value m = \<lparr> mv_from = (\<lambda>v. if v = JBool True then Inr m else Inl ''unsupported''),
     mv_to = (\<lambda>n. if n = m then Inr (JBool True) else Inl ''unsupported'') \<rparr>"

definition sample_emit :: EmitRequestCmd where
  "sample_emit = \<lparr> eq_device_pub = (''d'', Some ''device.pub''), eq_out = (''d'', Some ''req.json''), eq_post = None \<rparr>"

lemma hex_digit_lower: "d < 16 \<Longrightarrow> is_lower_hex (hex_digit d)"
  by (auto simp: is_lower_hex_def hex_digit_def Let_def of_char_of)

lemma sample_hex_lower: "list_all is_lower_hex (sample_hex b)"
proof (induction b)
  case (Cons w b)
  have "unat w div 16 < 16" by (simp add: less_mult_imp_div_less)
  then show ?case by (simp add: Cons hex_digit_lower)
qed simp

lemma sample_hex_chars: "c \<in> set (sample_hex b) \<Longrightarrow> 46 \<le> (of_char c :: nat)"
  using sample_hex_lower [of b] by (auto simp: list_all_iff is_lower_hex_def Let_def)

lemma sample_unhex_digits: "sample_unhex s = Inr b \<Longrightarrow> list_all is_ascii_hexdigit s"
  by (induction s arbitrary: b rule: sample_unhex.induct)
    (auto simp: hex_value_def is_ascii_hexdigit_def Let_def res_simps split: option.splits if_splits sum.splits)

lemma sample_hex_text: "hex_text sample_kw"
  by (simp add: hex_text_def sample_kw_base sample_kw_more) (auto simp: sample_crates_def sample_hex_lower dest: sample_unhex_digits)

abbreviation sample_request_json :: "man_json" where
  "sample_request_json \<equiv> sample_wrap_json ''generic'' None"

abbreviation sample_request_value :: "man_value" where
  "sample_request_value \<equiv> sample_man_value (sample_wrapped ''generic'' None)"

text \<open>An archive wrapped, the request made from it, and what the engine needs to know of both.\<close>

lemma sample_request:
  obtains D F q m raw where
    "handle_wrap sample_kw sample_request_json sample_state_json (sample_cmd ''generic'' None) sample_env (Inr sample_bundle) empty_dir (\<lambda>_. None) = Inr (D, F)"
    "emit_request sample_kw sample_request_json sample_request_value sample_emit D (\<lambda>_. Some (str_bytes (public_lines sample_kw sample_bundle))) = Inr q"
    "read_manifest sample_request_json D = Inr (m, raw)" "man_value_ok sample_request_value m" "length (segments m) \<le> 2 ^ 32"
    "exit_code (snd (handle_verify sample_kw sample_request_json D (vq_device_pub q))) = 0" "vq_device_pub q = public_key (device m)"
    "normalize_device_pub (vq_device_pub q) = vq_device_pub q" "vq_device_pub q = kp_public (keypair_of sample_kw (replicate 32 7))"
    "vq_manifest q = JBool True" "vq_segments q \<noteq> []" "vo_return_receipt (vq_options q)"
proof -
  let ?J = sample_request_json and ?MV = sample_request_value
  let ?F = "\<lambda>_. Some (str_bytes (public_lines sample_kw sample_bundle))"
  from sample_wrap_runs [of "''generic''" None] obtain D' F' where r: "handle_wrap sample_kw ?J sample_state_json (sample_cmd ''generic'' None)
    sample_env (Inr sample_bundle) empty_dir (\<lambda>_. None) = Inr (D', F')" by auto
  obtain ss lk m where
    w: "wrapped sample_kw ?J (sample_cmd ''generic'' None) sample_env sample_bundle (replicate 32 7) D' ss lk m" "length ss = length (chunks (wc_chunk_size (sample_cmd ''generic'' None)) (concat [[1, 2], [3 :: u8]]))"
    by (rule handle_wrap_wrapped [OF sample_wrap_setting sample_signing r]) (rule that)
  from w(1) obtain raw where rd: "read_manifest ?J D' = Inr (m, raw)" and dev: "public_key (device m) = kp_public (keypair_of sample_kw (replicate 32 7))"
    and len: "length (segments m) = length ss" and ai: "manifest_valid m \<longrightarrow> archive_intact sample_kw D' m ss"
    by (auto simp: wrapped_def Let_def)
  have m: "m = sample_wrapped ''generic'' None"
    using rd by (auto simp: read_manifest_def sample_wrap_json_def res_simps split: option.splits if_splits)
  then have valid: "manifest_valid m" using sample_wrapped_valid by (simp add: manifest_validate_ok_iff)
  have small: "length (segments m) \<le> 2 ^ 32" "length (segments m) \<noteq> 0" using w(2) len by (simp_all add: sample_cmd_def chunks.simps)
  have sel: "select_device_pub (public_lines sample_kw sample_bundle) = kp_public (keypair_of sample_kw (replicate 32 7))"
    using sample_hex_chars sample_wrap_setting_crates(4) sample_signing
    by (intro select_public_lines) (simp_all add: sample_kw_base)
  have "ascii (public_lines sample_kw sample_bundle)"
    using sample_wrap_setting_crates(4)
    by (simp add: public_lines_def public_string_def sample_signing keypair_of_def KEY_AGREEMENT_PREFIX_def b64_text_def ascii_def)
  then have "utf8_valid (str_bytes (public_lines sample_kw sample_bundle))" by (rule utf8_valid_str)
  moreover obtain rs where rs: "emit_segments sample_kw D' 0 (segments m) = Inr rs"
    using emit_segments_runs [of ss "segments m" sample_kw D' 0 "(!) (chain_values sample_kw (genesis sample_kw) (map (segment_hash sample_kw) ss))"]
      ai valid len by (auto simp: archive_intact_def)
  ultimately obtain q where q: "emit_request sample_kw ?J ?MV sample_emit D' ?F = Inr q"
      "vq_device_pub q = kp_public (keypair_of sample_kw (replicate 32 7))" "vq_manifest q = JBool True" "vq_segments q = rs" "vo_return_receipt (vq_options q)"
    using sel by (auto simp: emit_request_def rd try_archive_def sample_man_value_def m [symmetric])
  have "rs \<noteq> []" using rs small(2) by (cases "segments m") (auto simp: res_simps Let_def bail_def split: option.splits sum.splits if_splits)
  with that [OF r q(1) rd] q small(1) wrapped_verify [OF w(1) sample_wrap_setting valid] dev show thesis
    by (simp add: exit_code_def man_value_ok_def sample_man_value_def m)
qed

lemma sample_engine_request:
  obtains q rep where "engine_passes sample_kw sample_request_value q rep" "validate_verify_request_full q = Inr ()" "vo_return_receipt (vq_options q)"
proof (rule sample_request)
  fix D F q m raw
  note facts = sample_wrap_setting_crates(1) sample_hex_text sample_wrap_setting_crates(2)
  assume q: "emit_request sample_kw sample_request_json sample_request_value sample_emit D (\<lambda>_. Some (str_bytes (public_lines sample_kw sample_bundle))) = Inr q"
    "read_manifest sample_request_json D = Inr (m, raw)" "man_value_ok sample_request_value m" "length (segments m) \<le> 2 ^ 32"
    and v: "exit_code (snd (handle_verify sample_kw sample_request_json D (vq_device_pub q))) = 0" "vq_device_pub q = public_key (device m)"
    "normalize_device_pub (vq_device_pub q) = vq_device_pub q"
    and full: "vq_device_pub q = kp_public (keypair_of sample_kw (replicate 32 7))" "vq_manifest q = JBool True" "vq_segments q \<noteq> []"
    and opt: "vo_return_receipt (vq_options q)"
  obtain fs where "emission sample_kw D m fs (vq_segments q)" using emit_request_Inr [OF q(1-3)] by blast
  from emission_hashes [OF facts this] full have "validate_verify_request_full q = Inr ()"
    by (simp add: validate_verify_request_full_def keypair_of_def)
  moreover have "\<exists>rep. engine_passes sample_kw sample_request_value q rep" using engine_iff [OF facts q] v by simp
  ultimately show thesis using that opt by blast
qed

theorem engine_agrees_with_verify_witness:
  "\<exists>D' F' r rep. handle_wrap sample_kw sample_request_json sample_state_json (sample_cmd ''generic'' None) sample_env (Inr sample_bundle)
       empty_dir (\<lambda>_. None) = Inr (D', F') \<and>
     emit_request sample_kw sample_request_json sample_request_value sample_emit D' (\<lambda>_. Some (str_bytes (public_lines sample_kw sample_bundle))) = Inr r \<and>
     engine_passes sample_kw sample_request_value r rep"
proof (rule sample_request)
  fix D F q m raw
  note facts = sample_wrap_setting_crates(1) sample_hex_text sample_wrap_setting_crates(2)
  assume "handle_wrap sample_kw sample_request_json sample_state_json (sample_cmd ''generic'' None) sample_env (Inr sample_bundle) empty_dir (\<lambda>_. None) = Inr (D, F)"
    and q: "emit_request sample_kw sample_request_json sample_request_value sample_emit D (\<lambda>_. Some (str_bytes (public_lines sample_kw sample_bundle))) = Inr q"
    "read_manifest sample_request_json D = Inr (m, raw)" "man_value_ok sample_request_value m" "length (segments m) \<le> 2 ^ 32"
    and "exit_code (snd (handle_verify sample_kw sample_request_json D (vq_device_pub q))) = 0" "vq_device_pub q = public_key (device m)"
    "normalize_device_pub (vq_device_pub q) = vq_device_pub q"
  with engine_agrees_with_verify [OF facts q] show ?thesis by blast
qed

end
