(* ===== verification/Platform_Keys.thy ===== *)
theory Platform_Keys
  imports Verify_Engine Witness
begin

text \<open>
  The platform's signing key (\<^verbatim>\<open>crates/platform/src/verify/jwks.rs\<close>), the receipts signed with it (\<^verbatim>\<open>signing.rs\<close>) and
  the receipt of the stateless verify endpoint (\<^verbatim>\<open>validation.rs\<close>). Whether the build has debug assertions, the environment
  variables, random bytes, fresh identifiers and the clock are arguments; jsonwebtoken's \<^verbatim>\<open>encode\<close> and serde on the key file
  are parameters.
\<close>

section \<open>The key manager\<close>

record KeyManager =
  km_key_path :: fs_path
  km_passphrase :: "string option"
  km_current_key :: bytes
  km_current_kid :: string
  km_previous_key :: "bytes option"
  km_previous_kid :: "string option"

record StoredKey =
  st_kid :: string
  st_private_key :: string
  st_created_at :: string

record stored_json =
  stored_print :: "StoredKey \<Rightarrow> string + string"
  stored_parse :: "bytes \<Rightarrow> string + StoredKey"

definition resolve_key_path :: "bool \<Rightarrow> string option \<Rightarrow> fs_path \<Rightarrow> (string \<Rightarrow> fs_path) \<Rightarrow> anyhow + fs_path" where
  "resolve_key_path debug env temp path_of =
     (case env of
        Some (c # cs) \<Rightarrow> Inr (path_of (c # cs))
      | _ \<Rightarrow>
          if debug then Inr temp
          else Inl [''JWKS_KEY_PATH must be set in release builds '' @ em_dash @ '' refusing to place the platform '' @
            ''signing key (JWKS + witness/timestamp root) in a temp directory''])"

definition resolve_passphrase :: "bool \<Rightarrow> string option \<Rightarrow> anyhow + string option" where
  "resolve_passphrase debug env =
     (if env \<noteq> None \<and> env \<noteq> Some [] then Inr env
      else if debug then Inr None
      else Inl [''JWKS_KEY_PASSPHRASE must be set in release builds '' @ em_dash @ '' the platform signing '' @
        ''key (which signs witness/timestamp receipts, the revocation root) must be encrypted at rest''])"

text \<open>Arguments of a save: salt and nonce of the sealed file, the time, process id and sequence number of the temporary file.\<close>

record save_env =
  sv_salt :: bytes
  sv_nonce :: bytes
  sv_now :: string
  sv_pid :: nat
  sv_seq :: nat

definition save_to_file ::
  "'x crates_scheme \<Rightarrow> sealed_meta \<Rightarrow> stored_json \<Rightarrow> bool \<Rightarrow> save_env \<Rightarrow> KeyManager \<Rightarrow> fs \<Rightarrow> anyhow + fs" where
  "save_to_file X J T debug V km F =
     res_bind (map_err (\<lambda>e. [e]) (stored_print T \<lparr> st_kid = km_current_kid km, st_private_key = b64_encode X (km_current_key km),
       st_created_at = sv_now V \<rparr>)) (\<lambda>json.
     case km_passphrase km of
       Some pass \<Rightarrow>
         res_bind (map_err (\<lambda>e. [''failed to encrypt signing key: '' @ crypto_error_text e])
           (seal_secret X J (sv_salt V) (sv_nonce V) (str_bytes json) pass)) (\<lambda>blob.
         Inr (write_secure (sv_pid V) (sv_seq V) F (km_key_path km) blob))
     | None \<Rightarrow>
         if \<not> debug then Inl [''refusing to write an unencrypted signing key in a release build'']
         else Inr (write_secure (sv_pid V) (sv_seq V) F (km_key_path km) (str_bytes json)))"

definition key_to_jwk :: "web \<Rightarrow> bytes \<Rightarrow> string \<Rightarrow> json" where
  "key_to_jwk W verifying_key kid =
     JObj [(''alg'', JStr ''EdDSA''), (''crv'', JStr ''Ed25519''), (''kid'', JStr kid), (''kty'', JStr ''OKP''), (''use'', JStr ''sig''),
       (''x'', JStr (b64u_encode W verifying_key))]"

definition to_jwks :: "'x crates_scheme \<Rightarrow> web \<Rightarrow> KeyManager \<Rightarrow> json" where
  "to_jwks X W km =
     JObj [(''keys'', JArr (key_to_jwk W (ed_public X (km_current_key km)) (km_current_kid km) #
       (case (km_previous_key km, km_previous_kid km) of
          (Some prev_key, Some prev_kid) \<Rightarrow> [key_to_jwk W (ed_public X prev_key) prev_kid]
        | _ \<Rightarrow> [])))]"

definition jwks_path :: "KeyManager \<Rightarrow> fs_path" where
  "jwks_path km = (fst (km_key_path km), Some ''jwks.json'')"

text \<open>\<open>json_pretty\<close> is serde_json's indented form.\<close>

definition write_jwks_file :: "'x crates_scheme \<Rightarrow> web \<Rightarrow> (json \<Rightarrow> string) \<Rightarrow> KeyManager \<Rightarrow> fs \<Rightarrow> fs" where
  "write_jwks_file X W json_pretty km F = F(jwks_path km := Some (str_bytes (json_pretty (to_jwks X W km))))"

definition generate_new ::
  "'x crates_scheme \<Rightarrow> sealed_meta \<Rightarrow> stored_json \<Rightarrow> web \<Rightarrow> (json \<Rightarrow> string) \<Rightarrow> bool \<Rightarrow> save_env \<Rightarrow> bytes \<Rightarrow> string \<Rightarrow>
     fs_path \<Rightarrow> string option \<Rightarrow> fs \<Rightarrow> anyhow + KeyManager \<times> fs" where
  "generate_new X J T W json_pretty debug V random uuid key_path passphrase F =
     (let km = \<lparr> km_key_path = key_path, km_passphrase = passphrase, km_current_key = random, km_current_kid = ''key_'' @ uuid,
        km_previous_key = None, km_previous_kid = None \<rparr> in
      res_bind (save_to_file X J T debug V km F) (\<lambda>F'.
      Inr (km, write_jwks_file X W json_pretty km F')))"

definition load_from_file ::
  "'x crates_scheme \<Rightarrow> sealed_meta \<Rightarrow> stored_json \<Rightarrow> fs_path \<Rightarrow> string option \<Rightarrow> fs \<Rightarrow> anyhow + KeyManager" where
  "load_from_file X J T key_path passphrase F =
     res_bind (ok_or [''Failed to read signing key from '' @ show_path key_path, ''No such file or directory (os error 2)''] (F key_path)) (\<lambda>b.
     res_bind (if bytes_start_with (str_bytes SEALED_SECRET_HEADER_V1) b
       then res_bind (ok_or [''key file '' @ show_path key_path @ '' is encrypted but JWKS_KEY_PASSPHRASE is not set''] passphrase) (\<lambda>pass.
         res_bind (map_err (\<lambda>e. [''failed to decrypt signing key at '' @ show_path key_path @ '': '' @ crypto_error_text e])
           (open_secret X J b pass)) (\<lambda>plaintext.
         map_err (\<lambda>e. [''Failed to parse decrypted signing key from '' @ show_path key_path, e]) (stored_parse T plaintext)))
       else if passphrase \<noteq> None
       then Inl [''key file '' @ show_path key_path @ '' is unencrypted but a passphrase is configured; '' @
         ''remove it to regenerate an encrypted key'']
       else map_err (\<lambda>e. [''Failed to parse signing key JSON from '' @ show_path key_path, e]) (stored_parse T b)) (\<lambda>stored.
     res_bind (map_err (\<lambda>e. [e]) (b64_decode X (st_private_key stored))) (\<lambda>seed.
     if length seed \<noteq> 32 then Inl [''Invalid private key length'']
     else Inr \<lparr> km_key_path = key_path, km_passphrase = passphrase, km_current_key = seed, km_current_kid = st_kid stored,
       km_previous_key = None, km_previous_kid = None \<rparr>)))"

definition open_or_generate ::
  "'x crates_scheme \<Rightarrow> sealed_meta \<Rightarrow> stored_json \<Rightarrow> web \<Rightarrow> (json \<Rightarrow> string) \<Rightarrow> bool \<Rightarrow> save_env \<Rightarrow> bytes \<Rightarrow> string \<Rightarrow>
     fs_path \<Rightarrow> string option \<Rightarrow> fs \<Rightarrow> anyhow + KeyManager \<times> fs" where
  "open_or_generate X J T W json_pretty debug V random uuid key_path passphrase F =
     (if F key_path \<noteq> None then res_bind (load_from_file X J T key_path passphrase F) (\<lambda>km. Inr (km, F))
      else generate_new X J T W json_pretty debug V random uuid key_path passphrase F)"

definition km_new ::
  "'x crates_scheme \<Rightarrow> sealed_meta \<Rightarrow> stored_json \<Rightarrow> web \<Rightarrow> (json \<Rightarrow> string) \<Rightarrow> bool \<Rightarrow> save_env \<Rightarrow> bytes \<Rightarrow> string \<Rightarrow>
     string option \<Rightarrow> string option \<Rightarrow> fs_path \<Rightarrow> (string \<Rightarrow> fs_path) \<Rightarrow> fs \<Rightarrow> anyhow + KeyManager \<times> fs" where
  "km_new X J T W json_pretty debug V random uuid env_path env_pass temp path_of F =
     res_bind (resolve_key_path debug env_path temp path_of) (\<lambda>key_path.
     res_bind (resolve_passphrase debug env_pass) (\<lambda>passphrase.
     open_or_generate X J T W json_pretty debug V random uuid key_path passphrase F))"

text \<open>The manager has already switched to the new key when saving it fails.\<close>

definition rotate_key ::
  "'x crates_scheme \<Rightarrow> sealed_meta \<Rightarrow> stored_json \<Rightarrow> web \<Rightarrow> (json \<Rightarrow> string) \<Rightarrow> bool \<Rightarrow> save_env \<Rightarrow> bytes \<Rightarrow> string \<Rightarrow>
     KeyManager \<Rightarrow> fs \<Rightarrow> KeyManager \<times> (anyhow + fs)" where
  "rotate_key X J T W json_pretty debug V random uuid km F =
     (let km' = km\<lparr> km_previous_key := Some (km_current_key km), km_previous_kid := Some (km_current_kid km),
        km_current_key := random, km_current_kid := ''key_'' @ uuid \<rparr> in
      (km', res_bind (save_to_file X J T debug V km' F) (\<lambda>F'. Inr (write_jwks_file X W json_pretty km' F'))))"

section \<open>Receipts\<close>

definition ed25519_pkcs8_der :: "bytes \<Rightarrow> bytes" where
  "ed25519_pkcs8_der secret =
     [0x30, 0x2e, 0x02, 0x01, 0x00, 0x30, 0x05, 0x06, 0x03, 0x2b, 0x65, 0x70, 0x04, 0x22, 0x04, 0x20] @ secret"

text \<open>An i64 as a JSON number.\<close>

definition json_i64 :: "u64 \<Rightarrow> json" where
  "json_i64 w = (if sint w \<ge> 0 then JU64 w else JNeg (- w))"

definition json_opt :: "string \<Rightarrow> ('a \<Rightarrow> json) \<Rightarrow> 'a option \<Rightarrow> (string \<times> json) list" where
  "json_opt k f v = (case v of None \<Rightarrow> [] | Some x \<Rightarrow> [(k, f x)])"

text \<open>The JSON values of the payloads, with the fields of each object sorted by name.\<close>

definition receipt_json :: "WitnessReceipt \<Rightarrow> json" where
  "receipt_json r =
     JObj ([(''device_pub'', JStr (rc_device_pub r)), (''device_registered'', JBool (rc_device_registered r)), (''jti'', JStr (rc_jti r)),
         (''observed_at'', JStr (rc_observed_at r))] @
       json_opt ''prev_observed_at'' JStr (rc_prev_observed_at r) @ json_opt ''prev_sequence'' JU64 (rc_prev_sequence r) @
       json_opt ''prev_tip'' JStr (rc_prev_tip r) @ [(''sequence'', JU64 (rc_sequence r)), (''tip'', JStr (rc_tip r))])"

definition witness_payload :: "u64 \<Rightarrow> WitnessReceipt \<Rightarrow> json" where
  "witness_payload iat r =
     JObj [(''iat'', json_i64 iat), (''iss'', JStr ''sealedge-verify-service''), (''sub'', JStr (rc_device_pub r)), (''typ'', JStr ''witness''),
       (''witness'', receipt_json r)]"

text \<open>\<open>jwt kid payload der\<close> is jsonwebtoken's \<^verbatim>\<open>encode\<close> with an EdDSA header carrying \<open>kid\<close>.\<close>

definition sign_witness_jws :: "(string \<Rightarrow> json \<Rightarrow> bytes \<Rightarrow> string + string) \<Rightarrow> u64 \<Rightarrow> WitnessReceipt \<Rightarrow> KeyManager \<Rightarrow> anyhow + string" where
  "sign_witness_jws jwt now receipt km =
     map_err (\<lambda>e. [''Failed to encode witness JWT: '' @ e])
       (jwt (km_current_kid km) (witness_payload now receipt) (ed25519_pkcs8_der (km_current_key km)))"

definition result_json :: "VerificationResult \<Rightarrow> json" where
  "result_json r = JObj [(''error'', case vx_error r of None \<Rightarrow> JNull | Some e \<Rightarrow> JStr e), (''passed'', JBool (vx_passed r))]"

definition report_json :: "EngineReport \<Rightarrow> json" where
  "report_json r =
     JObj [(''continuity_verification'', result_json (er_continuity r)),
       (''metadata'', JObj [(''chain_tip'', JStr (vm_chain_tip (er_metadata r))), (''genesis_hash'', JStr (vm_genesis_hash (er_metadata r))),
          (''total_segments'', JU64 (ucast (vm_total_segments (er_metadata r)))),
          (''verified_segments'', JU64 (ucast (vm_verified_segments (er_metadata r))))]),
       (''signature_verification'', result_json (er_signature r))]"

definition receipt_claims_json :: "ReceiptClaims \<Rightarrow> json" where
  "receipt_claims_json r =
     JObj [(''chain_tip'', JStr (rcl_chain_tip r)), (''device_id'', JStr (rcl_device_id r)),
       (''device_registered'', JBool (rcl_device_registered r)), (''kid'', JStr (rcl_kid r)),
       (''manifest_digest'', JStr (rcl_manifest_digest r)), (''result'', report_json (rcl_result r)), (''signer_pub'', JStr (rcl_signer_pub r)),
       (''timestamp'', JStr (rcl_timestamp r)), (''verification_id'', JStr (rcl_verification_id r))]"

definition sign_receipt_jws ::
  "(string \<Rightarrow> json \<Rightarrow> bytes \<Rightarrow> string + string) \<Rightarrow> u64 \<Rightarrow> ReceiptClaims \<Rightarrow> KeyManager \<Rightarrow> u64 \<Rightarrow> anyhow + string" where
  "sign_receipt_jws jwt now receipt km ttl_secs =
     map_err (\<lambda>e. [''Failed to encode JWT: '' @ e])
       (jwt (km_current_kid km)
         (JObj [(''exp'', json_i64 (now + ttl_secs)), (''iat'', json_i64 now), (''iss'', JStr ''sealedge-verify-service''),
            (''receipt'', receipt_claims_json receipt), (''sub'', JStr (rcl_signer_pub receipt))])
         (ed25519_pkcs8_der (km_current_key km)))"

definition build_receipt_if_requested ::
  "(string \<Rightarrow> json \<Rightarrow> bytes \<Rightarrow> string + string) \<Rightarrow> string \<Rightarrow> string \<Rightarrow> u64 \<Rightarrow> VerifyRequest \<Rightarrow> EngineReport \<Rightarrow> KeyManager \<Rightarrow>
     (json \<Rightarrow> string) \<Rightarrow> u64 \<Rightarrow> ValidationError + string option" where
  "build_receipt_if_requested jwt uuid now_rfc3339 now request report km manifest_digest_fn ttl_secs =
     (if \<not> vo_return_receipt (vq_options request) \<or> \<not> vx_passed (er_signature report) \<or> \<not> vx_passed (er_continuity report)
      then Inr None
      else
        let device_id = (case vo_device_id (vq_options request) of Some d \<Rightarrow> d | None \<Rightarrow> ''unknown_device'');
            receipt_obj = receipt_from_report uuid report (manifest_digest_fn (vq_manifest request)) (vq_device_pub request) device_id False
              (km_current_kid km) now_rfc3339 (vm_chain_tip (er_metadata report))
        in case sign_receipt_jws jwt now receipt_obj km ttl_secs of
             Inr jws \<Rightarrow> Inr (Some jws)
           | Inl _ \<Rightarrow> Inl (ve_new ''receipt_signing_failed'' ''Receipt generation failed''))"

section \<open>Hypotheses on the parameters\<close>

text \<open>Unpadded base64url is read back and has only letters, digits, dash and underscore.\<close>

definition b64u_ok :: "web \<Rightarrow> bool" where
  "b64u_ok W \<longleftrightarrow> (\<forall>b. b64u_decode W (b64u_encode W b) = Inr b \<and>
     (\<forall>c \<in> set (b64u_encode W b). c \<noteq> CHR ''.'' \<and> 33 \<le> (of_char c :: nat) \<and> of_char c < (128 :: nat)))"

text \<open>
  RFC 7515 compact serialisation with EdDSA: the token is the base64url of a header that carries the key id, of the payload's JSON
  and of the Ed25519 signature over the first two parts.
\<close>

definition jwt_ok :: "'x crates_scheme \<Rightarrow> web \<Rightarrow> (string \<Rightarrow> json \<Rightarrow> bytes \<Rightarrow> string + string) \<Rightarrow> bool" where
  "jwt_ok X W jwt \<longleftrightarrow> (\<forall>kid v sk tok. length sk = 32 \<longrightarrow> jwt kid v (ed25519_pkcs8_der sk) = Inr tok \<longrightarrow>
     (\<exists>h hdr p. json_parse W h = Inr hdr \<and> get_str hdr ''kid'' = Some kid \<and> json_parse W p = Inr v \<and>
        (let input = b64u_encode W h @ ''.'' @ b64u_encode W p in
         tok = input @ ''.'' @ b64u_encode W (ed_sign X sk (str_bytes input)))))"

definition stored_json_ok :: "stored_json \<Rightarrow> bool" where
  "stored_json_ok T \<longleftrightarrow> (\<forall>s j. stored_print T s = Inr j \<longrightarrow> stored_parse T (str_bytes j) = Inr s \<and> (\<exists>t. j = CHR ''{'' # t))"

section \<open>Lemmas\<close>

lemma split_dots_append: "CHR ''.'' \<notin> set a \<Longrightarrow> split_dots (a @ CHR ''.'' # s) = a # split_dots s"
  by (induction a) auto

lemma split_dots_last: "CHR ''.'' \<notin> set a \<Longrightarrow> split_dots a = [a]"
  by (induction a) auto

lemma b64u_dots: "b64u_ok W \<Longrightarrow> CHR ''.'' \<notin> set (b64u_encode W b)"
  by (auto simp: b64u_ok_def)

lemma b64u_chars: "b64u_ok W \<Longrightarrow> x \<in> set (b64u_encode W b) \<Longrightarrow> 33 \<le> (of_char x :: nat) \<and> of_char x < (128 :: nat)"
  unfolding b64u_ok_def by blast

lemma b64u_decode: "b64u_ok W \<Longrightarrow> b64u_decode W (b64u_encode W b) = Inr b"
  by (simp add: b64u_ok_def)

lemma token_trim:
  assumes "b64u_ok W"
  shows "trim (b64u_encode W a @ CHR ''.'' # b64u_encode W b @ CHR ''.'' # b64u_encode W c) =
    b64u_encode W a @ CHR ''.'' # b64u_encode W b @ CHR ''.'' # b64u_encode W c"
proof -
  define t where "t = b64u_encode W a @ CHR ''.'' # b64u_encode W b @ CHR ''.'' # b64u_encode W c"
  have ne: "t \<noteq> []" by (simp add: t_def)
  have "33 \<le> (of_char x :: nat) \<and> of_char x < (128 :: nat)" if "x \<in> set t" for x
    using that b64u_chars [OF assms, of x] unfolding t_def by fastforce
  from this [OF hd_in_set [OF ne]] this [OF last_in_set [OF ne]] have "trim t = t"
    using ne by (intro trim_keeps) simp_all
  then show ?thesis by (simp add: t_def)
qed

text \<open>The key that the key set of a manager serves under an identifier.\<close>

definition jwks_key :: "KeyManager \<Rightarrow> string \<Rightarrow> bytes option" where
  "jwks_key km kid =
     (if km_current_kid km = kid then Some (km_current_key km)
      else if km_previous_kid km = Some kid then km_previous_key km else None)"

lemma jwks_find:
  "\<exists>ks. get_array (to_jwks X W km) ''keys'' = Some ks \<and>
     find (\<lambda>k. Some kid = None \<or> get_str k ''kid'' = Some kid) ks = map_option (\<lambda>sk. key_to_jwk W (ed_public X sk) kid) (jwks_key km kid)"
  by (auto simp: to_jwks_def get_array_def jwks_key_def key_to_jwk_def get_str_def split: option.splits)

lemma jwk_x: "get_str (key_to_jwk W b kid) ''x'' = Some (b64u_encode W b)"
  by (simp add: key_to_jwk_def get_str_def)

lemma payload_claims:
  "get_str (witness_payload now r) ''typ'' = Some ''witness''"
  "receipt_body (witness_payload now r) = Inr (rc_device_pub r, rc_sequence r, rc_tip r)"
  by (simp add: witness_payload_def get_str_def)
    (cases "rc_prev_observed_at r"; cases "rc_prev_sequence r"; cases "rc_prev_tip r";
      simp add: witness_payload_def receipt_json_def receipt_body_def get_str_def get_u64_def json_opt_def)

lemma receipt_verifies:
  assumes "ed_ok X" "b64_ok X" "b64u_ok W" "jwt_ok X W jwt" "length (km_current_key km) = 32"
    and sign: "sign_witness_jws jwt now r km = Inr tok" and jw: "json_parse W (str_bytes text) = Inr (to_jwks X W km')"
  shows "jwks_key km' (km_current_kid km) = Some (km_current_key km) \<Longrightarrow>
      verify_witness_receipt_jws X W tok text = Inr (rc_device_pub r, rc_sequence r, rc_tip r)"
    and "jwks_key km' (km_current_kid km) = None \<Longrightarrow>
      verify_witness_receipt_jws X W tok text = Inl [''no JWKS key matches the receipt'' @ [CHR 0x27] @ ''s kid'']"
proof -
  let ?sk = "km_current_key km" and ?kid = "km_current_kid km"
  from sign assms(4,5) obtain h hdr p where h: "json_parse W h = Inr hdr" "get_str hdr ''kid'' = Some ?kid"
    and p: "json_parse W p = Inr (witness_payload now r)"
    and tok: "tok = b64u_encode W h @ CHR ''.'' # b64u_encode W p @ CHR ''.'' #
      b64u_encode W (ed_sign X ?sk (str_bytes (b64u_encode W h @ ''.'' @ b64u_encode W p)))"
    unfolding jwt_ok_def sign_witness_jws_def res_simps Let_def by (metis append_Cons append_Nil append_assoc)
  define input where "input = b64u_encode W h @ ''.'' @ b64u_encode W p"
  have parts: "split_dots (trim tok) = [b64u_encode W h, b64u_encode W p, b64u_encode W (ed_sign X ?sk (str_bytes input))]"
    unfolding tok token_trim [OF assms(3)] input_def by (simp add: split_dots_append split_dots_last b64u_dots [OF assms(3)])
  obtain ks where ks: "get_array (to_jwks X W km') ''keys'' = Some ks"
    "find (\<lambda>k. Some ?kid = None \<or> get_str k ''kid'' = Some ?kid) ks = map_option (\<lambda>sk. key_to_jwk W (ed_public X sk) ?kid) (jwks_key km' ?kid)"
    using jwks_find by blast
  have v: "verify_manifest X (''ed25519:'' @ b64_encode X (ed_public X ?sk)) (str_bytes input)
      (''ed25519:'' @ b64_encode X (ed_sign X ?sk (str_bytes input))) = Inr True"
    using verify_own_signature [OF assms(1,2), of ?sk "str_bytes input"] by (simp add: keypair_of_def own_signature_def)
  have sb: "str_bytes (b64u_encode W h) @ str_bytes (CHR ''.'' # b64u_encode W p) = str_bytes input"
    unfolding input_def using str_bytes_append [of "b64u_encode W h"] by simp
  note run = verify_witness_receipt_jws_def parts b64u_decode [OF assms(3)] h jw ks Let_def
  show "verify_witness_receipt_jws X W tok text = Inr (rc_device_pub r, rc_sequence r, rc_tip r)" if "jwks_key km' ?kid = Some ?sk"
    unfolding run list.case using ks(2) v p by (simp add: run that jwk_x sb payload_claims)
  show "verify_witness_receipt_jws X W tok text = Inl [''no JWKS key matches the receipt'' @ [CHR 0x27] @ ''s kid'']" if "jwks_key km' ?kid = None"
    unfolding run list.case using ks(2) by (simp add: run that)
qed

definition forget_previous :: "KeyManager \<Rightarrow> KeyManager" where
  "forget_previous km = km\<lparr> km_previous_key := None, km_previous_kid := None \<rparr>"

lemma save_load:
  assumes "b64_ok X" "aead_ok (aes_seal X) (aes_open X)" "sealed_meta_ok J" "stored_json_ok T"
    and "length (sv_nonce V) = 12" "length (km_current_key km) = 32"
    and save: "save_to_file X J T debug V km F = Inr F'" and same: "G (km_key_path km) = F' (km_key_path km)"
  shows "load_from_file X J T (km_key_path km) (km_passphrase km) G = Inr (forget_previous km)"
proof -
  let ?st = "\<lparr> st_kid = km_current_kid km, st_private_key = b64_encode X (km_current_key km), st_created_at = sv_now V \<rparr>"
  have b: "b64_decode X (st_private_key ?st) = Inr (km_current_key km)" by (simp add: b64_ok_simp [OF assms(1)])
  from save obtain json where j: "stored_print T ?st = Inr json" by (auto simp: save_to_file_def res_simps)
  from j assms(4) have parse: "stored_parse T (str_bytes json) = Inr ?st" and brace: "\<exists>t. json = CHR ''{'' # t"
    unfolding stored_json_ok_def by blast+
  show ?thesis
  proof (cases "km_passphrase km")
    case None
    with save j have "G (km_key_path km) = Some (str_bytes json)"
      by (auto simp: save_to_file_def same write_secure_result split: if_splits)
    moreover have "\<not> bytes_start_with (str_bytes SEALED_SECRET_HEADER_V1) (str_bytes json)"
      using brace by (auto simp: bytes_start_with_def SEALED_SECRET_HEADER_V1_def str_bytes_def)
    ultimately show ?thesis using b assms(6) by (simp add: load_from_file_def None parse forget_previous_def)
  next
    case (Some pass)
    with save j obtain blob where blob: "seal_secret X J (sv_salt V) (sv_nonce V) (str_bytes json) pass = Inr blob"
      and "F' = write_secure (sv_pid V) (sv_seq V) F (km_key_path km) blob" by (auto simp: save_to_file_def res_simps)
    then have "G (km_key_path km) = Some blob" by (simp add: same write_secure_result)
    moreover have "bytes_start_with (str_bytes SEALED_SECRET_HEADER_V1) blob"
      using blob unfolding seal_secret_def seal_with_iff by (auto simp: bytes_start_with_def)
    ultimately show ?thesis
      using b assms(6) sealed_opens [OF assms(1-3,5) blob] by (simp add: load_from_file_def Some parse forget_previous_def)
  qed
qed

section \<open>Properties\<close>


text \<open>
  C29: what \<^verbatim>\<open>sign_witness_jws\<close> signs, the chronicle verifier accepts. Against the key set that the platform serves the
  receipt is read back with its device, sequence number and tip, both before and after one rotation of the platform key.
  A key set that the platform serves after that rotation and a restart no longer has the key: the same receipt is then refused.
\<close>

theorem witness_receipt_lifetime:
  assumes "ed_ok X" "b64_ok X" "b64u_ok W" "jwt_ok X W jwt" "length (km_current_key km) = 32"
    and "sign_witness_jws jwt now r km = Inr tok"
    and rot: "fst (rotate_key X J T W pretty debug V random uuid km F) = km'" and fresh: "''key_'' @ uuid \<noteq> km_current_kid km"
    and "json_parse W (str_bytes t0) = Inr (to_jwks X W km)" "json_parse W (str_bytes t1) = Inr (to_jwks X W km')"
      "json_parse W (str_bytes t2) = Inr (to_jwks X W (forget_previous km'))"
  shows "verify_witness_receipt_jws X W tok t0 = Inr (rc_device_pub r, rc_sequence r, rc_tip r) \<and>
    verify_witness_receipt_jws X W tok t1 = Inr (rc_device_pub r, rc_sequence r, rc_tip r) \<and>
    (\<exists>e. verify_witness_receipt_jws X W tok t2 = Inl e)"
proof -
  note rv = receipt_verifies [OF assms(1-6)]
  have km': "jwks_key km' (km_current_kid km) = Some (km_current_key km)" "jwks_key (forget_previous km') (km_current_kid km) = None"
    using rot fresh by (auto simp: rotate_key_def Let_def jwks_key_def forget_previous_def)
  have "jwks_key km (km_current_kid km) = Some (km_current_key km)" by (simp add: jwks_key_def)
  with rv(1) [OF assms(9)] rv(1) [OF assms(10) km'(1)] rv(2) [OF assms(11) km'(2)] show ?thesis by blast
qed

section \<open>Witnesses\<close>

definition sample_stored :: "StoredKey \<Rightarrow> stored_json" where
  "sample_stored s = \<lparr> stored_print = (\<lambda>t. if t = s then Inr ''{}'' else Inl ''unsupported''), stored_parse = (\<lambda>_. Inr s) \<rparr>"

definition sample_save :: save_env where
  "sample_save = \<lparr> sv_salt = [1], sv_nonce = replicate 12 3, sv_now = ''t0'', sv_pid = 1, sv_seq = 0 \<rparr>"

definition sample_stored_key :: StoredKey where
  "sample_stored_key = \<lparr> st_kid = ''key_a'', st_private_key = b64_encode sample_kw (replicate 32 7), st_created_at = ''t0'' \<rparr>"

lemma sample_stored_ok: "stored_json_ok (sample_stored s)"
  by (simp add: stored_json_ok_def sample_stored_def)


text \<open>A receipt, its payload and the three key sets, told apart by the bytes that stand for them.\<close>

definition sample_witness_receipt :: WitnessReceipt where
  "sample_witness_receipt = receipt_build (kp_public (keypair_of sample_crates (replicate 32 3))) False 5 ''b3:t'' ''t0'' None ''j''"

definition sample_manager :: KeyManager where
  "sample_manager = \<lparr> km_key_path = (''d'', Some ''k''), km_passphrase = None, km_current_key = replicate 32 7, km_current_kid = ''key_a'',
     km_previous_key = None, km_previous_kid = None \<rparr>"

definition sample_rotated :: KeyManager where
  "sample_rotated = sample_manager\<lparr> km_previous_key := Some (replicate 32 7), km_previous_kid := Some ''key_a'',
     km_current_key := replicate 32 9, km_current_kid := ''key_b'' \<rparr>"

definition sample_jws_web :: web where
  "sample_jws_web = sample_web\<lparr> json_parse := (\<lambda>b.
     if b = [1] then Inr (JObj [(''kid'', JStr ''key_a'')])
     else if b = [2] then Inr (witness_payload 7 sample_witness_receipt)
     else if b = str_bytes ''a'' then Inr (to_jwks sample_crates sample_web sample_manager)
     else if b = str_bytes ''b'' then Inr (to_jwks sample_crates sample_web sample_rotated)
     else Inr (to_jwks sample_crates sample_web (forget_previous sample_rotated))) \<rparr>"

definition sample_jwt :: "string \<Rightarrow> json \<Rightarrow> bytes \<Rightarrow> string + string" where
  "sample_jwt kid v der =
     (if kid = ''key_a'' \<and> v = witness_payload 7 sample_witness_receipt
      then Inr (sample_hex [1] @ ''.'' @ sample_hex [2] @ ''.'' @
        sample_hex (ed_sign sample_crates (drop 16 der) (str_bytes (sample_hex [1] @ ''.'' @ sample_hex [2]))))
      else Inl ''unsupported'')"

lemma sample_jws_web_simps:
  "b64u_encode sample_jws_web = sample_hex" "b64u_decode sample_jws_web = sample_unhex" "b64u_encode sample_web = sample_hex"
  by (simp_all add: sample_jws_web_def sample_web_def)

lemma sample_b64u_ok: "b64u_ok sample_jws_web"
proof -
  have "c \<noteq> CHR ''.'' \<and> 33 \<le> (of_char c :: nat) \<and> of_char c < (128 :: nat)" if "c \<in> set (sample_hex b)" for c b
    using that sample_hex_lower [of b] by (auto simp: list_all_iff is_lower_hex_def Let_def)
  then show ?thesis unfolding b64u_ok_def sample_jws_web_simps using sample_unhex_hex by blast
qed

lemma sample_jwt_ok: "jwt_ok sample_crates sample_jws_web sample_jwt"
  unfolding jwt_ok_def sample_jws_web_simps
proof (intro allI impI)
  fix kid v and sk :: bytes and tok
  assume "sample_jwt kid v (ed25519_pkcs8_der sk) = Inr tok"
  then have "kid = ''key_a''" "v = witness_payload 7 sample_witness_receipt"
    "tok = sample_hex [1] @ ''.'' @ sample_hex [2] @ ''.'' @ sample_hex (ed_sign sample_crates sk (str_bytes (sample_hex [1] @ ''.'' @ sample_hex [2])))"
    by (simp_all add: sample_jwt_def ed25519_pkcs8_der_def split: if_splits)
  then show "\<exists>h hdr p. json_parse sample_jws_web h = Inr hdr \<and> get_str hdr ''kid'' = Some kid \<and> json_parse sample_jws_web p = Inr v \<and>
      (let input = sample_hex h @ ''.'' @ sample_hex p in tok = input @ ''.'' @ sample_hex (ed_sign sample_crates sk (str_bytes input)))"
    by (intro exI [of _ "[1]"] exI [of _ "JObj [(''kid'', JStr ''key_a'')]"] exI [of _ "[2]"])
      (simp add: sample_jws_web_def get_str_def Let_def del: sample_hex.simps)
qed

lemma sample_jwks: "to_jwks sample_crates sample_web km = to_jwks sample_crates sample_jws_web km"
  by (simp add: to_jwks_def key_to_jwk_def sample_jws_web_simps split: option.splits)

lemma sample_key_sets:
  "json_parse sample_jws_web (str_bytes ''a'') = Inr (to_jwks sample_crates sample_jws_web sample_manager)"
  "json_parse sample_jws_web (str_bytes ''b'') = Inr (to_jwks sample_crates sample_jws_web sample_rotated)"
  "json_parse sample_jws_web (str_bytes ''c'') = Inr (to_jwks sample_crates sample_jws_web (forget_previous sample_rotated))"
  by (simp_all add: sample_jws_web_def str_bytes_def sample_jwks)

theorem witness_receipt_lifetime_witness:
  "\<exists>tok. sign_witness_jws sample_jwt 7 sample_witness_receipt sample_manager = Inr tok \<and>
     verify_witness_receipt_jws sample_crates sample_jws_web tok ''b'' = Inr (kp_public (keypair_of sample_crates (replicate 32 3)), 5, ''b3:t'') \<and>
     (\<exists>e. verify_witness_receipt_jws sample_crates sample_jws_web tok ''c'' = Inl e)"
proof -
  have "\<exists>tok. sign_witness_jws sample_jwt 7 sample_witness_receipt sample_manager = Inr tok"
    by (simp add: sign_witness_jws_def sample_jwt_def sample_manager_def)
  then obtain tok where tok: "sign_witness_jws sample_jwt 7 sample_witness_receipt sample_manager = Inr tok" by blast
  have r: "fst (rotate_key sample_crates sample_sealed_meta (sample_stored sample_stored_key) sample_jws_web (\<lambda>_. ''{}'') True sample_save (replicate 32 9)
    ''b'' sample_manager (\<lambda>_. None)) = sample_rotated"
    by (simp add: rotate_key_def Let_def sample_rotated_def sample_manager_def)
  have k: "''key_'' @ ''b'' \<noteq> km_current_kid sample_manager" "length (km_current_key sample_manager) = 32" by (simp_all add: sample_manager_def)
  have "rc_device_pub sample_witness_receipt = kp_public (keypair_of sample_crates (replicate 32 3))" "rc_sequence sample_witness_receipt = 5" "rc_tip sample_witness_receipt = ''b3:t''"
    by (simp_all add: sample_witness_receipt_def receipt_build_def)
  with witness_receipt_lifetime [OF sample_ed_ok sample_b64_ok sample_b64u_ok sample_jwt_ok k(2) tok r k(1) sample_key_sets] tok
  show ?thesis by auto
qed

end
