(* ===== verification/Point_Attestation.thy ===== *)
theory Point_Attestation
  imports Verify_Engine
begin

text \<open>
  Point attestations (\<^verbatim>\<open>crates/core/src/point_attestation.rs\<close>): a signed document that binds two files, and the commands
  \<^verbatim>\<open>seal attest-sbom\<close> and \<^verbatim>\<open>seal verify-attestation\<close>. The signed bytes are serde_json's compact form and are written
  out; printing and parsing of whole documents is a parameter. The nonce and the clock are arguments.
\<close>

section \<open>Documents\<close>

definition FORMAT_V1 :: string where "FORMAT_V1 = ''te-point-attestation-v1''"

datatype PointAttestationError =
    PaIo string
  | PaJson string
  | PaCrypto CryptoError
  | HashMismatch string string string
  | MissingSignature

fun pa_error_text :: "PointAttestationError \<Rightarrow> string" where
  "pa_error_text (PaIo e) = ''IO error: '' @ e"
| "pa_error_text (PaJson e) = ''JSON serialization error: '' @ e"
| "pa_error_text (PaCrypto e) = ''Cryptographic error: '' @ crypto_error_text e"
| "pa_error_text (HashMismatch artifact expected actual) =
     ''Hash mismatch for '' @ artifact @ '': expected '' @ expected @ '', actual '' @ actual"
| "pa_error_text MissingSignature = ''Attestation has no signature '' @ em_dash @ '' sign before verifying''"

record ArtifactRef =
  ar_hash :: string
  ar_filename :: string
  ar_label :: string

record PointAttestation =
  pa_format :: string
  pa_version :: string
  pa_timestamp :: string
  pa_nonce :: string
  pa_subject :: ArtifactRef
  pa_evidence :: ArtifactRef
  pa_public_key :: string
  pa_signature :: "string option"

record pa_json =
  pa_print :: "PointAttestation \<Rightarrow> string + string"
  pa_parse :: "string \<Rightarrow> string + PointAttestation"

definition artifact_text :: "'x crates_scheme \<Rightarrow> ArtifactRef \<Rightarrow> string" where
  "artifact_text X a =
     CHR ''{'' # jkey ''hash'' @ json_str X (ar_hash a) @ ckey ''filename'' @ json_str X (ar_filename a) @
     ckey ''label'' @ json_str X (ar_label a) @ ''}''"

definition pa_text :: "'x crates_scheme \<Rightarrow> PointAttestation \<Rightarrow> string" where
  "pa_text X a =
     CHR ''{'' # jkey ''format'' @ json_str X (pa_format a) @ ckey ''sealedge_version'' @ json_str X (pa_version a) @
     ckey ''timestamp'' @ json_str X (pa_timestamp a) @ ckey ''nonce'' @ json_str X (pa_nonce a) @
     ckey ''subject'' @ artifact_text X (pa_subject a) @ ckey ''evidence'' @ artifact_text X (pa_evidence a) @
     ckey ''public_key'' @ json_str X (pa_public_key a) @ ckey ''signature'' @ ''null}''"

definition pa_canonical_bytes :: "'x crates_scheme \<Rightarrow> PointAttestation \<Rightarrow> bytes" where
  "pa_canonical_bytes X a = str_bytes (pa_text X a)"

fun hash_pieces :: "'x crates_scheme \<Rightarrow> bytes \<Rightarrow> bytes list \<Rightarrow> bytes" where
  "hash_pieces X fed [] = blake3_hash X fed"
| "hash_pieces X fed (buf # rest) = hash_pieces X (fed @ buf) rest"

definition hash_file :: "'x crates_scheme \<Rightarrow> fs \<Rightarrow> fs_path \<Rightarrow> PointAttestationError + string" where
  "hash_file X F path =
     res_bind (ok_or (PaIo ''No such file or directory (os error 2)'') (F path)) (\<lambda>f.
     Inr (''b3:'' @ hex_encode X (hash_pieces X [] (chunks BUF_LEN f))))"

text \<open>\<^verbatim>\<open>file_name().map(to_string_lossy).unwrap_or_default()\<close>\<close>

definition file_name_of :: "fs_path \<Rightarrow> string" where
  "file_name_of p = (case snd p of None \<Rightarrow> [] | Some n \<Rightarrow> bytes_str (from_utf8_lossy (str_bytes n)))"

definition pa_create ::
  "'x crates_scheme \<Rightarrow> string \<Rightarrow> bytes \<Rightarrow> string \<Rightarrow> fs \<Rightarrow> fs_path \<Rightarrow> string \<Rightarrow> fs_path \<Rightarrow> string \<Rightarrow> DeviceKeypair \<Rightarrow>
     PointAttestationError + PointAttestation" where
  "pa_create X vers nonce_bytes timestamp F subject_path subject_label evidence_path evidence_label keypair =
     res_bind (hash_file X F subject_path) (\<lambda>subject_hash.
     res_bind (hash_file X F evidence_path) (\<lambda>evidence_hash.
     let a = \<lparr> pa_format = FORMAT_V1, pa_version = vers, pa_timestamp = timestamp, pa_nonce = hex_encode X nonce_bytes,
       pa_subject = \<lparr> ar_hash = subject_hash, ar_filename = file_name_of subject_path, ar_label = subject_label \<rparr>,
       pa_evidence = \<lparr> ar_hash = evidence_hash, ar_filename = file_name_of evidence_path, ar_label = evidence_label \<rparr>,
       pa_public_key = kp_public keypair, pa_signature = None \<rparr> in
     res_bind (map_err PaCrypto (sign_manifest X keypair (pa_canonical_bytes X a))) (\<lambda>sig.
     Inr (a\<lparr> pa_signature := Some sig \<rparr>))))"

definition pa_verify_signature :: "'x crates_scheme \<Rightarrow> PointAttestation \<Rightarrow> string \<Rightarrow> PointAttestationError + bool" where
  "pa_verify_signature X a device_public =
     res_bind (ok_or MissingSignature (pa_signature a)) (\<lambda>sig.
     map_err PaCrypto (verify_manifest X device_public (pa_canonical_bytes X a) sig))"

definition check_artifact :: "'x crates_scheme \<Rightarrow> fs \<Rightarrow> ArtifactRef \<Rightarrow> fs_path option \<Rightarrow> PointAttestationError + unit" where
  "check_artifact X F a path =
     (case path of
        None \<Rightarrow> Inr ()
      | Some p \<Rightarrow>
          res_bind (hash_file X F p) (\<lambda>actual.
          if actual \<noteq> ar_hash a then Inl (HashMismatch (ar_filename a) (ar_hash a) actual) else Inr ()))"

definition verify_file_hashes ::
  "'x crates_scheme \<Rightarrow> fs \<Rightarrow> PointAttestation \<Rightarrow> fs_path option \<Rightarrow> fs_path option \<Rightarrow> PointAttestationError + unit" where
  "verify_file_hashes X F a subject_path evidence_path =
     res_bind (check_artifact X F (pa_subject a) subject_path) (\<lambda>_. check_artifact X F (pa_evidence a) evidence_path)"

section \<open>The commands\<close>

record AttestSbomCmd =
  as_binary :: fs_path
  as_sbom :: fs_path
  as_out :: "fs_path option"

definition MAX_BINARY_SIZE :: nat where "MAX_BINARY_SIZE = 256 * 1024 * 1024"

definition read_to_string :: "fs \<Rightarrow> fs_path \<Rightarrow> string \<Rightarrow> cli_error + string" where
  "read_to_string F p ctx =
     (case F p of
        None \<Rightarrow> Inl (Anyhow [ctx, ''No such file or directory (os error 2)''])
      | Some b \<Rightarrow> if utf8_valid b then Inr (bytes_str b) else Inl (Anyhow [ctx, ''stream did not contain valid UTF-8'']))"

text \<open>\<open>loaded\<close> is the result of loading the signing key.\<close>

definition handle_attest_sbom ::
  "'x crates_scheme \<Rightarrow> pa_json \<Rightarrow> web \<Rightarrow> AttestSbomCmd \<Rightarrow> cli_error + DeviceKeypair \<Rightarrow> string \<Rightarrow> bytes \<Rightarrow> string \<Rightarrow> fs \<Rightarrow> cli_error + fs" where
  "handle_attest_sbom X P W C loaded vers nonce_bytes timestamp F =
     res_bind (ok_or (Anyhow [''Failed to read binary file: '' @ show_path (as_binary C), ''No such file or directory (os error 2)''])
       (F (as_binary C))) (\<lambda>binary.
     if length binary = 0 then Inl (CliExitError 1 ''Error: binary file is empty (0 bytes)'')
     else if length binary > MAX_BINARY_SIZE
     then Inl (CliExitError 1 (''Error: binary file exceeds 256 MB limit ('' @ show_nat (length binary) @ '' bytes)''))
     else
     res_bind (read_to_string F (as_sbom C) (''Failed to read SBOM file: '' @ show_path (as_sbom C))) (\<lambda>sbom_content.
     if \<not> is_ok (json_parse W (str_bytes sbom_content)) then Inl (CliExitError 1 ''Error: SBOM file is not valid JSON'')
     else
     res_bind loaded (\<lambda>device_keypair.
     res_bind (map_err (\<lambda>e. Anyhow [''Failed to create attestation'', pa_error_text e])
       (pa_create X vers nonce_bytes timestamp F (as_binary C) ''binary'' (as_sbom C) ''sbom'' device_keypair)) (\<lambda>a.
     res_bind (map_err (\<lambda>e. Anyhow [''Failed to serialize attestation'', pa_error_text (PaJson e)]) (pa_print P a)) (\<lambda>json.
     let out_path = (case as_out C of Some p \<Rightarrow> p | None \<Rightarrow> ([], Some ''attestation.se-attestation.json'')) in
     Inr (F(out_path := Some (str_bytes json))))))))"

record VerifyAttestationCmd =
  va_attestation :: fs_path
  va_device_pub :: string
  va_binary :: "fs_path option"
  va_sbom :: "fs_path option"

text \<open>\<open>path_of\<close> reads a command line string as a path.\<close>

definition handle_verify_attestation ::
  "'x crates_scheme \<Rightarrow> pa_json \<Rightarrow> (string \<Rightarrow> fs_path) \<Rightarrow> VerifyAttestationCmd \<Rightarrow> fs \<Rightarrow> cli_error + unit" where
  "handle_verify_attestation X P path_of C F =
     res_bind (read_to_string F (va_attestation C) (''Failed to read attestation: '' @ show_path (va_attestation C))) (\<lambda>attestation_json.
     res_bind (map_err (\<lambda>e. Anyhow [''Failed to parse attestation JSON'', pa_error_text (PaJson e)]) (pa_parse P attestation_json)) (\<lambda>a.
     res_bind (if starts_with ''ed25519:'' (va_device_pub C) then Inr (va_device_pub C)
       else res_bind (read_to_string F (path_of (va_device_pub C)) (''Failed to read public key file: '' @ va_device_pub C)) (\<lambda>content.
         Inr (select_device_pub content))) (\<lambda>device_pub.
     res_bind (map_err (\<lambda>e. Anyhow [''Failed to verify signature'', pa_error_text e]) (pa_verify_signature X a device_pub)) (\<lambda>sig_valid.
     res_bind (if va_binary C \<noteq> None \<or> va_sbom C \<noteq> None
       then map_err (\<lambda>e. CliExitError 10 (''Hash mismatch: '' @ pa_error_text e)) (verify_file_hashes X F a (va_binary C) (va_sbom C))
       else Inr ()) (\<lambda>_.
     if sig_valid then Inr () else Inl (CliExitError 10 ''Signature verification failed''))))))"

section \<open>Lemmas\<close>

text \<open>serde reads back what it prints, and its text is UTF-8.\<close>

definition pa_json_ok :: "pa_json \<Rightarrow> bool" where
  "pa_json_ok P \<longleftrightarrow> (\<forall>a j. pa_print P a = Inr j \<longrightarrow> pa_parse P j = Inr a \<and> utf8_valid (str_bytes j))"

lemma hash_pieces_eq: "hash_pieces X fed ps = blake3_hash X (fed @ concat ps)"
  by (induction ps arbitrary: fed) simp_all

lemma hash_file_eq: "hash_file X F p = res_bind (ok_or (PaIo ''No such file or directory (os error 2)'') (F p)) (\<lambda>f. Inr (''b3:'' @ hex_encode X (blake3_hash X f)))"
  by (simp add: hash_file_def hash_pieces_eq BUF_LEN_pos)

lemma artifact_text_split:
  "json_ok X \<Longrightarrow> artifact_text X a @ r = artifact_text X b @ s \<longleftrightarrow> a = b \<and> r = s"
  by (cases a; cases b) (auto simp: artifact_text_def canon json_str_split)

lemma pa_text_inj:
  "json_ok X \<Longrightarrow> pa_text X a = pa_text X b \<longleftrightarrow> a\<lparr> pa_signature := None \<rparr> = b\<lparr> pa_signature := None \<rparr>"
  by (cases a; cases b) (auto simp: pa_text_def canon json_str_split artifact_text_split json_str_inj)

lemma pa_text_unsigned [simp]: "pa_canonical_bytes X (a\<lparr> pa_signature := s \<rparr>) = pa_canonical_bytes X a"
  by (simp add: pa_canonical_bytes_def pa_text_def)

lemma pa_text_separate:
  assumes "json_ok X"
  shows "pa_text X a \<noteq> wr_text X w" "pa_text X a \<noteq> rot_text X r" "pa_text X a \<noteq> serialize_canonical X m"
  using assms by (simp_all add: pa_text_def rot_text_def wr_text_def serialize_canonical_def canon) (simp_all add: jkey_def ckey_def)

lemma pa_created:
  assumes "pa_create X vers n t F p l q k (keypair_of X sk) = Inr a" "ed_ok X" "b64_ok X"
  obtains f g where "F p = Some f" "F q = Some g" "ar_hash (pa_subject a) = ''b3:'' @ hex_encode X (blake3_hash X f)"
    "ar_hash (pa_evidence a) = ''b3:'' @ hex_encode X (blake3_hash X g)"
    "pa_verify_signature X a (kp_public (keypair_of X sk)) = Inr True"
  using assms(1) verify_own_signature [OF assms(2,3)]
  by (auto simp: pa_create_def hash_file_eq Let_def res_simps pa_verify_signature_def pa_canonical_bytes_def pa_text_def)

lemma check_artifact_iff:
  assumes "hex_ok X" "ar_hash a = ''b3:'' @ hex_encode X (blake3_hash X f)"
  shows "check_artifact X F a p = Inr () \<longleftrightarrow> (\<forall>q. p = Some q \<longrightarrow> (\<exists>g. F q = Some g \<and> blake3_hash X g = blake3_hash X f))"
  using hex_ok_inj [OF assms(1)] by (auto simp: check_artifact_def hash_file_eq assms(2) res_simps split: option.splits)

section \<open>Properties\<close>


section \<open>Witnesses\<close>

definition sample_attest :: AttestSbomCmd where
  "sample_attest = \<lparr> as_binary = (''d'', Some ''app''), as_sbom = (''d'', Some ''sbom''), as_out = Some (''d'', Some ''out'') \<rparr>"

definition sample_attest_fs :: fs where
  "sample_attest_fs p = (if p = (''d'', Some ''app'') then Some [1] else if p = (''d'', Some ''sbom'') then Some [0x7B, 0x7D] else None)"

definition sample_verify_attest :: VerifyAttestationCmd where
  "sample_verify_attest = \<lparr> va_attestation = (''d'', Some ''out''), va_device_pub = kp_public (keypair_of sample_crates sample_sk),
     va_binary = Some (''d'', Some ''app''), va_sbom = None \<rparr>"

definition sample_attestation :: PointAttestation where
  "sample_attestation = (case pa_create sample_crates ''1'' [7] ''t'' sample_attest_fs (''d'', Some ''app'') ''binary'' (''d'', Some ''sbom'') ''sbom''
     (keypair_of sample_crates sample_sk) of Inr a \<Rightarrow> a)"

definition sample_pa_json :: pa_json where
  "sample_pa_json = \<lparr> pa_print = (\<lambda>a. if a = sample_attestation then Inr ''{}'' else Inl ''unsupported''), pa_parse = (\<lambda>_. Inr sample_attestation) \<rparr>"

lemma sample_created: "pa_create sample_crates ''1'' [7] ''t'' sample_attest_fs (''d'', Some ''app'') ''binary'' (''d'', Some ''sbom'') ''sbom''
    (keypair_of sample_crates sample_sk) = Inr sample_attestation"
proof -
  have "\<exists>a. pa_create sample_crates ''1'' [7] ''t'' sample_attest_fs (''d'', Some ''app'') ''binary'' (''d'', Some ''sbom'') ''sbom''
      (keypair_of sample_crates sample_sk) = Inr a"
    by (simp add: pa_create_def hash_file_eq sample_attest_fs_def Let_def)
  then show ?thesis by (auto simp: sample_attestation_def)
qed

lemma sample_pa_json_ok: "pa_json_ok sample_pa_json"
  by (simp add: pa_json_ok_def sample_pa_json_def utf8_valid_str ascii_def)


end
