(* ===== verification/Platform_Db.thy ===== *)
theory Platform_Db
  imports Witness Json_Value "HOL-Library.Sublist"
begin

text \<open>
  The platform's database: the tables of \<^verbatim>\<open>crates/platform/migrations\<close>, one function per query of
  \<^verbatim>\<open>crates/platform/src/database/queries.rs\<close>, and request handlers as programs of atomic queries.

  A table is the list of its rows in insertion order. Inserts check the primary key, the unique indexes and the foreign keys
  and fail with the name of the violated constraint; a lost connection is not modelled. Identifiers drawn by the database
  are arguments. Columns that no query reads (creation times) are left out. A BIGINT column holds the 64 bits of the
  unsigned number cast to it and is ordered as a signed number.
\<close>

type_synonym uuid = string

definition nil_uuid :: uuid where "nil_uuid = ''00000000-0000-0000-0000-000000000000''"

record org_row =
  og_id :: uuid
  og_name :: string
  og_plan :: string

record api_key_row =
  ak_id :: uuid
  ak_org :: uuid
  ak_hash :: string

record device_row =
  dv_id :: uuid
  dv_org :: uuid
  dv_device_id :: string
  dv_pub :: string
  dv_label :: "string option"
  dv_status :: string
  dv_revoked_at :: "string option"
  dv_min_epoch :: "u32 option"

record verification_row =
  vf_id :: uuid
  vf_org :: uuid
  vf_device :: "uuid option"
  vf_digest :: string
  vf_result :: json

record receipt_row =
  rp_id :: uuid
  rp_verification :: uuid
  rp_jws :: string
  rp_kid :: string

record witness_row =
  wl_pub :: string
  wl_seq :: u64
  wl_tip :: string
  wl_observed_at :: string
  wl_registered :: bool
  wl_signed_at :: string

record lineage_row =
  ln_new :: string
  ln_old :: string
  ln_seq :: u64
  ln_observed_at :: string

record db =
  organizations :: "org_row list"
  api_keys :: "api_key_row list"
  devices :: "device_row list"
  verifications :: "verification_row list"
  receipt_rows :: "receipt_row list"
  witness_log :: "witness_row list"
  device_lineage :: "lineage_row list"

text \<open>The database after the migrations, which seed the organisation of requests without a tenant.\<close>

definition db_initial :: db where
  "db_initial = \<lparr> organizations = [\<lparr> og_id = nil_uuid, og_name = ''anonymous'', og_plan = ''free'' \<rparr>], api_keys = [], devices = [],
     verifications = [], receipt_rows = [], witness_log = [], device_lineage = [] \<rparr>"

definition violates :: "string \<Rightarrow> string + 'a" where
  "violates constraint = Inl (''error returned from database: duplicate key value violates unique constraint '' @ [CHR 0x22] @ constraint @ [CHR 0x22])"

definition violates_fk :: "string \<Rightarrow> string \<Rightarrow> string + 'a" where
  "violates_fk table constraint =
     Inl (''error returned from database: insert or update on table '' @ [CHR 0x22] @ table @ [CHR 0x22] @
       '' violates foreign key constraint '' @ [CHR 0x22] @ constraint @ [CHR 0x22])"

section \<open>Queries\<close>

definition create_organization :: "uuid \<Rightarrow> string \<Rightarrow> string \<Rightarrow> db \<Rightarrow> string + uuid \<times> db" where
  "create_organization i name plan d =
     (if i \<in> og_id ` set (organizations d) then violates ''organizations_pkey''
      else Inr (i, d\<lparr> organizations := organizations d @ [\<lparr> og_id = i, og_name = name, og_plan = plan \<rparr>] \<rparr>))"

definition create_api_key :: "uuid \<Rightarrow> uuid \<Rightarrow> string \<Rightarrow> db \<Rightarrow> string + uuid \<times> db" where
  "create_api_key i org_id token_hash d =
     (if i \<in> ak_id ` set (api_keys d) then violates ''api_keys_pkey''
      else if token_hash \<in> ak_hash ` set (api_keys d) then violates ''api_keys_token_hash_key''
      else if org_id \<notin> og_id ` set (organizations d) then violates_fk ''api_keys'' ''api_keys_org_id_fkey''
      else Inr (i, d\<lparr> api_keys := api_keys d @ [\<lparr> ak_id = i, ak_org = org_id, ak_hash = token_hash \<rparr>] \<rparr>))"

definition get_org_by_token_hash :: "string \<Rightarrow> db \<Rightarrow> uuid option" where
  "get_org_by_token_hash token_hash d = map_option ak_org (find (\<lambda>r. ak_hash r = token_hash) (api_keys d))"

definition create_device :: "uuid \<Rightarrow> uuid \<Rightarrow> string \<Rightarrow> string \<Rightarrow> string option \<Rightarrow> db \<Rightarrow> string + uuid \<times> db" where
  "create_device i org_id device_id device_pub label d =
     (if i \<in> dv_id ` set (devices d) then violates ''devices_pkey''
      else if (org_id, device_id) \<in> (\<lambda>r. (dv_org r, dv_device_id r)) ` set (devices d) then violates ''devices_org_id_device_id_key''
      else if device_pub \<in> dv_pub ` set (devices d) then violates ''devices_device_pub_uniq''
      else if org_id \<notin> og_id ` set (organizations d) then violates_fk ''devices'' ''devices_org_id_fkey''
      else Inr (i, d\<lparr> devices := devices d @ [\<lparr> dv_id = i, dv_org = org_id, dv_device_id = device_id, dv_pub = device_pub, dv_label = label,
        dv_status = ''active'', dv_revoked_at = None, dv_min_epoch = None \<rparr>] \<rparr>))"

definition get_device_with_pub :: "uuid \<Rightarrow> string \<Rightarrow> db \<Rightarrow> (uuid \<times> string) option" where
  "get_device_with_pub org_id device_id d =
     map_option (\<lambda>r. (dv_id r, dv_pub r)) (find (\<lambda>r. dv_org r = org_id \<and> dv_device_id r = device_id) (devices d))"

definition create_verification :: "uuid \<Rightarrow> uuid \<Rightarrow> uuid option \<Rightarrow> string \<Rightarrow> json \<Rightarrow> db \<Rightarrow> string + uuid \<times> db" where
  "create_verification i org_id device_id manifest_digest result_json d =
     (if i \<in> vf_id ` set (verifications d) then violates ''verifications_pkey''
      else if org_id \<notin> og_id ` set (organizations d) then violates_fk ''verifications'' ''verifications_org_id_fkey''
      else if device_id \<noteq> None \<and> the device_id \<notin> dv_id ` set (devices d) then violates_fk ''verifications'' ''verifications_device_id_fkey''
      else Inr (i, d\<lparr> verifications := verifications d @ [\<lparr> vf_id = i, vf_org = org_id, vf_device = device_id, vf_digest = manifest_digest,
        vf_result = result_json \<rparr>] \<rparr>))"

definition create_receipt :: "uuid \<Rightarrow> uuid \<Rightarrow> string \<Rightarrow> string \<Rightarrow> db \<Rightarrow> string + uuid \<times> db" where
  "create_receipt i verification_id jws kid d =
     (if i \<in> rp_id ` set (receipt_rows d) then violates ''receipts_pkey''
      else if verification_id \<notin> vf_id ` set (verifications d) then violates_fk ''receipts'' ''receipts_verification_id_fkey''
      else Inr (i, d\<lparr> receipt_rows := receipt_rows d @ [\<lparr> rp_id = i, rp_verification = verification_id, rp_jws = jws, rp_kid = kid \<rparr>] \<rparr>))"

definition get_receipt :: "uuid \<Rightarrow> uuid \<Rightarrow> db \<Rightarrow> (string \<times> string) option" where
  "get_receipt org_id receipt_id d =
     map_option (\<lambda>(r, v). (rp_jws r, rp_kid r))
       (find (\<lambda>(r, v). rp_verification r = vf_id v \<and> rp_id r = receipt_id \<and> vf_org v = org_id)
         (List.product (receipt_rows d) (verifications d)))"

definition get_device_by_pub :: "string \<Rightarrow> db \<Rightarrow> uuid option" where
  "get_device_by_pub device_pub d = map_option dv_id (find (\<lambda>r. dv_pub r = device_pub) (devices d))"

definition entry_of :: "witness_row \<Rightarrow> WitnessEntry" where
  "entry_of r = \<lparr> wn_sequence = wl_seq r, wn_tip = wl_tip r, wn_observed_at = wl_observed_at r \<rparr>"

definition witness_entries :: "string \<Rightarrow> db \<Rightarrow> WitnessEntry list" where
  "witness_entries device_pub d =
     map entry_of (sort_key (\<lambda>r. sint (wl_seq r)) (filter (\<lambda>r. wl_pub r = device_pub) (witness_log d)))"

definition witness_insert :: "string \<Rightarrow> u64 \<Rightarrow> string \<Rightarrow> string \<Rightarrow> bool \<Rightarrow> string \<Rightarrow> db \<Rightarrow> string + unit \<times> db" where
  "witness_insert device_pub seq tip observed_at registered signed_at d =
     (if (device_pub, seq) \<in> (\<lambda>r. (wl_pub r, wl_seq r)) ` set (witness_log d) then violates ''witness_log_pkey''
      else Inr ((), d\<lparr> witness_log := witness_log d @ [\<lparr> wl_pub = device_pub, wl_seq = seq, wl_tip = tip, wl_observed_at = observed_at,
        wl_registered = registered, wl_signed_at = signed_at \<rparr>] \<rparr>))"

definition witness_entry_at :: "string \<Rightarrow> u64 \<Rightarrow> db \<Rightarrow> WitnessEntry option" where
  "witness_entry_at device_pub seq d =
     map_option entry_of (find (\<lambda>r. wl_pub r = device_pub \<and> wl_seq r = seq) (witness_log d))"

definition rev_state :: "device_row \<Rightarrow> RevocationState" where
  "rev_state r = \<lparr> rv_revoked_at = dv_revoked_at r, rv_min_epoch = dv_min_epoch r \<rparr>"

definition get_device_revocation_by_pub :: "string \<Rightarrow> db \<Rightarrow> (uuid \<times> RevocationState) option" where
  "get_device_revocation_by_pub device_pub d =
     map_option (\<lambda>r. (dv_id r, rev_state r)) (find (\<lambda>r. dv_pub r = device_pub) (devices d))"

definition get_device_revocation :: "uuid \<Rightarrow> uuid \<Rightarrow> db \<Rightarrow> (string \<times> RevocationState) option" where
  "get_device_revocation org_id i d =
     map_option (\<lambda>r. (dv_pub r, rev_state r)) (find (\<lambda>r. dv_id r = i \<and> dv_org r = org_id) (devices d))"

definition set_device_revocation :: "uuid \<Rightarrow> uuid \<Rightarrow> string \<Rightarrow> u32 option \<Rightarrow> db \<Rightarrow> bool \<times> db" where
  "set_device_revocation org_id i revoked_at min_epoch d =
     (\<exists>r \<in> set (devices d). dv_id r = i \<and> dv_org r = org_id,
      d\<lparr> devices := map (\<lambda>r. if dv_id r = i \<and> dv_org r = org_id
        then r\<lparr> dv_revoked_at := Some revoked_at, dv_min_epoch := min_epoch, dv_status := ''revoked'' \<rparr> else r) (devices d) \<rparr>)"

text \<open>Several rows may have the same old key; the query returns one of them, here the oldest.\<close>

definition lineage_rotation_seq :: "string \<Rightarrow> db \<Rightarrow> u64 option" where
  "lineage_rotation_seq old_pub d = map_option ln_seq (find (\<lambda>r. ln_old r = old_pub) (device_lineage d))"

definition lineage_insert :: "string \<Rightarrow> string \<Rightarrow> u64 \<Rightarrow> string \<Rightarrow> db \<Rightarrow> db" where
  "lineage_insert new_pub old_pub rotation_seq observed_at d =
     (if new_pub \<in> ln_new ` set (device_lineage d) then d
      else d\<lparr> device_lineage := device_lineage d @ [\<lparr> ln_new = new_pub, ln_old = old_pub, ln_seq = rotation_seq, ln_observed_at = observed_at \<rparr>] \<rparr>)"

section \<open>Programs of queries\<close>

text \<open>
  A handler awaits each query in turn; between two queries other requests may run theirs. A program is its result or one
  atomic query followed by the rest. \<open>pbind\<close> is the question mark operator after a query.
\<close>

datatype 'a prog = Done 'a | Query "db \<Rightarrow> db \<times> 'a prog"

primrec pbind :: "('e + 'a) prog \<Rightarrow> ('a \<Rightarrow> ('e + 'b) prog) \<Rightarrow> ('e + 'b) prog" where
  "pbind (Done r) k = (case r of Inl e \<Rightarrow> Done (Inl e) | Inr x \<Rightarrow> k x)"
| "pbind (Query f) k = Query (\<lambda>d. map_prod id (\<lambda>p. pbind p k) (f d))"

definition select_query :: "(db \<Rightarrow> 'a) \<Rightarrow> ('e + 'a) prog" where
  "select_query q = Query (\<lambda>d. (d, Done (Inr (q d))))"

definition change_query :: "(db \<Rightarrow> string + 'a \<times> db) \<Rightarrow> (string \<Rightarrow> 'e) \<Rightarrow> ('e + 'a) prog" where
  "change_query q err = Query (\<lambda>d. case q d of Inl e \<Rightarrow> (d, Done (Inl (err e))) | Inr (x, d') \<Rightarrow> (d', Done (Inr x)))"

definition total_query :: "(db \<Rightarrow> 'a \<times> db) \<Rightarrow> ('e + 'a) prog" where
  "total_query q = Query (\<lambda>d. (snd (q d), Done (Inr (fst (q d)))))"

text \<open>A request served alone.\<close>

primrec run :: "'a prog \<Rightarrow> db \<Rightarrow> 'a \<times> db" where
  "run (Done x) = (\<lambda>d. (x, d))"
| "run (Query f) = (\<lambda>d. (case map_prod id run (f d) of (d', r) \<Rightarrow> r d'))"

text \<open>Requests served together: each is a program, and a step executes one query of one of them.\<close>

record 'a server =
  sv_db :: db
  sv_running :: "'a prog list"
  sv_replies :: "'a list"

inductive serve :: "('a prog \<Rightarrow> bool) \<Rightarrow> 'a server \<Rightarrow> 'a server \<Rightarrow> bool" for handled where
  submit: "handled p \<Longrightarrow> serve handled s (s\<lparr> sv_running := sv_running s @ [p] \<rparr>)"
| execute: "i < length (sv_running s) \<Longrightarrow> sv_running s ! i = Query f \<Longrightarrow> f (sv_db s) = (d, p) \<Longrightarrow>
    serve handled s (s\<lparr> sv_db := d, sv_running := (sv_running s)[i := p] \<rparr>)"
| reply: "i < length (sv_running s) \<Longrightarrow> sv_running s ! i = Done x \<Longrightarrow>
    serve handled s (s\<lparr> sv_running := take i (sv_running s) @ drop (Suc i) (sv_running s), sv_replies := sv_replies s @ [x] \<rparr>)"

section \<open>Reasoning about interleaved programs\<close>

lemma prog_induct [case_names Done Query, induct type: prog]:
  assumes "\<And>x. P (Done x)" "\<And>f. (\<And>d. P (snd (f d))) \<Longrightarrow> P (Query f)"
  shows "P p"
proof (induction p)
  case (Query f)
  have "P (snd (f d))" for d by (rule Query [OF rangeI [of f d]]) (cases "f d", simp)
  then show ?case by (rule assms(2))
qed (rule assms(1))

lemma pbind_Query: "pbind (Query f) k = Query (\<lambda>d. (fst (f d), pbind (snd (f d)) k))"
  by (simp add: map_prod_def case_prod_beta')

lemma run_Query: "run (Query f) d = run (snd (f d)) (fst (f d))"
  by (simp add: map_prod_def case_prod_beta')

lemma map_Query: "map_prog h (Query f) = Query (\<lambda>d. (fst (f d), map_prog h (snd (f d))))"
  by (simp add: map_prod_def case_prod_beta' comp_def)

text \<open>
  \<open>sound ok ext good p d\<close>: started in database \<open>d\<close>, with other requests changing the database between the queries
  along \<open>ext\<close> and keeping \<open>ok\<close>, the program \<open>p\<close> does the same itself and its result satisfies \<open>good\<close>.
\<close>

primrec sound :: "(db \<Rightarrow> bool) \<Rightarrow> (db \<Rightarrow> db \<Rightarrow> bool) \<Rightarrow> (db \<Rightarrow> 'a \<Rightarrow> bool) \<Rightarrow> 'a prog \<Rightarrow> db \<Rightarrow> bool" where
  "sound ok ext good (Done x) = (\<lambda>d. good d x)"
| "sound ok ext good (Query f) = (\<lambda>d. \<forall>d'. ok d' \<longrightarrow> ext d d' \<longrightarrow>
     (case map_prod id (sound ok ext good) (f d') of (d'', s) \<Rightarrow> ok d'' \<and> ext d' d'' \<and> s d''))"

lemma sound_Query: "sound ok ext good (Query f) d \<longleftrightarrow>
    (\<forall>d'. ok d' \<longrightarrow> ext d d' \<longrightarrow> ok (fst (f d')) \<and> ext d' (fst (f d')) \<and> sound ok ext good (snd (f d')) (fst (f d')))"
  by (simp add: map_prod_def case_prod_beta')

declare sound.simps(2) [simp del] pbind.simps(2) [simp del] run.simps(2) [simp del]

locale guarantee =
  fixes ok :: "db \<Rightarrow> bool" and ext :: "db \<Rightarrow> db \<Rightarrow> bool" and good :: "db \<Rightarrow> 'a \<Rightarrow> bool" and handled :: "'a prog \<Rightarrow> bool"
  assumes ext_refl: "ext d d"
    and ext_trans: "ext d d' \<Longrightarrow> ext d' d'' \<Longrightarrow> ext d d''"
    and good_mono: "good d x \<Longrightarrow> ext d d' \<Longrightarrow> good d' x"
    and handled_sound: "handled p \<Longrightarrow> sound ok ext good p d"
begin

lemma sound_mono: "sound ok ext good p d \<Longrightarrow> ext d d' \<Longrightarrow> sound ok ext good p d'"
  by (cases p) (auto simp: sound_Query intro: good_mono ext_trans)

definition server_inv :: "'a server \<Rightarrow> bool" where
  "server_inv s \<longleftrightarrow> ok (sv_db s) \<and> (\<forall>p \<in> set (sv_running s). sound ok ext good p (sv_db s)) \<and>
     (\<forall>x \<in> set (sv_replies s). good (sv_db s) x)"

lemma execute_sound:
  assumes "sound ok ext good (Query f) d" "ok d" "f d = (d', p)"
  shows "ok d' \<and> ext d d' \<and> sound ok ext good p d'"
  using assms ext_refl [of d] unfolding sound_Query by (metis fst_conv snd_conv)

lemma serve_inv: "serve handled s t \<Longrightarrow> server_inv s \<Longrightarrow> server_inv t"
proof (induction rule: serve.induct)
  case (submit p s)
  then show ?case by (auto simp: server_inv_def intro: handled_sound)
next
  case (execute i s f d p)
  then have "sound ok ext good (Query f) (sv_db s)" "ok (sv_db s)" unfolding server_inv_def by (metis nth_mem)+
  from execute_sound [OF this execute(3)] have d: "ok d" "ext (sv_db s) d" "sound ok ext good p d" by blast+
  have "sound ok ext good q d" if "q \<in> set ((sv_running s)[i := p])" for q
    using that set_update_subset_insert [of "sv_running s" i p] execute.prems sound_mono [OF _ d(2)] d(3)
    unfolding server_inv_def by blast
  then show ?case using execute.prems d good_mono unfolding server_inv_def by auto
next
  case (reply i s x)
  then have "good (sv_db s) x" unfolding server_inv_def by (metis nth_mem sound.simps(1))
  then show ?case using reply.prems set_take_subset [of i "sv_running s"] set_drop_subset [of "Suc i" "sv_running s"]
    unfolding server_inv_def by auto
qed

lemma serve_ext: "serve handled s t \<Longrightarrow> server_inv s \<Longrightarrow> ext (sv_db s) (sv_db t)"
proof (induction rule: serve.induct)
  case (execute i s f d p)
  then have "sound ok ext good (Query f) (sv_db s)" "ok (sv_db s)" unfolding server_inv_def by (metis nth_mem)+
  from execute_sound [OF this execute(3)] show ?case by simp
qed (simp_all add: ext_refl)

lemma serve_reachable:
  assumes "(serve handled)\<^sup>*\<^sup>* s t" "server_inv s"
  shows "server_inv t \<and> ext (sv_db s) (sv_db t)"
  using assms by (induction rule: rtranclp_induct) (auto intro: ext_refl ext_trans serve_inv serve_ext)

lemma run_sound: "sound ok ext good p d \<Longrightarrow> ok d \<Longrightarrow> run p d = (x, d') \<Longrightarrow> ok d' \<and> ext d d' \<and> good d' x"
proof (induction p arbitrary: d)
  case (Query f)
  from execute_sound [OF Query.prems(1,2) prod.collapse [symmetric]] have 1: "ok (fst (f d))" "ext d (fst (f d))" "sound ok ext good (snd (f d)) (fst (f d))" by simp_all
  from Query.IH [OF 1(3,1)] Query.prems(3) 1(2) show ?case by (auto simp: run_Query intro: ext_trans)
qed (auto intro: ext_refl)

end

sublocale guarantee \<subseteq> serving: invariant_system "\<lambda>s. ok (sv_db s) \<and> sv_running s = [] \<and> sv_replies s = []" "serve handled" server_inv
proof unfold_locales
  show "server_inv s" if "ok (sv_db s) \<and> sv_running s = [] \<and> sv_replies s = []" for s using that by (simp add: server_inv_def)
  show "server_inv t" if "server_inv s" "serve handled s t" for s t using serve_inv [OF that(2,1)] .
qed

lemma sound_pbind:
  "sound ok ext (\<lambda>d r. case r of Inl e \<Rightarrow> good d (Inl e) | Inr x \<Rightarrow> sound ok ext good (k x) d) p d \<Longrightarrow> sound ok ext good (pbind p k) d"
  by (induction p arbitrary: d) (auto simp: sound_Query pbind_Query split: sum.splits)

lemma sound_map: "sound ok ext good (map_prog h p) d \<longleftrightarrow> sound ok ext (\<lambda>d x. good d (h x)) p d"
  by (induction p arbitrary: d) (simp_all add: sound_Query map_Query del: prog.map(2))

lemma sound_queries:
  "sound ok ext good (select_query q) d \<longleftrightarrow> (\<forall>d'. ok d' \<longrightarrow> ext d d' \<longrightarrow> ext d' d' \<and> good d' (Inr (q d')))"
  "sound ok ext good (change_query c err) d \<longleftrightarrow> (\<forall>d'. ok d' \<longrightarrow> ext d d' \<longrightarrow>
     (case c d' of Inl e \<Rightarrow> ext d' d' \<and> good d' (Inl (err e)) | Inr (x, d'') \<Rightarrow> ok d'' \<and> ext d' d'' \<and> good d'' (Inr x)))"
  "sound ok ext good (total_query t) d \<longleftrightarrow> (\<forall>d'. ok d' \<longrightarrow> ext d d' \<longrightarrow> ok (snd (t d')) \<and> ext d' (snd (t d')) \<and> good (snd (t d')) (Inr (fst (t d'))))"
  by (auto simp: sound_Query select_query_def change_query_def total_query_def split: sum.splits prod.splits)

lemma run_pbind: "run (pbind p k) d = (case run p d of (Inl e, d') \<Rightarrow> (Inl e, d') | (Inr x, d') \<Rightarrow> run (k x) d')"
  by (induction p arbitrary: d) (simp_all add: pbind_Query run_Query split: sum.splits)

lemma run_map: "run (map_prog h p) d = map_prod h id (run p d)"
  by (induction p arbitrary: d) (simp_all add: map_Query run_Query del: prog.map(2))

lemma run_queries [simp]:
  "run (select_query q) d = (Inr (q d), d)"
  "run (change_query c err) d = (case c d of Inl e \<Rightarrow> (Inl (err e), d) | Inr (x, d') \<Rightarrow> (Inr x, d'))"
  "run (total_query t) d = (Inr (fst (t d)), snd (t d))"
  by (auto simp: run_Query select_query_def change_query_def total_query_def split: sum.splits)

text \<open>Serving one request alone is one of the interleavings.\<close>

lemma serve_alone:
  "sv_running s = [p] \<Longrightarrow>
    (serve handled)\<^sup>*\<^sup>* s (s\<lparr> sv_db := snd (run p (sv_db s)), sv_running := [], sv_replies := sv_replies s @ [fst (run p (sv_db s))] \<rparr>)"
proof (induction p arbitrary: s)
  case (Done x)
  then have "serve handled s (s\<lparr> sv_running := take 0 (sv_running s) @ drop (Suc 0) (sv_running s), sv_replies := sv_replies s @ [x] \<rparr>)"
    by (intro reply) simp_all
  with Done show ?case by (auto simp: r_into_rtranclp)
next
  case (Query f)
  let ?t = "s\<lparr> sv_db := fst (f (sv_db s)), sv_running := [snd (f (sv_db s))] \<rparr>"
  have "serve handled s (s\<lparr> sv_db := fst (f (sv_db s)), sv_running := (sv_running s)[0 := snd (f (sv_db s))] \<rparr>)"
    by (intro execute) (simp_all add: Query.prems)
  then have "serve handled s ?t" by (simp add: Query.prems)
  moreover have "(serve handled)\<^sup>*\<^sup>* ?t (?t\<lparr> sv_db := snd (run (Query f) (sv_db s)), sv_running := [], sv_replies := sv_replies s @ [fst (run (Query f) (sv_db s))] \<rparr>)"
    using Query.IH [of ?t "sv_db s"] by (simp add: run_Query)
  ultimately show ?case by (simp add: converse_rtranclp_into_rtranclp)
qed

lemma serve_run:
  assumes "handled p" "sv_running s = []"
  shows "(serve handled)\<^sup>*\<^sup>* s (s\<lparr> sv_db := snd (run p (sv_db s)), sv_replies := sv_replies s @ [fst (run p (sv_db s))] \<rparr>)"
proof -
  have "serve handled s (s\<lparr> sv_running := [p] \<rparr>)" using submit [of handled p s] assms by simp
  moreover have "(serve handled)\<^sup>*\<^sup>* (s\<lparr> sv_running := [p] \<rparr>)
      (s\<lparr> sv_db := snd (run p (sv_db s)), sv_running := [], sv_replies := sv_replies s @ [fst (run p (sv_db s))] \<rparr>)"
    using serve_alone [of "s\<lparr> sv_running := [p] \<rparr>" p handled] by simp
  ultimately show ?thesis using assms(2) by (cases s) (auto intro: converse_rtranclp_into_rtranclp)
qed

section \<open>Programs whose every query respects a relation\<close>

primrec within :: "(db \<Rightarrow> db \<Rightarrow> bool) \<Rightarrow> 'a prog \<Rightarrow> bool" where
  "within R (Done x) \<longleftrightarrow> True"
| "within R (Query f) \<longleftrightarrow> (\<forall>d. case map_prod id (within R) (f d) of (d', w) \<Rightarrow> R d d' \<and> w)"

lemma within_Query: "within R (Query f) \<longleftrightarrow> (\<forall>d. R d (fst (f d)) \<and> within R (snd (f d)))"
  by (simp add: map_prod_def case_prod_beta')

declare within.simps(2) [simp del]

lemma within_run: "within R p \<Longrightarrow> reflp R \<Longrightarrow> transp R \<Longrightarrow> R d (snd (run p d))"
  by (induction p arbitrary: d) (auto simp: within_Query run_Query reflp_def transp_def, blast)

lemma within_pbind: "within R p \<Longrightarrow> (\<And>x. within R (k x)) \<Longrightarrow> within R (pbind p k)"
  by (induction p) (auto simp: within_Query pbind_Query split: sum.splits)

lemma within_map [simp]: "within R (map_prog h p) \<longleftrightarrow> within R p"
  by (induction p) (auto simp: within_Query map_Query simp del: prog.map(2))

lemma within_queries:
  "reflp R \<Longrightarrow> within R (select_query q)"
  "within R (total_query t) \<longleftrightarrow> (\<forall>d. R d (snd (t d)))"
  "reflp R \<Longrightarrow> within R (change_query c err) \<longleftrightarrow> (\<forall>d x d'. c d = Inr (x, d') \<longrightarrow> R d d')"
  by (auto simp: within_Query select_query_def change_query_def total_query_def reflp_def split: sum.splits prod.splits)

section \<open>The schema as an invariant\<close>

text \<open>Keys are unique and references point to rows that exist.\<close>

definition device_ident :: "device_row \<Rightarrow> uuid \<times> uuid \<times> string \<times> string" where
  "device_ident r = (dv_id r, dv_org r, dv_device_id r, dv_pub r)"

definition unique_keys :: "db \<Rightarrow> bool" where
  "unique_keys d \<longleftrightarrow> distinct (map og_id (organizations d)) \<and> distinct (map ak_hash (api_keys d)) \<and>
     distinct (map dv_id (devices d)) \<and> distinct (map dv_pub (devices d)) \<and>
     distinct (map vf_id (verifications d)) \<and> distinct (map rp_id (receipt_rows d)) \<and>
     distinct (map (\<lambda>r. (wl_pub r, wl_seq r)) (witness_log d)) \<and> distinct (map ln_new (device_lineage d))"

definition references :: "db \<Rightarrow> bool" where
  "references d \<longleftrightarrow> ak_org ` set (api_keys d) \<subseteq> og_id ` set (organizations d) \<and>
     dv_org ` set (devices d) \<subseteq> og_id ` set (organizations d) \<and>
     vf_org ` set (verifications d) \<subseteq> og_id ` set (organizations d) \<and>
     rp_verification ` set (receipt_rows d) \<subseteq> vf_id ` set (verifications d)"

definition db_ok :: "db \<Rightarrow> bool" where
  "db_ok d \<longleftrightarrow> unique_keys d \<and> references d"

text \<open>Every table only grows, and of a device only its revocation columns change.\<close>

definition grows :: "db \<Rightarrow> db \<Rightarrow> bool" where
  "grows d d' \<longleftrightarrow> prefix (organizations d) (organizations d') \<and> prefix (api_keys d) (api_keys d') \<and>
     prefix (map device_ident (devices d)) (map device_ident (devices d')) \<and> prefix (verifications d) (verifications d') \<and>
     prefix (receipt_rows d) (receipt_rows d') \<and> prefix (witness_log d) (witness_log d') \<and>
     prefix (device_lineage d) (device_lineage d')"

lemmas schema_defs = db_ok_def unique_keys_def references_def grows_def

lemma db_initial_ok: "db_ok db_initial"
  by (simp add: schema_defs db_initial_def)

lemma grows_refl [simp]: "grows d d"
  by (simp add: grows_def)

lemma grows_trans: "grows d d' \<Longrightarrow> grows d' d'' \<Longrightarrow> grows d d''"
  unfolding grows_def by (meson prefix_order.trans)

lemma device_fields:
  "map dv_id ds = map fst (map device_ident ds)" "map dv_org ds = map (fst \<circ> snd) (map device_ident ds)"
  "map dv_pub ds = map (snd \<circ> snd \<circ> snd) (map device_ident ds)"
  by (simp_all add: device_ident_def)

named_theorems schema_steps \<open>one rule per query that changes the database\<close>

lemma create_device_step [schema_steps]:
  "create_device i org_id device_id device_pub label d = Inr (j, d') \<Longrightarrow> db_ok d \<Longrightarrow> db_ok d' \<and> grows d d'"
  by (clarsimp simp: create_device_def violates_def violates_fk_def split: if_splits) (simp add: schema_defs subset_insertI2)

lemma create_verification_step [schema_steps]:
  "create_verification i org_id device_id dg res d = Inr (j, d') \<Longrightarrow> db_ok d \<Longrightarrow> db_ok d' \<and> grows d d'"
  by (clarsimp simp: create_verification_def violates_def violates_fk_def split: if_splits) (simp add: schema_defs subset_insertI2)

lemma create_receipt_step [schema_steps]:
  "create_receipt i v jws kid d = Inr (j, d') \<Longrightarrow> db_ok d \<Longrightarrow> db_ok d' \<and> grows d d'"
  by (clarsimp simp: create_receipt_def violates_def violates_fk_def split: if_splits) (simp add: schema_defs subset_insertI2)

lemma create_organization_step [schema_steps]:
  "create_organization i name plan d = Inr (j, d') \<Longrightarrow> db_ok d \<Longrightarrow> db_ok d' \<and> grows d d'"
  by (clarsimp simp: create_organization_def violates_def split: if_splits) (simp add: schema_defs subset_insertI2)

lemma create_api_key_step [schema_steps]:
  "create_api_key i org_id h d = Inr (j, d') \<Longrightarrow> db_ok d \<Longrightarrow> db_ok d' \<and> grows d d'"
  by (clarsimp simp: create_api_key_def violates_def violates_fk_def split: if_splits) (simp add: schema_defs subset_insertI2)

lemma witness_insert_step [schema_steps]:
  "witness_insert p n t o' reg sg d = Inr (u, d') \<Longrightarrow> db_ok d \<Longrightarrow> db_ok d' \<and> grows d d'"
  by (clarsimp simp: witness_insert_def violates_def split: if_splits) (simp add: schema_defs subset_insertI2)

lemma lineage_insert_step [schema_steps]: "db_ok d \<Longrightarrow> db_ok (lineage_insert p q n t d) \<and> grows d (lineage_insert p q n t d)"
  by (simp add: lineage_insert_def schema_defs)

lemma set_device_revocation_step [schema_steps]:
  "db_ok d \<Longrightarrow> db_ok (snd (set_device_revocation org_id i at e d)) \<and> grows d (snd (set_device_revocation org_id i at e d))"
proof -
  assume ok: "db_ok d"
  let ?d = "snd (set_device_revocation org_id i at e d)"
  have id: "map device_ident (devices ?d) = map device_ident (devices d)"
    by (simp add: set_device_revocation_def device_ident_def comp_def)
  then have "map dv_id (devices ?d) = map dv_id (devices d)" "map dv_pub (devices ?d) = map dv_pub (devices d)"
    "set (map dv_org (devices ?d)) = set (map dv_org (devices d))"
    unfolding device_fields by simp_all
  with ok id show ?thesis by (simp add: schema_defs) (simp add: set_device_revocation_def)
qed

end
