(* ===== verification/Platform.thy ===== *)
theory Platform
  imports Platform_Keys Point_Attestation Platform_Db
begin

text \<open>
  The HTTP service of the platform: the handlers of \<^verbatim>\<open>crates/platform/src/http/handlers.rs\<close> as programs of database
  queries, the bearer authentication of \<^verbatim>\<open>auth.rs\<close> and the routing of \<^verbatim>\<open>router.rs\<close>. Third-party functions are fields of
  the record \<open>plat\<close>; clock readings and fresh identifiers of a request are in \<open>req_env\<close>. Status codes are numbers.
\<close>

record plat =
  pl_web :: web
  pl_manifest :: man_value
  pl_attestation :: pa_json
  pl_jwt :: "string \<Rightarrow> json \<Rightarrow> bytes \<Rightarrow> string + string"
  pl_sha256 :: "bytes \<Rightarrow> bytes"
  pl_rfc3339 :: "string \<Rightarrow> int option"

record AppState =
  app_keys :: KeyManager
  app_receipt_ttl_secs :: u64

record req_env =
  en_now_rfc3339 :: string
  en_timestamp :: u64
  en_row_id :: uuid
  en_receipt_id :: uuid
  en_simple_id :: string

section \<open>Digests and tokens\<close>

definition compute_manifest_digest_blake3 :: "'x crates_scheme \<Rightarrow> plat \<Rightarrow> json \<Rightarrow> string" where
  "compute_manifest_digest_blake3 X E manifest =
     ''b3:'' @ b64_encode X (segment_hash X (str_bytes (json_print (pl_web E) manifest)))"

definition compute_manifest_digest_sha256 :: "'x crates_scheme \<Rightarrow> plat \<Rightarrow> json \<Rightarrow> string" where
  "compute_manifest_digest_sha256 X E manifest = hex_encode X (pl_sha256 E (str_bytes (json_print (pl_web E) manifest)))"

definition parse_jws_claims :: "plat \<Rightarrow> string \<Rightarrow> json option" where
  "parse_jws_claims E jws =
     (case split_dots jws of
        [_, payload_part, _] \<Rightarrow>
          (case b64u_decode (pl_web E) payload_part of
             Inl _ \<Rightarrow> None
           | Inr decoded \<Rightarrow> (case json_parse (pl_web E) decoded of Inl _ \<Rightarrow> None | Inr v \<Rightarrow> Some v))
      | _ \<Rightarrow> None)"

definition hash_token :: "'x crates_scheme \<Rightarrow> plat \<Rightarrow> string \<Rightarrow> string" where
  "hash_token X E token = hex_encode X (pl_sha256 E (str_bytes token))"

section \<open>Verification\<close>

record VerifyResponse =
  vp_verification_id :: string
  vp_result :: EngineReport
  vp_receipt :: "string option"

text \<open>The handler of the build without a database.\<close>

definition verify_handler_stateless ::
  "'x crates_scheme \<Rightarrow> plat \<Rightarrow> AppState \<Rightarrow> req_env \<Rightarrow> string \<Rightarrow> VerifyRequest \<Rightarrow> (nat \<times> ValidationError) + VerifyResponse" where
  "verify_handler_stateless X E app V uuid request =
     res_bind (map_err (\<lambda>e. (400, e)) (validate_verify_request_full request)) (\<lambda>_.
     res_bind (map_err (\<lambda>_. (400, ve_new ''verification_failed'' ''Cryptographic verification failed''))
       (verify_to_report X (pl_manifest E) (vq_manifest request) (vq_segments request) (vq_device_pub request))) (\<lambda>report.
     res_bind (map_err (\<lambda>e. (500, e))
       (build_receipt_if_requested (pl_jwt E) (en_simple_id V) (en_now_rfc3339 V) (en_timestamp V) request report (app_keys app)
         (compute_manifest_digest_blake3 X E) (app_receipt_ttl_secs app))) (\<lambda>receipt.
     Inr \<lparr> vp_verification_id = ''v_'' @ uuid, vp_result = report, vp_receipt = receipt \<rparr>)))"

text \<open>Binding of a claimed device identifier to the registry of the tenant.\<close>

definition bind_device :: "uuid option \<Rightarrow> VerifyRequest \<Rightarrow> ((nat \<times> ValidationError) + uuid option \<times> bool) prog" where
  "bind_device org_ctx request =
     (case (vo_device_id (vq_options request), org_ctx) of
        (Some device_id_str, Some org_id) \<Rightarrow>
          pbind (select_query (get_device_with_pub org_id device_id_str)) (\<lambda>rec.
          case rec of
            None \<Rightarrow> Done (Inl (403, ve_new ''unknown_device'' ''device_id is not registered for this organization''))
          | Some (i, stored_pub) \<Rightarrow>
              if stored_pub \<noteq> vq_device_pub request
              then Done (Inl (403, ve_new ''device_key_mismatch'' ''device_pub does not match the registered key for device_id''))
              else Done (Inr (Some i, True)))
      | _ \<Rightarrow> Done (Inr (None, False)))"

definition archive_epoch :: "json \<Rightarrow> u32" where
  "archive_epoch manifest =
     ucast (case Option.bind (Option.bind (json_get manifest ''device'') (\<lambda>v. json_get v ''key_epoch'')) as_u64 of Some n \<Rightarrow> n | None \<Rightarrow> 0)"

definition json_or_null :: "('a \<Rightarrow> json) \<Rightarrow> 'a option \<Rightarrow> json" where
  "json_or_null f v = (case v of None \<Rightarrow> JNull | Some x \<Rightarrow> f x)"

definition enforce_min_epoch :: "VerifyRequest \<Rightarrow> ((nat \<times> ValidationError) + json) prog" where
  "enforce_min_epoch request =
     pbind (select_query (get_device_revocation_by_pub (vq_device_pub request))) (\<lambda>found.
     case found of
       None \<Rightarrow> Done (Inr JNull)
     | Some (_, rvs) \<Rightarrow>
         if \<not> epoch_allowed (rv_min_epoch rvs) (archive_epoch (vq_manifest request))
         then Done (Inl (403, ve_new ''epoch_below_min'' (''archive key_epoch is below the device'' @ [CHR 0x27] @ ''s min_epoch floor'')))
         else Done (Inr (JObj [(''min_epoch'', json_or_null (\<lambda>e. JU64 (ucast e)) (rv_min_epoch rvs)),
           (''revoked_at'', json_or_null JStr (rv_revoked_at rvs))])))"

definition result_for_db :: "EngineReport \<Rightarrow> json \<Rightarrow> json" where
  "result_for_db report annotation =
     JObj [(''continuity_verification'', result_json (er_continuity report)),
       (''metadata'', JObj [(''chain_tip'', JStr (vm_chain_tip (er_metadata report))), (''genesis_hash'', JStr (vm_genesis_hash (er_metadata report))),
          (''total_segments'', JU64 (ucast (vm_total_segments (er_metadata report)))),
          (''verified_segments'', JU64 (ucast (vm_verified_segments (er_metadata report))))]),
       (''revocation'', annotation), (''signature_verification'', result_json (er_signature report))]"

text \<open>The receipt with its row in the database; a row that cannot be stored is not fatal.\<close>

definition issue_receipt ::
  "'x crates_scheme \<Rightarrow> plat \<Rightarrow> AppState \<Rightarrow> req_env \<Rightarrow> VerifyRequest \<Rightarrow> EngineReport \<Rightarrow> bool \<Rightarrow> uuid \<Rightarrow>
     ((nat \<times> ValidationError) + string option \<times> uuid option) prog" where
  "issue_receipt X E app V request report device_registered verification_id =
     (if vo_return_receipt (vq_options request) \<and> vx_passed (er_signature report) \<and> vx_passed (er_continuity report)
      then
        let device_id_str = (case vo_device_id (vq_options request) of Some s \<Rightarrow> s | None \<Rightarrow> ''unknown_device'');
            kid = km_current_kid (app_keys app);
            receipt_obj = receipt_from_report (en_simple_id V) report (compute_manifest_digest_blake3 X E (vq_manifest request))
              (vq_device_pub request) device_id_str device_registered kid (en_now_rfc3339 V) (vm_chain_tip (er_metadata report))
        in case sign_receipt_jws (pl_jwt E) (en_timestamp V) receipt_obj (app_keys app) (app_receipt_ttl_secs app) of
             Inl _ \<Rightarrow> Done (Inl (500, ve_new ''receipt_signing_failed'' ''Receipt generation failed''))
           | Inr jws \<Rightarrow>
               total_query (\<lambda>d. case create_receipt (en_receipt_id V) verification_id jws kid d of
                   Inr (rid, d') \<Rightarrow> ((Some jws, Some rid), d')
                 | Inl _ \<Rightarrow> ((Some jws, None), d))
      else Done (Inr (None, None)))"

definition verify_handler ::
  "'x crates_scheme \<Rightarrow> plat \<Rightarrow> AppState \<Rightarrow> req_env \<Rightarrow> uuid option \<Rightarrow> VerifyRequest \<Rightarrow> ((nat \<times> ValidationError) + VerifyResponse) prog" where
  "verify_handler X E app V org_ctx request =
     (case validate_verify_request_full request of
        Inl e \<Rightarrow> Done (Inl (400, e))
      | Inr _ \<Rightarrow>
          pbind (bind_device org_ctx request) (\<lambda>(device_id, device_registered).
          pbind (enforce_min_epoch request) (\<lambda>annotation.
          case verify_to_report X (pl_manifest E) (vq_manifest request) (vq_segments request) (vq_device_pub request) of
            Inl _ \<Rightarrow> Done (Inl (400, ve_new ''verification_failed'' ''Cryptographic verification failed''))
          | Inr report \<Rightarrow>
              pbind (change_query (create_verification (en_row_id V) (case org_ctx of Some org_id \<Rightarrow> org_id | None \<Rightarrow> nil_uuid) device_id
                  (compute_manifest_digest_sha256 X E (vq_manifest request)) (result_for_db report annotation))
                (\<lambda>_. (500, ve_new ''database_error'' ''Failed to create verification record''))) (\<lambda>verification_id.
              pbind (issue_receipt X E app V request report device_registered verification_id) (\<lambda>(receipt, receipt_id).
              Done (Inr \<lparr> vp_verification_id = (case receipt_id of Some rid \<Rightarrow> verification_id @ ''/'' @ rid | None \<Rightarrow> verification_id),
                vp_result = report, vp_receipt = receipt \<rparr>))))))"

section \<open>Attestations\<close>

record VerifyAttestationResponse =
  vt_status :: string
  vt_receipt :: "string option"
  vt_details :: json

definition attestation_failed :: "string \<Rightarrow> PointAttestation \<Rightarrow> VerifyAttestationResponse" where
  "attestation_failed reason a =
     \<lparr> vt_status = ''failed'', vt_receipt = None,
       vt_details = JObj [(''public_key'', JStr (pa_public_key a)), (''reason'', JStr reason), (''timestamp'', JStr (pa_timestamp a))] \<rparr>"

definition attestation_claims :: "'x crates_scheme \<Rightarrow> AppState \<Rightarrow> req_env \<Rightarrow> PointAttestation \<Rightarrow> ReceiptClaims" where
  "attestation_claims X app V a =
     \<lparr> rcl_verification_id = ''va_'' @ en_simple_id V, rcl_signer_pub = pa_public_key a, rcl_device_id = pa_public_key a,
       rcl_device_registered = False, rcl_manifest_digest = ''b3:'' @ b64_encode X (segment_hash X (pa_canonical_bytes X a)),
       rcl_chain_tip = ''none'', rcl_timestamp = en_now_rfc3339 V, rcl_kid = km_current_kid (app_keys app),
       rcl_result = \<lparr> er_signature = \<lparr> vx_passed = True, vx_error = None \<rparr>, er_continuity = \<lparr> vx_passed = True, vx_error = None \<rparr>,
         er_metadata = \<lparr> vm_total_segments = 0, vm_verified_segments = 0, vm_chain_tip = ''none'', vm_genesis_hash = ''none'' \<rparr> \<rparr> \<rparr>"

definition verify_attestation_handler ::
  "'x crates_scheme \<Rightarrow> plat \<Rightarrow> AppState \<Rightarrow> req_env \<Rightarrow> string \<Rightarrow> (nat \<times> ValidationError) + VerifyAttestationResponse" where
  "verify_attestation_handler X E app V body =
     res_bind (map_err (\<lambda>_. (400, ve_new ''invalid_attestation'' ''Failed to parse attestation document''))
       (pa_parse (pl_attestation E) body)) (\<lambda>a.
     if pa_format a \<noteq> FORMAT_V1 then Inl (400, ve_new ''invalid_format'' ''Expected format te-point-attestation-v1'')
     else if pa_signature a = None then Inl (400, ve_new ''missing_signature'' ''Attestation document has no signature'')
     else case pa_verify_signature X a (pa_public_key a) of
       Inl _ \<Rightarrow> Inr (attestation_failed ''Cryptographic verification failed'' a)
     | Inr False \<Rightarrow> Inr (attestation_failed ''Signature verification failed'' a)
     | Inr True \<Rightarrow>
         (case sign_receipt_jws (pl_jwt E) (en_timestamp V) (attestation_claims X app V a) (app_keys app) (app_receipt_ttl_secs app) of
            Inl _ \<Rightarrow> Inl (500, ve_new ''receipt_error'' ''Failed to sign receipt'')
          | Inr jws_token \<Rightarrow>
              Inr \<lparr> vt_status = ''verified'', vt_receipt = Some jws_token,
                vt_details = JObj [(''evidence_hash'', JStr (ar_hash (pa_evidence a))), (''format'', JStr (pa_format a)),
                  (''public_key'', JStr (pa_public_key a)), (''signer_registered'', JBool False),
                  (''subject_hash'', JStr (ar_hash (pa_subject a))), (''timestamp'', JStr (pa_timestamp a)),
                  (''trust'', JStr (''self-signed: signature valid for the embedded public key; '' @ ''signer identity not established''))] \<rparr>))"

section \<open>Devices\<close>

record DeviceRequest =
  dq_device_id :: string
  dq_device_pub :: string
  dq_label :: "string option"

record DeviceResponse =
  dp_id :: uuid
  dp_device_id :: string
  dp_device_pub :: string
  dp_label :: "string option"
  dp_status :: string

definition register_device_handler :: "req_env \<Rightarrow> uuid \<Rightarrow> DeviceRequest \<Rightarrow> (nat + DeviceResponse) prog" where
  "register_device_handler V org_id req =
     pbind (change_query (create_device (en_row_id V) org_id (dq_device_id req) (dq_device_pub req) (dq_label req)) (\<lambda>_. 500)) (\<lambda>device_uuid.
     Done (Inr \<lparr> dp_id = device_uuid, dp_device_id = dq_device_id req, dp_device_pub = dq_device_pub req, dp_label = dq_label req,
       dp_status = ''active'' \<rparr>))"

record RevokeRequest =
  rq_revoked_at :: "string option"
  rq_min_epoch :: "u32 option"

record RevokeResponse =
  rr_id :: uuid
  rr_revoked_at :: string
  rr_min_epoch :: "u32 option"

definition revoke_device_handler ::
  "plat \<Rightarrow> req_env \<Rightarrow> uuid \<Rightarrow> uuid \<Rightarrow> RevokeRequest \<Rightarrow> ((nat \<times> string) + RevokeResponse) prog" where
  "revoke_device_handler E V org_id i req =
     pbind (select_query (get_device_revocation org_id i)) (\<lambda>found.
     case found of
       None \<Rightarrow> Done (Inl (404, ''no such device in this organization''))
     | Some (_, current) \<Rightarrow>
         (case decide_revoke (pl_rfc3339 E) current (rq_revoked_at req) (rq_min_epoch req) (en_now_rfc3339 V) of
            RejectRevoke msg \<Rightarrow> Done (Inl (409, msg))
          | Apply revoked_at min_epoch \<Rightarrow>
              pbind (total_query (set_device_revocation org_id i revoked_at min_epoch)) (\<lambda>updated.
              if \<not> updated then Done (Inl (404, ''no such device in this organization''))
              else Done (Inr \<lparr> rr_id = i, rr_revoked_at = revoked_at, rr_min_epoch = min_epoch \<rparr>))))"

section \<open>The witness\<close>

text \<open>The rotation attached to a request: checked, and recorded as the lineage of the new key.\<close>

definition record_lineage ::
  "'x crates_scheme \<Rightarrow> WitnessRequest \<Rightarrow> string \<Rightarrow> ((nat \<times> string) + unit) prog" where
  "record_lineage X req observed_at =
     (case wr_rotation req of
        None \<Rightarrow> Done (Inr ())
      | Some rec \<Rightarrow>
          (case verify_lineage_rotation X rec (wr_device_pub req) (wr_sequence req) (wr_tip req) of
             LineageReject msg \<Rightarrow> Done (Inl (400, ''rotation lineage rejected: '' @ msg))
           | LineageOk old_pub rotation_seq \<Rightarrow>
               pbind (if rotation_seq > 0 then select_query (witness_entry_at old_pub (rotation_seq - 1)) else Done (Inr None)) (\<lambda>predecessor.
               if (case predecessor of Some e \<Rightarrow> wn_tip e \<noteq> rot_prev rec | None \<Rightarrow> False)
               then Done (Inl (409, ''rotation prev_archive_hash does not match the old key'' @ [CHR 0x27] @ ''s witnessed chain''))
               else total_query (\<lambda>d. ((), lineage_insert (wr_device_pub req) old_pub rotation_seq observed_at d)))))"

text \<open>What the decision leads to: the time of observation and the previous entry, after recording a new tip.\<close>

definition apply_decision ::
  "req_env \<Rightarrow> WitnessRequest \<Rightarrow> bool \<Rightarrow> WitnessDecision \<Rightarrow> ((nat \<times> string) + string \<times> WitnessEntry option) prog" where
  "apply_decision V req device_registered decision =
     (case decision of
        Fork existing_tip \<Rightarrow>
          Done (Inl (409, ''fork: sequence '' @ show_nat (unat (wr_sequence req)) @ '' already witnessed with a different tip ('' @ existing_tip @ '')''))
      | Rollback max_sequence \<Rightarrow>
          Done (Inl (409, ''rollback: sequence '' @ show_nat (unat (wr_sequence req)) @ '' is at or below the last witnessed sequence '' @
            show_nat (unat max_sequence)))
      | Replay existing prev \<Rightarrow> Done (Inr (wn_observed_at existing, prev))
      | Record prev \<Rightarrow>
          pbind (change_query (witness_insert (wr_device_pub req) (wr_sequence req) (wr_tip req) (en_now_rfc3339 V) device_registered
              (wr_signed_at req)) (\<lambda>e. (409, ''witness ledger insert conflict: '' @ e))) (\<lambda>_.
          Done (Inr (en_now_rfc3339 V, prev))))"

definition witness_handler ::
  "'x crates_scheme \<Rightarrow> plat \<Rightarrow> AppState \<Rightarrow> req_env \<Rightarrow> WitnessRequest \<Rightarrow> ((nat \<times> string) + string) prog" where
  "witness_handler X E app V req =
     (if \<not> wr_verify X req then Done (Inl (401, ''invalid witness request signature''))
      else
      pbind (select_query (get_device_revocation_by_pub (wr_device_pub req))) (\<lambda>found.
      let (device_registered, revocation) = (case found of Some (_, st) \<Rightarrow> (True, st) | None \<Rightarrow> (False, rev_default)) in
      pbind (select_query (lineage_rotation_seq (wr_device_pub req))) (\<lambda>superseded_seq.
      pbind (select_query (witness_entries (wr_device_pub req))) (\<lambda>existing.
      let decision = decide existing (wr_sequence req) (wr_tip req) in
      if refuse_revoked_witness (is_revoked revocation) decision
      then Done (Inl (403, ''device key is revoked; new chronicle tips are refused''))
      else if refuse_superseded superseded_seq (wr_sequence req) decision
      then Done (Inl (409, ''superseded: this key rotated away at sequence '' @
        show_nat (unat (case superseded_seq of Some n \<Rightarrow> n | None \<Rightarrow> 0)) @ ''; new tips beyond it are refused''))
      else
      pbind (apply_decision V req device_registered decision) (\<lambda>(observed_at, prev).
      pbind (record_lineage X req observed_at) (\<lambda>_.
      let receipt = receipt_build (wr_device_pub req) device_registered (wr_sequence req) (wr_tip req) observed_at prev (en_row_id V) in
      Done (case sign_witness_jws (pl_jwt E) (en_timestamp V) receipt (app_keys app) of
          Inl e \<Rightarrow> Inl (500, ''failed to sign witness receipt: '' @ hd e)
        | Inr jws \<Rightarrow> Inr jws)))))))"

section \<open>Receipts\<close>

record ReceiptResponse =
  rs_id :: uuid
  rs_jws :: string
  rs_kid :: string
  rs_claims :: json

definition get_receipt_handler :: "plat \<Rightarrow> uuid \<Rightarrow> uuid \<Rightarrow> (nat + ReceiptResponse) prog" where
  "get_receipt_handler E org_id receipt_id =
     pbind (select_query (get_receipt org_id receipt_id)) (\<lambda>found.
     case found of
       None \<Rightarrow> Done (Inl 404)
     | Some (jws, kid) \<Rightarrow>
         Done (Inr \<lparr> rs_id = receipt_id, rs_jws = jws, rs_kid = kid,
           rs_claims = (case parse_jws_claims E jws of Some v \<Rightarrow> v | None \<Rightarrow> JNull) \<rparr>))"

section \<open>Routing\<close>

datatype endpoint =
    PostVerify VerifyRequest
  | PostVerifyAttestation string
  | PostWitness WitnessRequest
  | GetJwks
  | PostDevices DeviceRequest
  | PostRevoke uuid RevokeRequest
  | GetReceipt uuid

datatype reply =
    Rejected nat
  | VerifyReply "(nat \<times> ValidationError) + VerifyResponse"
  | AttestationReply "(nat \<times> ValidationError) + VerifyAttestationResponse"
  | WitnessReply "(nat \<times> string) + string"
  | JwksReply json
  | DeviceReply "nat + DeviceResponse"
  | RevokeReply "(nat \<times> string) + RevokeResponse"
  | ReceiptReply "nat + ReceiptResponse"

text \<open>\<open>auth_header\<close> is the Authorization header, when it is present and readable.\<close>

definition auth_middleware :: "'x crates_scheme \<Rightarrow> plat \<Rightarrow> string option \<Rightarrow> (uuid \<Rightarrow> reply prog) \<Rightarrow> reply prog" where
  "auth_middleware X E auth_header next_handler =
     (case auth_header of
        None \<Rightarrow> Done (Rejected 401)
      | Some h \<Rightarrow>
          if \<not> starts_with ''Bearer '' h then Done (Rejected 401)
          else Query (\<lambda>d. (d, case get_org_by_token_hash (hash_token X E (drop 7 h)) d of
              None \<Rightarrow> Done (Rejected 401)
            | Some org_id \<Rightarrow> next_handler org_id)))"

text \<open>
  Only the routes of the protected router pass the authentication layer, so the verify handler, which is outside it, never
  has an organisation. The rate limit and the body limit refuse requests before they reach a handler.
\<close>

definition route ::
  "'x crates_scheme \<Rightarrow> plat \<Rightarrow> AppState \<Rightarrow> req_env \<Rightarrow> string option \<Rightarrow> endpoint \<Rightarrow> reply prog" where
  "route X E app V auth_header ep =
     (case ep of
        PostVerify request \<Rightarrow> map_prog VerifyReply (verify_handler X E app V None request)
      | PostVerifyAttestation body \<Rightarrow> Done (AttestationReply (verify_attestation_handler X E app V body))
      | PostWitness req \<Rightarrow> map_prog WitnessReply (witness_handler X E app V req)
      | GetJwks \<Rightarrow> Done (JwksReply (to_jwks X (pl_web E) (app_keys app)))
      | PostDevices req \<Rightarrow>
          auth_middleware X E auth_header (\<lambda>org_id. map_prog DeviceReply (register_device_handler V org_id req))
      | PostRevoke i req \<Rightarrow>
          auth_middleware X E auth_header (\<lambda>org_id. map_prog RevokeReply (revoke_device_handler E V org_id i req))
      | GetReceipt i \<Rightarrow>
          auth_middleware X E auth_header (\<lambda>org_id. map_prog ReceiptReply (get_receipt_handler E org_id i)))"

end
