(* ===== verification/Platform_Service.thy ===== *)
theory Platform_Service
  imports Platform
begin

text \<open>
  What the platform guarantees when requests are served concurrently: an invariant of every interleaving of the queries of all
  handlers, obtained from one soundness lemma per handler, and the monotonicity of revocation when requests are served one
  after the other.
\<close>

section \<open>The guarantee\<close>

definition backed :: "db \<Rightarrow> string \<Rightarrow> u64 \<Rightarrow> string \<Rightarrow> string \<Rightarrow> bool" where
  "backed d p n t obs \<longleftrightarrow> (\<exists>r \<in> set (witness_log d). wl_pub r = p \<and> wl_seq r = n \<and> wl_tip r = t \<and> wl_observed_at r = obs)"

lemma backed_mono: "backed d p n t obs \<Longrightarrow> grows d d' \<Longrightarrow> backed d' p n t obs"
  by (auto simp: backed_def grows_def dest: set_mono_prefix)

text \<open>No verification is stored for an organisation: the verify route has none.\<close>

definition platform_ok :: "db \<Rightarrow> bool" where
  "platform_ok d \<longleftrightarrow> db_ok d \<and> (\<forall>v \<in> set (verifications d). vf_org v = nil_uuid)"

definition reply_good :: "plat \<Rightarrow> AppState \<Rightarrow> db \<Rightarrow> reply \<Rightarrow> bool" where
  "reply_good E app d r =
     (case r of
        WitnessReply (Inr jws) \<Rightarrow> (\<exists>receipt now. sign_witness_jws (pl_jwt E) now receipt (app_keys app) = Inr jws \<and>
          backed d (rc_device_pub receipt) (rc_sequence receipt) (rc_tip receipt) (rc_observed_at receipt))
      | VerifyReply (Inr resp) \<Rightarrow> (\<forall>jws. vp_receipt resp = Some jws \<longrightarrow> (\<exists>cl now.
          sign_receipt_jws (pl_jwt E) now cl (app_keys app) (app_receipt_ttl_secs app) = Inr jws \<and> \<not> rcl_device_registered cl \<and>
          rcl_result cl = vp_result resp \<and> vx_passed (er_signature (vp_result resp)) \<and> vx_passed (er_continuity (vp_result resp))))
      | ReceiptReply (Inr resp) \<Rightarrow> nil_uuid \<in> ak_org ` set (api_keys d)
      | _ \<Rightarrow> True)"

lemma reply_good_mono: "reply_good E app d r \<Longrightarrow> grows d d' \<Longrightarrow> reply_good E app d' r"
proof (cases r)
  case (WitnessReply x)
  then show "reply_good E app d r \<Longrightarrow> grows d d' \<Longrightarrow> reply_good E app d' r"
    by (cases x) (auto simp: reply_good_def dest: backed_mono)
next
  case (ReceiptReply x)
  then show "reply_good E app d r \<Longrightarrow> grows d d' \<Longrightarrow> reply_good E app d' r"
    by (cases x) (auto simp: reply_good_def grows_def dest!: set_mono_prefix)
qed (auto simp: reply_good_def split: sum.splits)

lemma sound_conseq: "sound ok ext good p d \<Longrightarrow> (\<And>d x. good d x \<Longrightarrow> good' d x) \<Longrightarrow> sound ok ext good' p d"
  by (induction p arbitrary: d) (auto simp: sound_Query)

definition on_ok :: "(db \<Rightarrow> 'a \<Rightarrow> bool) \<Rightarrow> db \<Rightarrow> 'e + 'a \<Rightarrow> bool" where
  "on_ok P d r = (case r of Inl _ \<Rightarrow> True | Inr x \<Rightarrow> P d x)"

lemma on_ok_simps [simp]: "on_ok P d (Inl e)" "on_ok P d (Inr x) = P d x"
  by (simp_all add: on_ok_def)

text \<open>The rules that reduce the soundness of a handler to its steps.\<close>

lemma sound_then:
  assumes "sound ok ext (on_ok Q) p d" "\<And>x d'. Q d' x \<Longrightarrow> sound ok ext good (k x) d'" "\<And>d e. good d (Inl e)"
  shows "sound ok ext good (pbind p k) d"
  by (rule sound_pbind, rule sound_conseq [OF assms(1)]) (use assms(2,3) in \<open>auto split: sum.splits\<close>)

lemma sound_select:
  "(\<And>d'. platform_ok d' \<Longrightarrow> grows d d' \<Longrightarrow> sound platform_ok grows good (k (q d')) d') \<Longrightarrow>
    sound platform_ok grows good (pbind (select_query q) k) d"
  by (rule sound_pbind) (simp add: sound_queries)

lemma sound_total:
  "(\<And>d'. platform_ok d' \<Longrightarrow> grows d d' \<Longrightarrow> platform_ok (snd (t d')) \<and> grows d' (snd (t d')) \<and>
      sound platform_ok grows good (k (fst (t d'))) (snd (t d'))) \<Longrightarrow>
    sound platform_ok grows good (pbind (total_query t) k) d"
  by (rule sound_pbind) (simp add: sound_queries)

lemma sound_change:
  assumes "\<And>d' e. platform_ok d' \<Longrightarrow> grows d d' \<Longrightarrow> c d' = Inl e \<Longrightarrow> good d' (Inl (err e))"
    and "\<And>d' x d''. platform_ok d' \<Longrightarrow> grows d d' \<Longrightarrow> c d' = Inr (x, d'') \<Longrightarrow>
      platform_ok d'' \<and> grows d' d'' \<and> sound platform_ok grows good (k x) d''"
  shows "sound platform_ok grows good (pbind (change_query c err) k) d"
proof (rule sound_pbind, unfold sound_queries, intro allI impI)
  fix d' assume d': "platform_ok d'" "grows d d'"
  show "case c d' of
      Inl e \<Rightarrow> grows d' d' \<and> (case Inl (err e) of Inl e \<Rightarrow> good d' (Inl e) | Inr x \<Rightarrow> sound platform_ok grows good (k x) d')
    | Inr (x, d'') \<Rightarrow> platform_ok d'' \<and> grows d' d'' \<and> (case Inr x of Inl e \<Rightarrow> good d'' (Inl e) | Inr x \<Rightarrow> sound platform_ok grows good (k x) d'')"
  proof (cases "c d'")
    case (Inl e)
    then show ?thesis using assms(1) [OF d' Inl] by simp
  next
    case (Inr y)
    then obtain x d'' where "c d' = Inr (x, d'')" by (cases y) auto
    then show ?thesis using assms(2) [OF d'] by simp
  qed
qed

lemma platform_ok_step: "platform_ok d \<Longrightarrow> db_ok d' \<and> grows d d' \<Longrightarrow> verifications d' = verifications d \<Longrightarrow> platform_ok d'"
  by (simp add: platform_ok_def)

section \<open>The witness handler\<close>

lemma lineage_insert_frame [simp]:
  "verifications (lineage_insert k q s obs d) = verifications d" "backed (lineage_insert k q s obs d) = backed d"
  by (auto simp: lineage_insert_def backed_def fun_eq_iff)

lemma witness_insert_backs:
  "witness_insert p n t obs reg sg d = Inr (u, d') \<Longrightarrow> platform_ok d \<Longrightarrow> platform_ok d' \<and> grows d d' \<and> backed d' p n t obs"
  using witness_insert_step [of p n t obs reg sg d u d']
  by (auto simp: platform_ok_def) (auto simp: witness_insert_def violates_def backed_def split: if_splits)

lemma replay_backed:
  "decide (witness_entries p d) n t = Replay e prev \<Longrightarrow> backed d p n t (wn_observed_at e)"
proof -
  assume "decide (witness_entries p d) n t = Replay e prev"
  then have e: "find (\<lambda>e. wn_sequence e = n) (witness_entries p d) = Some e" "wn_tip e = t" by (simp_all add: decide_replay_iff)
  then have "e \<in> set (witness_entries p d)" "wn_sequence e = n" by (auto simp: find_Some_iff)
  with e(2) show ?thesis by (auto simp: witness_entries_def backed_def entry_of_def)
qed

lemma apply_decision_sound:
  assumes "decision = decide (witness_entries (wr_device_pub req) d0) (wr_sequence req) (wr_tip req)" "grows d0 d"
  shows "sound platform_ok grows (on_ok (\<lambda>d r. backed d (wr_device_pub req) (wr_sequence req) (wr_tip req) (fst r)))
    (apply_decision V req reg decision) d"
proof (cases decision)
  case (Replay e prev)
  then have "backed d0 (wr_device_pub req) (wr_sequence req) (wr_tip req) (wn_observed_at e)"
    unfolding assms(1) by (rule replay_backed)
  with backed_mono [OF _ assms(2)] show ?thesis by (simp add: apply_decision_def Replay)
next
  case (Record prev)
  show ?thesis unfolding Record apply_decision_def WitnessDecision.case
    by (rule sound_change) (use witness_insert_backs in auto)
qed (simp_all add: apply_decision_def)

lemma record_lineage_sound:
  assumes "backed d p n t obs"
  shows "sound platform_ok grows (on_ok (\<lambda>d _. backed d p n t obs)) (record_lineage X req obs') d"
proof -
  have ins: "sound platform_ok grows (on_ok (\<lambda>d _. backed d p n t obs)) (total_query (\<lambda>d. ((), lineage_insert k q s obs' d)) :: ((nat \<times> string) + unit) prog) d'"
    if "backed d' p n t obs" for d' k q s
    unfolding sound_queries fst_conv snd_conv on_ok_simps
  proof (intro allI impI conjI)
    fix e assume e: "platform_ok e" "grows d' e"
    note step = lineage_insert_step [of e k q s obs']
    show "platform_ok (lineage_insert k q s obs' e)" "grows e (lineage_insert k q s obs' e)"
      using e(1) step by (auto simp: platform_ok_def)
    show "backed (lineage_insert k q s obs' e) p n t obs" using backed_mono [OF that e(2)] by simp
  qed
  have "sound platform_ok grows (on_ok (\<lambda>d _. backed d p n t obs)) (if b then Done (Inl x) else total_query (\<lambda>d. ((), lineage_insert k q s obs' d)) :: ((nat \<times> string) + unit) prog) d'"
    if "backed d' p n t obs" for d' k q s b x using ins [OF that] by simp
  note step = this [OF backed_mono [OF assms]]
  show ?thesis
  proof (cases "wr_rotation req")
    case (Some rec)
    show ?thesis
    proof (cases "verify_lineage_rotation X rec (wr_device_pub req) (wr_sequence req) (wr_tip req)")
      case (LineageOk old_pub rotation_seq)
      show ?thesis unfolding record_lineage_def Some option.case LineageOk LineageCheck.case
        by (cases "rotation_seq > 0"; simp only: if_True if_False) (rule sound_select, rule step, assumption, simp add: ins [OF assms])
    qed (simp add: record_lineage_def Some)
  qed (use assms in \<open>simp add: record_lineage_def\<close>)
qed

definition receipt_signed :: "plat \<Rightarrow> AppState \<Rightarrow> db \<Rightarrow> string \<Rightarrow> bool" where
  "receipt_signed E app d jws \<longleftrightarrow> (\<exists>receipt now. sign_witness_jws (pl_jwt E) now receipt (app_keys app) = Inr jws \<and>
     backed d (rc_device_pub receipt) (rc_sequence receipt) (rc_tip receipt) (rc_observed_at receipt))"

lemma witness_handler_sound: "sound platform_ok grows (on_ok (receipt_signed E app)) (witness_handler X E app V req) d"
proof (cases "wr_verify X req")
  case True
  have fin: "on_ok (receipt_signed E app) d' (case sign_witness_jws (pl_jwt E) (en_timestamp V)
      (receipt_build (wr_device_pub req) reg (wr_sequence req) (wr_tip req) obs prev (en_row_id V)) (app_keys app) of
        Inl e \<Rightarrow> Inl (500, ''failed to sign witness receipt: '' @ hd e) | Inr jws \<Rightarrow> Inr jws)"
    if "backed d' (wr_device_pub req) (wr_sequence req) (wr_tip req) obs" for d' reg obs prev
    using that by (auto simp: receipt_signed_def receipt_build_def split: sum.splits)
  have tail: "sound platform_ok grows (on_ok (receipt_signed E app))
      (pbind (apply_decision V req reg (decide (witness_entries (wr_device_pub req) d') (wr_sequence req) (wr_tip req))) (\<lambda>(obs, prev).
       pbind (record_lineage X req obs) (\<lambda>_.
       let receipt = receipt_build (wr_device_pub req) reg (wr_sequence req) (wr_tip req) obs prev (en_row_id V) in
       Done (case sign_witness_jws (pl_jwt E) (en_timestamp V) receipt (app_keys app) of
         Inl e \<Rightarrow> Inl (500, ''failed to sign witness receipt: '' @ hd e) | Inr jws \<Rightarrow> Inr jws)))) d'" for d' reg
    unfolding Let_def
  proof (rule sound_then [OF apply_decision_sound [OF refl grows_refl]], unfold split_beta, rule sound_then [OF record_lineage_sound])
  qed (auto intro: fin)
  show ?thesis
    unfolding witness_handler_def Let_def if_not_P [OF iffD2 [OF not_not, OF True]] case_prod_beta'
    by (intro sound_select) (use tail [unfolded Let_def case_prod_beta'] in simp)
qed (simp add: witness_handler_def)

section \<open>The other handlers\<close>

definition receipt_honest :: "plat \<Rightarrow> AppState \<Rightarrow> EngineReport \<Rightarrow> string option \<Rightarrow> bool" where
  "receipt_honest E app report receipt \<longleftrightarrow> (\<forall>jws. receipt = Some jws \<longrightarrow> (\<exists>cl now.
     sign_receipt_jws (pl_jwt E) now cl (app_keys app) (app_receipt_ttl_secs app) = Inr jws \<and> \<not> rcl_device_registered cl \<and>
     rcl_result cl = report \<and> vx_passed (er_signature report) \<and> vx_passed (er_continuity report)))"

lemma issue_receipt_sound:
  "sound platform_ok grows (on_ok (\<lambda>d r. receipt_honest E app report (fst r))) (issue_receipt X E app V request report False vid) d"
proof (cases "vo_return_receipt (vq_options request) \<and> vx_passed (er_signature report) \<and> vx_passed (er_continuity report)")
  case True
  define cl where "cl = receipt_from_report (en_simple_id V) report (compute_manifest_digest_blake3 X E (vq_manifest request))
    (vq_device_pub request) (case vo_device_id (vq_options request) of Some s \<Rightarrow> s | None \<Rightarrow> ''unknown_device'') False
    (km_current_kid (app_keys app)) (en_now_rfc3339 V) (vm_chain_tip (er_metadata report))"
  have cl: "\<not> rcl_device_registered cl" "rcl_result cl = report" by (simp_all add: cl_def receipt_from_report_def)
  show ?thesis
  proof (cases "sign_receipt_jws (pl_jwt E) (en_timestamp V) cl (app_keys app) (app_receipt_ttl_secs app)")
    case (Inr jws)
    then have h: "receipt_honest E app report (Some jws)" using cl True unfolding receipt_honest_def by blast
    have run: "issue_receipt X E app V request report False vid =
        total_query (\<lambda>d. case create_receipt (en_receipt_id V) vid jws (km_current_kid (app_keys app)) d of
          Inr (rid, d') \<Rightarrow> ((Some jws, Some rid), d') | Inl _ \<Rightarrow> ((Some jws, None), d))"
      using True Inr by (simp add: issue_receipt_def Let_def cl_def [symmetric])
    have "platform_ok d'' \<and> grows d' d''" if "create_receipt i v j k d' = Inr (x, d'')" "platform_ok d'" for d' d'' i v j k x
      using create_receipt_step [OF that(1)] that by (auto simp: platform_ok_def create_receipt_def violates_def violates_fk_def split: if_splits)
    with h show ?thesis unfolding run sound_queries by (auto split: sum.splits)
  qed (use True in \<open>simp add: issue_receipt_def Let_def cl_def [symmetric]\<close>)
qed (auto simp: issue_receipt_def receipt_honest_def)

lemma enforce_min_epoch_sound: "sound platform_ok grows (on_ok (\<lambda>_ _. True)) (enforce_min_epoch request) d"
  unfolding enforce_min_epoch_def by (intro sound_select) (simp split: option.splits prod.splits)

lemma verify_handler_sound:
  "sound platform_ok grows (on_ok (\<lambda>d r. receipt_honest E app (vp_result r) (vp_receipt r))) (verify_handler X E app V None request) d"
proof -
  have b: "bind_device None request = Done (Inr (None, False))"
    by (simp add: bind_device_def split: option.splits)
  have ins: "platform_ok d'' \<and> grows d' d''" if "create_verification i nil_uuid v j k d' = Inr (x, d'')" "platform_ok d'" for d' d'' i v j k x
    using create_verification_step [OF that(1)] that
    by (auto simp: platform_ok_def create_verification_def violates_def violates_fk_def split: if_splits)
  have fin: "sound platform_ok grows (on_ok (\<lambda>d r. receipt_honest E app (vp_result r) (vp_receipt r)))
      (pbind (issue_receipt X E app V request report False vid) (\<lambda>(receipt, receipt_id).
        Done (Inr \<lparr> vp_verification_id = (case receipt_id of Some rid \<Rightarrow> vid @ ''/'' @ rid | None \<Rightarrow> vid),
          vp_result = report, vp_receipt = receipt \<rparr>))) d'" for d' vid report
    by (rule sound_then [OF issue_receipt_sound]) (auto simp: split_beta)
  show ?thesis
  proof (cases "validate_verify_request_full request")
    case (Inr u)
    show ?thesis
    proof (cases "verify_to_report X (pl_manifest E) (vq_manifest request) (vq_segments request) (vq_device_pub request)")
      case (Inr report)
      show ?thesis
        unfolding verify_handler_def \<open>validate_verify_request_full request = Inr u\<close> sum.case b pbind.simps(1) split Inr option.case
        by (rule sound_then [OF enforce_min_epoch_sound], rule sound_change) (use ins fin in auto)
    next
      case (Inl e)
      show ?thesis
        unfolding verify_handler_def \<open>validate_verify_request_full request = Inr u\<close> sum.case b pbind.simps(1) split Inl
        by (rule sound_then [OF enforce_min_epoch_sound]) simp_all
    qed
  qed (simp add: verify_handler_def)
qed

lemma register_sound: "sound platform_ok grows (\<lambda>_ _. True) (register_device_handler V org_id req) d"
proof -
  have "platform_ok d'' \<and> grows d' d''" if "create_device i o' v j k d' = Inr (x, d'')" "platform_ok d'" for d' d'' i o' v j k x
    using create_device_step [OF that(1)] that by (auto simp: platform_ok_def create_device_def violates_def violates_fk_def split: if_splits)
  then show ?thesis unfolding register_device_handler_def by (intro sound_change) auto
qed

lemma revoke_sound: "sound platform_ok grows (\<lambda>_ _. True) (revoke_device_handler E V org_id i req) d"
proof -
  have "platform_ok (snd (set_device_revocation o' i at e d')) \<and> grows d' (snd (set_device_revocation o' i at e d'))" if "platform_ok d'" for d' o' i at e
    using set_device_revocation_step [of d' o' i at e] that by (auto simp: platform_ok_def set_device_revocation_def)
  then show ?thesis
    unfolding revoke_device_handler_def
    by (intro sound_select) (auto split: option.splits RevokeOutcome.splits intro!: sound_total)
qed

lemma find_SomeD: "find P xs = Some x \<Longrightarrow> x \<in> set xs \<and> P x"
  by (auto simp: find_Some_iff)

lemma no_receipts: "platform_ok d \<Longrightarrow> get_receipt org_id i d = Some r \<Longrightarrow> org_id = nil_uuid"
  by (auto simp: get_receipt_def platform_ok_def dest!: find_SomeD)

lemma get_receipt_sound:
  "sound platform_ok grows (on_ok (\<lambda>_ _. org_id = nil_uuid)) (get_receipt_handler E org_id i) d"
  unfolding get_receipt_handler_def by (intro sound_select) (auto split: option.splits dest: no_receipts)

section \<open>The service\<close>

definition served :: "'x crates_scheme \<Rightarrow> plat \<Rightarrow> AppState \<Rightarrow> reply prog \<Rightarrow> bool" where
  "served X E app p \<longleftrightarrow> (\<exists>V auth_header ep. p = route X E app V auth_header ep)"

lemma sound_authenticated:
  assumes "\<And>org_id d'. org_id \<in> ak_org ` set (api_keys d') \<Longrightarrow> sound platform_ok grows (reply_good E app) (k org_id) d'"
  shows "sound platform_ok grows (reply_good E app) (auth_middleware X E auth_header k) d"
proof -
  have "sound platform_ok grows (reply_good E app)
      (case get_org_by_token_hash h d' of None \<Rightarrow> Done (Rejected 401) | Some org_id \<Rightarrow> k org_id) d'" for h d'
    using assms [of _ d'] by (auto simp: get_org_by_token_hash_def find_Some_iff reply_good_def split: option.splits)
  then show ?thesis by (auto simp: auth_middleware_def sound_Query reply_good_def split: option.splits)
qed

lemma route_sound: "sound platform_ok grows (reply_good E app) (route X E app V auth_header ep) d"
proof (cases ep)
  case (PostVerify request)
  show ?thesis unfolding route_def PostVerify endpoint.case sound_map
    by (rule sound_conseq [OF verify_handler_sound]) (auto simp: reply_good_def receipt_honest_def split: sum.splits)
next
  case (PostWitness req)
  show ?thesis unfolding route_def PostWitness endpoint.case sound_map
    by (rule sound_conseq [OF witness_handler_sound]) (auto simp: reply_good_def receipt_signed_def split: sum.splits)
next
  case (PostDevices req)
  show ?thesis unfolding route_def PostDevices endpoint.case
    by (rule sound_authenticated, unfold sound_map, rule sound_conseq [OF register_sound]) (simp add: reply_good_def)
next
  case (PostRevoke i req)
  show ?thesis unfolding route_def PostRevoke endpoint.case
    by (rule sound_authenticated, unfold sound_map, rule sound_conseq [OF revoke_sound]) (simp add: reply_good_def)
next
  case (GetReceipt i)
  have "sound platform_ok grows (reply_good E app) (map_prog ReceiptReply (get_receipt_handler E org_id i)) d'"
    if "org_id \<in> ak_org ` set (api_keys d')" for org_id d'
    unfolding sound_map get_receipt_handler_def
  proof (intro sound_select)
    fix e assume e: "platform_ok e" "grows d' e"
    then have "set (api_keys d') \<subseteq> set (api_keys e)" by (auto simp: grows_def dest: set_mono_prefix)
    then show "sound platform_ok grows (\<lambda>d x. reply_good E app d (ReceiptReply x)) (case get_receipt org_id i e of None \<Rightarrow> Done (Inl 404)
       | Some (jws, kid) \<Rightarrow> Done (Inr \<lparr> rs_id = i, rs_jws = jws, rs_kid = kid,
           rs_claims = (case parse_jws_claims E jws of Some v \<Rightarrow> v | None \<Rightarrow> JNull) \<rparr>)) e"
      using that no_receipts [OF e(1), of org_id i] by (force simp: reply_good_def split: option.splits)
  qed
  then show ?thesis unfolding route_def GetReceipt endpoint.case by (rule sound_authenticated)
qed (simp_all add: route_def reply_good_def)

interpretation service: guarantee platform_ok grows "reply_good E app" "served X E app" for X E app
  by unfold_locales (auto intro: grows_refl grows_trans reply_good_mono simp: served_def route_sound)

definition server_start :: "'a server \<Rightarrow> bool" where
  "server_start s \<longleftrightarrow> platform_ok (sv_db s) \<and> sv_running s = [] \<and> sv_replies s = []"

lemma service_reachable:
  assumes "server_start s" "(serve (served X E app))\<^sup>*\<^sup>* s t"
  shows "platform_ok (sv_db t)" "grows (sv_db s) (sv_db t)" "r \<in> set (sv_replies t) \<Longrightarrow> reply_good E app (sv_db t) r"
proof -
  have "service.server_inv E app s" using assms(1) by (simp add: server_start_def service.server_inv_def)
  from service.serve_reachable [OF assms(2) this]
  show "platform_ok (sv_db t)" "grows (sv_db s) (sv_db t)" "r \<in> set (sv_replies t) \<Longrightarrow> reply_good E app (sv_db t) r"
    by (auto simp: service.server_inv_def)
qed

section \<open>The witness does not equivocate\<close>

lemma backed_unique: "platform_ok d \<Longrightarrow> backed d p n t obs \<Longrightarrow> backed d p n t' obs' \<Longrightarrow> t = t' \<and> obs = obs'"
proof -
  assume "platform_ok d" "backed d p n t obs" "backed d p n t' obs'"
  then obtain r r' where r: "r \<in> set (witness_log d)" "r' \<in> set (witness_log d)" "(wl_pub r, wl_seq r) = (wl_pub r', wl_seq r')"
      "wl_tip r = t" "wl_tip r' = t'" "wl_observed_at r = obs" "wl_observed_at r' = obs'"
    and "inj_on (\<lambda>r. (wl_pub r, wl_seq r)) (set (witness_log d))"
    by (auto simp: platform_ok_def db_ok_def unique_keys_def backed_def distinct_map)
  with inj_onD have "r = r'" by fastforce
  with r show ?thesis by simp
qed

text \<open>
  C3: however the queries of concurrent requests interleave, every witness receipt the platform has returned is accepted by the
  offline verifier of the command line under the served key set, each states a row of the ledger, two that state the same
  device and sequence state the same tip, and rows are never removed from the ledger.
\<close>

theorem witness_no_equivocation:
  assumes "ed_ok X" "b64_ok X" "b64u_ok (pl_web E)" "jwt_ok X (pl_web E) (pl_jwt E)" "length (km_current_key (app_keys app)) = 32"
    and jwks: "json_parse (pl_web E) (str_bytes text) = Inr (to_jwks X (pl_web E) (app_keys app))"
    and start: "server_start s" and reach: "(serve (served X E app))\<^sup>*\<^sup>* s t"
    and replies: "WitnessReply (Inr jws) \<in> set (sv_replies t)" "WitnessReply (Inr jws') \<in> set (sv_replies t)"
  shows "\<exists>dev n tip dev' n' tip'. verify_witness_receipt_jws X (pl_web E) jws text = Inr (dev, n, tip) \<and>
    verify_witness_receipt_jws X (pl_web E) jws' text = Inr (dev', n', tip') \<and>
    (\<exists>obs. backed (sv_db t) dev n tip obs) \<and> (dev' = dev \<and> n' = n \<longrightarrow> tip' = tip) \<and>
    prefix (witness_log (sv_db s)) (witness_log (sv_db t))"
proof -
  note inv = service_reachable [OF start reach]
  have "\<exists>dev n tip obs. verify_witness_receipt_jws X (pl_web E) j text = Inr (dev, n, tip) \<and> backed (sv_db t) dev n tip obs"
    if "WitnessReply (Inr j) \<in> set (sv_replies t)" for j
  proof -
    from inv(3) [OF that] obtain r now where r: "sign_witness_jws (pl_jwt E) now r (app_keys app) = Inr j"
      "backed (sv_db t) (rc_device_pub r) (rc_sequence r) (rc_tip r) (rc_observed_at r)" by (auto simp: reply_good_def)
    from receipt_verifies(1) [OF assms(1-5) r(1) jwks] r(2) show ?thesis by (auto simp: jwks_key_def)
  qed
  from this [OF replies(1)] this [OF replies(2)] backed_unique [OF inv(1)] inv(2) show ?thesis
    unfolding grows_def by blast
qed

text \<open>
  C30: the receipts of the verify endpoint. Its route carries no organisation, so in every interleaving each receipt it returned
  was signed for a passing result with the device marked as unregistered, and unless the nil organisation itself has an API key
  no receipt can be fetched back.
\<close>

theorem verify_receipts_unregistered:
  assumes start: "server_start s" and reach: "(serve (served X E app))\<^sup>*\<^sup>* s t"
  shows "(VerifyReply (Inr resp) \<in> set (sv_replies t) \<and> vp_receipt resp = Some jws \<longrightarrow>
      (\<exists>cl now. sign_receipt_jws (pl_jwt E) now cl (app_keys app) (app_receipt_ttl_secs app) = Inr jws \<and>
        \<not> rcl_device_registered cl \<and> rcl_result cl = vp_result resp \<and>
        vx_passed (er_signature (vp_result resp)) \<and> vx_passed (er_continuity (vp_result resp)))) \<and>
    (nil_uuid \<notin> ak_org ` set (api_keys (sv_db t)) \<longrightarrow> ReceiptReply (Inr found) \<notin> set (sv_replies t))"
  using service_reachable(3) [OF start reach, of "VerifyReply (Inr resp)"] service_reachable(3) [OF start reach, of "ReceiptReply (Inr found)"]
  by (auto simp: reply_good_def)

section \<open>Revocation only tightens, one request at a time\<close>

definition not_later :: "(string \<Rightarrow> int option) \<Rightarrow> string \<Rightarrow> string \<Rightarrow> bool" where
  "not_later rfc3339 r c \<longleftrightarrow> r = c \<or> (\<exists>cd rd. rfc3339 c = Some cd \<and> rfc3339 r = Some rd \<and> rd \<le> cd)"

definition tighter :: "(string \<Rightarrow> int option) \<Rightarrow> RevocationState \<Rightarrow> RevocationState \<Rightarrow> bool" where
  "tighter rfc3339 a b \<longleftrightarrow>
     (\<forall>c. rv_revoked_at a = Some c \<longrightarrow> (\<exists>r. rv_revoked_at b = Some r \<and> not_later rfc3339 r c)) \<and>
     (\<forall>e. epoch_allowed (rv_min_epoch b) e \<longrightarrow> epoch_allowed (rv_min_epoch a) e)"

definition tightens :: "(string \<Rightarrow> int option) \<Rightarrow> db \<Rightarrow> db \<Rightarrow> bool" where
  "tightens rfc3339 d d' \<longleftrightarrow> length (devices d) \<le> length (devices d') \<and>
     (\<forall>i < length (devices d). device_ident (devices d' ! i) = device_ident (devices d ! i) \<and>
        tighter rfc3339 (rev_state (devices d ! i)) (rev_state (devices d' ! i)))"

lemma not_later_trans: "not_later T s r \<Longrightarrow> not_later T r c \<Longrightarrow> not_later T s c"
  by (auto simp: not_later_def)

lemma tighter_refl [simp]: "tighter T a a" by (simp add: tighter_def not_later_def)

lemma tighter_trans: "tighter T a b \<Longrightarrow> tighter T b c \<Longrightarrow> tighter T a c"
  unfolding tighter_def using not_later_trans by blast

lemma tightens_refl: "reflp (tightens T)" by (simp add: reflp_def tightens_def)

lemma tightens_trans: "transp (tightens T)"
proof (rule transpI)
  fix x y z assume xy: "tightens T x y" and yz: "tightens T y z"
  show "tightens T x z" unfolding tightens_def
  proof (intro conjI allI impI)
    show "length (devices x) \<le> length (devices z)" using xy yz by (simp add: tightens_def)
    fix i assume "i < length (devices x)"
    with xy yz have xy: "device_ident (devices y ! i) = device_ident (devices x ! i)" "tighter T (rev_state (devices x ! i)) (rev_state (devices y ! i))"
      and yz: "device_ident (devices z ! i) = device_ident (devices y ! i)" "tighter T (rev_state (devices y ! i)) (rev_state (devices z ! i))"
      by (simp_all add: tightens_def)
    from tighter_trans [OF xy(2) yz(2)] show "tighter T (rev_state (devices x ! i)) (rev_state (devices z ! i))" .
    from xy(1) yz(1) show "device_ident (devices z ! i) = device_ident (devices x ! i)" by simp
  qed
qed

lemma tightens_devices: "prefix (devices d) (devices d') \<Longrightarrow> tightens T d d'"
  by (auto simp: tightens_def prefix_def nth_append)

lemma tightens_steps:
  "create_device i org_id dev pub lab d = Inr (r, d') \<Longrightarrow> tightens T d d'"
  "create_verification i org_id' dev' dg res d = Inr (r', d') \<Longrightarrow> tightens T d d'"
  "create_receipt i v jws kid d = Inr (r'', d') \<Longrightarrow> tightens T d d'"
  "witness_insert p n t obs reg sg d = Inr (u, d') \<Longrightarrow> tightens T d d'"
  "tightens T d (lineage_insert p q m obs d)"
  by (auto simp: create_device_def create_verification_def create_receipt_def witness_insert_def lineage_insert_def violates_def
      violates_fk_def intro!: tightens_devices split: if_splits option.splits)

lemmas tightens_queries = within_queries(2) within_queries(1,3) [OF tightens_refl]

lemma handlers_within:
  "within (tightens T) (verify_handler X E app V org_ctx request)"
  "within (tightens T) (witness_handler X E app V req)"
  "within (tightens T) (register_device_handler V org_id dreq)"
  "within (tightens T) (get_receipt_handler E org_id i)"
proof -
  note q = tightens_queries tightens_steps reflpD [OF tightens_refl]
  have "within (tightens T) (bind_device org_ctx request)" "within (tightens T) (enforce_min_epoch request)"
    "within (tightens T) (issue_receipt X E app V request report reg vid)" for report reg vid
    by (auto simp: bind_device_def enforce_min_epoch_def issue_receipt_def Let_def q intro!: within_pbind split: option.splits sum.splits)
  then show "within (tightens T) (verify_handler X E app V org_ctx request)"
    by (auto simp: verify_handler_def q intro!: within_pbind split: option.splits sum.splits)
  have "within (tightens T) (record_lineage X req obs)" "within (tightens T) (apply_decision V req reg dec)" for obs reg dec
    by (auto simp: record_lineage_def apply_decision_def q intro!: within_pbind split: option.splits LineageCheck.splits WitnessDecision.splits)
  then show "within (tightens T) (witness_handler X E app V req)"
    by (auto simp: witness_handler_def Let_def q intro!: within_pbind split: option.splits sum.splits)
  show "within (tightens T) (register_device_handler V org_id dreq)" "within (tightens T) (get_receipt_handler E org_id i)"
    by (auto simp: register_device_handler_def get_receipt_handler_def q intro!: within_pbind split: option.splits)
qed

lemma decide_revoke_tighter:
  "decide_revoke T st at e now = Apply at' e' \<Longrightarrow> tighter T st \<lparr> rv_revoked_at = Some at', rv_min_epoch = e' \<rparr>"
  using new_revoked_at_monotone [of T "rv_revoked_at st" at now] new_min_epoch_monotone [of "rv_min_epoch st" e]
  by (auto simp: decide_revoke_def tighter_def not_later_def split: sum.splits option.splits)

lemma revoke_tightens:
  assumes "platform_ok d"
  shows "tightens (pl_rfc3339 E) d (snd (run (revoke_device_handler E V org_id i req) d))"
proof (cases "get_device_revocation org_id i d")
  case None
  then show ?thesis by (simp add: revoke_device_handler_def run_pbind reflpD [OF tightens_refl])
next
  case (Some found)
  then obtain r where r: "r \<in> set (devices d)" "dv_id r = i" "dv_org r = org_id" "found = (dv_pub r, rev_state r)"
    by (auto simp: get_device_revocation_def dest!: find_SomeD)
  have one: "r' = r" if "r' \<in> set (devices d)" "dv_id r' = i" for r'
    using assms that r(1,2) by (auto simp: platform_ok_def db_ok_def unique_keys_def distinct_map dest: inj_onD)
  show ?thesis
  proof (cases "decide_revoke (pl_rfc3339 E) (rev_state r) (rq_revoked_at req) (rq_min_epoch req) (en_now_rfc3339 V)")
    case (Apply at e)
    let ?d = "snd (set_device_revocation org_id i at e d)"
    have "tightens (pl_rfc3339 E) d ?d" unfolding tightens_def
    proof (intro conjI allI impI)
      fix k assume k: "k < length (devices d)"
      then have "devices d ! k = r" if "dv_id (devices d ! k) = i" using one that by simp
      with k show "device_ident (devices ?d ! k) = device_ident (devices d ! k)"
          "tighter (pl_rfc3339 E) (rev_state (devices d ! k)) (rev_state (devices ?d ! k))"
        using decide_revoke_tighter [OF Apply] by (auto simp: set_device_revocation_def device_ident_def rev_state_def)
    qed (simp add: set_device_revocation_def)
    then show ?thesis by (simp add: revoke_device_handler_def run_pbind Some r(4) Apply split: prod.splits)
  qed (simp add: revoke_device_handler_def run_pbind Some r(4) reflpD [OF tightens_refl])
qed

lemma route_tightens:
  assumes "platform_ok d"
  shows "tightens (pl_rfc3339 E) d (snd (run (route X E app V auth_header ep) d))"
proof -
  have auth: "tightens (pl_rfc3339 E) d (snd (run (auth_middleware X E auth_header k) d))"
    if "\<And>org_id. tightens (pl_rfc3339 E) d (snd (run (k org_id) d))" for k
    using that by (auto simp: auth_middleware_def run_Query reflpD [OF tightens_refl] split: option.splits)
  note w = handlers_within [THEN within_run, OF tightens_refl tightens_trans]
  show ?thesis
    by (cases ep) (auto simp: route_def run_map reflpD [OF tightens_refl] intro!: auth w revoke_tightens [OF assms])
qed

text \<open>Requests served one after the other.\<close>

primrec serial :: "'a prog list \<Rightarrow> db \<Rightarrow> 'a list \<times> db" where
  "serial [] d = ([], d)"
| "serial (p # ps) d = (case run p d of (x, d') \<Rightarrow> map_prod ((#) x) id (serial ps d'))"

text \<open>
  C15: revocation is monotone as long as requests do not overlap. After any sequence of requests served one by one, every device
  row is still there with its identity, a key that was revoked still is, from an instant not later than before, and every key
  epoch the row accepts was accepted before.
\<close>

theorem revocation_monotone:
  assumes "platform_ok d" "\<And>p. p \<in> set ps \<Longrightarrow> served X E app p"
  shows "platform_ok (snd (serial ps d)) \<and> tightens (pl_rfc3339 E) d (snd (serial ps d))"
  using assms
proof (induction ps arbitrary: d)
  case Nil
  then show ?case by (simp add: reflpD [OF tightens_refl])
next
  case (Cons p ps)
  obtain x d' where d': "run p d = (x, d')" by force
  obtain V auth_header ep where p: "p = route X E app V auth_header ep" using Cons.prems(2) [of p] by (auto simp: served_def)
  have "platform_ok d'" using service.run_sound [OF _ Cons.prems(1) d'] route_sound p by blast
  moreover have "tightens (pl_rfc3339 E) d d'" using route_tightens [OF Cons.prems(1), of E X app V auth_header ep] p d' by simp
  ultimately show ?case using Cons.IH [of d'] Cons.prems(2) d' transpD [OF tightens_trans] by (auto simp: case_prod_beta)
qed

section \<open>Two overlapping requests\<close>

text \<open>A schedule: each number lets that request execute its next query, or reply.\<close>

definition advance :: "'a prog \<Rightarrow> db \<Rightarrow> db \<times> 'a prog" where
  "advance p d = (case p of Done x \<Rightarrow> (d, Done x) | Query f \<Rightarrow> f d)"

definition turn :: "nat \<Rightarrow> 'a server \<Rightarrow> 'a server" where
  "turn i s = (if i < length (sv_running s)
     then (case sv_running s ! i of
         Done x \<Rightarrow> s\<lparr> sv_running := take i (sv_running s) @ drop (Suc i) (sv_running s), sv_replies := sv_replies s @ [x] \<rparr>
       | Query f \<Rightarrow> s\<lparr> sv_db := fst (f (sv_db s)), sv_running := (sv_running s)[i := snd (f (sv_db s))] \<rparr>)
     else s)"

lemma turn_simps:
  "i < length ps \<Longrightarrow> (\<And>x. ps ! i \<noteq> Done x) \<Longrightarrow> turn i \<lparr> sv_db = d, sv_running = ps, sv_replies = rs \<rparr> =
     (case advance (ps ! i) d of (d', p) \<Rightarrow> \<lparr> sv_db = d', sv_running = ps[i := p], sv_replies = rs \<rparr>)"
  "turn 0 \<lparr> sv_db = d, sv_running = Done x # ps, sv_replies = rs \<rparr> = \<lparr> sv_db = d, sv_running = ps, sv_replies = rs @ [x] \<rparr>"
  by (auto simp: turn_def advance_def case_prod_beta split: prog.splits)

lemma turns_serve: "(serve handled)\<^sup>*\<^sup>* s (fold turn is s)"
proof (induction "is" arbitrary: s)
  case (Cons i xs)
  have "(serve handled)\<^sup>*\<^sup>* s (turn i s)"
    by (cases "sv_running s ! i") (auto simp: turn_def intro!: r_into_rtranclp serve.intros)
  with Cons.IH [of "turn i s"] show ?case by simp
qed simp

lemma submit_all:
  "(\<And>p. p \<in> set ps \<Longrightarrow> handled p) \<Longrightarrow> (serve handled)\<^sup>*\<^sup>* s (s\<lparr> sv_running := sv_running s @ ps \<rparr>)"
proof (induction ps arbitrary: s)
  case (Cons p ps)
  from Cons.prems have "serve handled s (s\<lparr> sv_running := sv_running s @ [p] \<rparr>)" by (intro submit) simp
  with Cons.IH [of "s\<lparr> sv_running := sv_running s @ [p] \<rparr>"] Cons.prems show ?case by (auto intro: converse_rtranclp_into_rtranclp)
qed simp

lemma schedule_serves:
  assumes "\<And>p. p \<in> set ps \<Longrightarrow> handled p"
  shows "(serve handled)\<^sup>*\<^sup>* \<lparr> sv_db = d, sv_running = [], sv_replies = [] \<rparr> (fold turn is \<lparr> sv_db = d, sv_running = ps, sv_replies = [] \<rparr>)"
proof -
  have "(serve handled)\<^sup>*\<^sup>* \<lparr> sv_db = d, sv_running = [], sv_replies = [] \<rparr> \<lparr> sv_db = d, sv_running = ps, sv_replies = [] \<rparr>"
    using submit_all [of ps handled "\<lparr> sv_db = d, sv_running = [], sv_replies = [] \<rparr>"] assms by simp
  then show ?thesis using turns_serve by (rule rtranclp_trans)
qed

definition race_db :: "'x crates_scheme \<Rightarrow> plat \<Rightarrow> string option \<Rightarrow> string \<Rightarrow> u32 option \<Rightarrow> db" where
  "race_db X E at status floor = db_initial\<lparr> organizations := organizations db_initial @ [\<lparr> og_id = ''o'', og_name = ''org'', og_plan = ''free'' \<rparr>],
     api_keys := [\<lparr> ak_id = ''k'', ak_org = ''o'', ak_hash = hash_token X E ''token'' \<rparr>],
     devices := [\<lparr> dv_id = ''i'', dv_org = ''o'', dv_device_id = ''cam'', dv_pub = ''ed25519:k'', dv_label = None, dv_status = status,
       dv_revoked_at = at, dv_min_epoch = floor \<rparr>] \<rparr>"

definition race_env :: req_env where
  "race_env = \<lparr> en_now_rfc3339 = ''t0'', en_timestamp = 7, en_row_id = ''j'', en_receipt_id = ''r'', en_simple_id = ''s'' \<rparr>"

definition revoke_epoch :: "'x crates_scheme \<Rightarrow> plat \<Rightarrow> AppState \<Rightarrow> u32 \<Rightarrow> reply prog" where
  "revoke_epoch X E app e = route X E app race_env (Some ''Bearer token'') (PostRevoke ''i'' \<lparr> rq_revoked_at = None, rq_min_epoch = Some e \<rparr>)"

text \<open>The three queries of such a request, the last of which may come after the other request wrote.\<close>

lemma revoke_epoch_steps:
  fixes X :: "'x crates_scheme" and E :: plat and app :: AppState
  defines "d0 \<equiv> race_db X E None ''active'' None"
  obtains Q W where "\<And>e x. revoke_epoch X E app e \<noteq> Done x" "\<And>e x. Q e \<noteq> Done x" "\<And>e x. W e \<noteq> Done x"
    "\<And>e. advance (revoke_epoch X E app e) d0 = (d0, Q e)" "\<And>e. advance (Q e) d0 = (d0, W e)"
    "\<And>e at st fl. advance (W e) (race_db X E at st fl) = (race_db X E (Some ''t0'') ''revoked'' (Some e),
      Done (RevokeReply (Inr \<lparr> rr_id = ''i'', rr_revoked_at = ''t0'', rr_min_epoch = Some e \<rparr>)))"
proof -
  define Q where "Q e = map_prog RevokeReply (revoke_device_handler E race_env ''o'' ''i'' \<lparr> rq_revoked_at = None, rq_min_epoch = Some e \<rparr>)" for e
  define W where "W e = map_prog RevokeReply (pbind (total_query (set_device_revocation ''o'' ''i'' ''t0'' (Some e))) (\<lambda>updated.
      if \<not> updated then Done (Inl (404, ''no such device in this organization''))
      else Done (Inr \<lparr> rr_id = ''i'', rr_revoked_at = ''t0'', rr_min_epoch = Some e \<rparr>)))" for e
  note prog = pbind_Query map_Query
  show thesis
  proof (rule that)
    show "revoke_epoch X E app e \<noteq> Done x" for e x
      by (simp add: revoke_epoch_def route_def auth_middleware_def starts_with_def)
    show "Q e \<noteq> Done x" "W e \<noteq> Done x" for e x
      by (simp_all add: Q_def W_def revoke_device_handler_def select_query_def total_query_def prog del: prog.map(2))
    show "advance (revoke_epoch X E app e) d0 = (d0, Q e)" for e
      by (simp add: revoke_epoch_def route_def auth_middleware_def starts_with_def advance_def Q_def d0_def race_db_def get_org_by_token_hash_def)
    show "advance (Q e) d0 = (d0, W e)" for e
      by (simp add: Q_def W_def revoke_device_handler_def select_query_def prog advance_def d0_def race_db_def get_device_revocation_def
          rev_state_def decide_revoke_def new_revoked_at_def new_min_epoch_def race_env_def del: prog.map(2))
    show "advance (W e) (race_db X E at st fl) = (race_db X E (Some ''t0'') ''revoked'' (Some e),
        Done (RevokeReply (Inr \<lparr> rr_id = ''i'', rr_revoked_at = ''t0'', rr_min_epoch = Some e \<rparr>)))" for e at st fl
      by (simp add: W_def total_query_def prog advance_def race_db_def set_device_revocation_def del: prog.map(2))
  qed
qed

text \<open>
  C31: the handler that revokes reads the state, decides and writes in separate queries, so overlapping requests can undo a
  revocation: of two requests that raise the epoch floor of a device to 5 and to 3, both answered with success, the one of 5
  first, the floor in the database afterwards is 3.
\<close>

theorem revocation_race:
  "\<exists>s t. server_start s \<and> (serve (served X E app))\<^sup>*\<^sup>* s t \<and>
     sv_replies t = [RevokeReply (Inr \<lparr> rr_id = ''i'', rr_revoked_at = ''t0'', rr_min_epoch = Some 5 \<rparr>),
       RevokeReply (Inr \<lparr> rr_id = ''i'', rr_revoked_at = ''t0'', rr_min_epoch = Some 3 \<rparr>)] \<and>
     map dv_min_epoch (devices (sv_db t)) = [Some 3]"
proof (intro exI conjI)
  let ?d = "race_db X E None ''active'' None"
  let ?t = "fold turn [0, 0, 1, 1, 0, 0, 0, 0] \<lparr> sv_db = ?d, sv_running = [revoke_epoch X E app 5, revoke_epoch X E app 3], sv_replies = [] \<rparr>"
  show "(serve (served X E app))\<^sup>*\<^sup>* \<lparr> sv_db = ?d, sv_running = [], sv_replies = [] \<rparr> ?t"
    by (rule schedule_serves) (auto simp: served_def revoke_epoch_def)
  show "server_start \<lparr> sv_db = ?d, sv_running = [], sv_replies = [] \<rparr>"
    by (simp add: server_start_def platform_ok_def schema_defs race_db_def db_initial_def nil_uuid_def)
  obtain Q W where steps: "\<And>e x. revoke_epoch X E app e \<noteq> Done x" "\<And>e x. Q e \<noteq> Done x" "\<And>e x. W e \<noteq> Done x"
    "\<And>e. advance (revoke_epoch X E app e) ?d = (?d, Q e)" "\<And>e. advance (Q e) ?d = (?d, W e)"
    "\<And>e at st fl. advance (W e) (race_db X E at st fl) = (race_db X E (Some ''t0'') ''revoked'' (Some e),
      Done (RevokeReply (Inr \<lparr> rr_id = ''i'', rr_revoked_at = ''t0'', rr_min_epoch = Some e \<rparr>)))"
    by (rule revoke_epoch_steps [of X E app]) (rule that)
  have "?t = \<lparr> sv_db = race_db X E (Some ''t0'') ''revoked'' (Some 3), sv_running = [],
     sv_replies = [RevokeReply (Inr \<lparr> rr_id = ''i'', rr_revoked_at = ''t0'', rr_min_epoch = Some 5 \<rparr>),
       RevokeReply (Inr \<lparr> rr_id = ''i'', rr_revoked_at = ''t0'', rr_min_epoch = Some 3 \<rparr>)] \<rparr>"
    by (simp add: turn_simps steps)
  then show "sv_replies ?t = [RevokeReply (Inr \<lparr> rr_id = ''i'', rr_revoked_at = ''t0'', rr_min_epoch = Some 5 \<rparr>),
       RevokeReply (Inr \<lparr> rr_id = ''i'', rr_revoked_at = ''t0'', rr_min_epoch = Some 3 \<rparr>)]" "map dv_min_epoch (devices (sv_db ?t)) = [Some 3]"
    by (simp_all add: race_db_def)
qed

text \<open>In the same way a lower sequence can enter the ledger after a higher one of the same device.\<close>

definition first_row :: "WitnessRequest \<Rightarrow> witness_row" where
  "first_row w = \<lparr> wl_pub = wr_device_pub w, wl_seq = wr_sequence w, wl_tip = wr_tip w, wl_observed_at = ''t0'', wl_registered = False,
     wl_signed_at = wr_signed_at w \<rparr>"

lemma witness_steps:
  fixes X :: "'x crates_scheme" and E :: plat and app :: AppState
  assumes w: "wr_verify X w" "wr_rotation w = None"
  obtains A B I where "\<And>x. route X E app race_env None (PostWitness w) \<noteq> Done x" "\<And>x. A \<noteq> Done x" "\<And>x. B \<noteq> Done x" "\<And>x. I \<noteq> Done x"
    "advance (route X E app race_env None (PostWitness w)) db_initial = (db_initial, A)" "advance A db_initial = (db_initial, B)"
    "advance B db_initial = (db_initial, I)"
    "\<And>d. (wr_device_pub w, wr_sequence w) \<notin> (\<lambda>r. (wl_pub r, wl_seq r)) ` set (witness_log d) \<Longrightarrow>
       fst (advance I d) = d\<lparr> witness_log := witness_log d @ [first_row w] \<rparr>"
proof -
  define A where "A = snd (advance (route X E app race_env None (PostWitness w)) db_initial)"
  define B where "B = snd (advance A db_initial)"
  define I where "I = snd (advance B db_initial)"
  note defs = route_def witness_handler_def pbind_Query map_Query select_query_def change_query_def advance_def
    get_device_revocation_by_pub_def lineage_rotation_seq_def witness_entries_def db_initial_def w Let_def
  have A: "A = Query (\<lambda>d. (d, snd (advance A d)))" by (simp add: A_def defs del: prog.map(2))
  have B: "B = Query (\<lambda>d. (d, snd (advance B d)))" by (simp add: B_def A_def defs del: prog.map(2))
  have I: "\<exists>f. I = Query f \<and> (\<forall>d. (wr_device_pub w, wr_sequence w) \<notin> (\<lambda>r. (wl_pub r, wl_seq r)) ` set (witness_log d) \<longrightarrow>
       fst (f d) = d\<lparr> witness_log := witness_log d @ [first_row w] \<rparr>)"
    by (simp add: I_def B_def A_def defs rev_default_def decide_def prev_entry_def refuse_revoked_witness_def is_revoked_def
        refuse_superseded_def apply_decision_def witness_insert_def first_row_def race_env_def del: prog.map(2))
  show thesis
  proof (rule that [of A B I])
    show "route X E app race_env None (PostWitness w) \<noteq> Done x" for x by (simp add: defs del: prog.map(2))
    show "A \<noteq> Done x" "B \<noteq> Done x" "I \<noteq> Done x" for x using A B I by (metis prog.distinct(1))+
    show "advance (route X E app race_env None (PostWitness w)) db_initial = (db_initial, A)" by (simp add: A_def defs del: prog.map(2))
    show "advance A db_initial = (db_initial, B)" by (subst A) (simp add: advance_def B_def)
    show "advance B db_initial = (db_initial, I)" by (subst B) (simp add: advance_def I_def)
  qed (use I in \<open>auto simp: advance_def\<close>)
qed

text \<open>
  C32: the witness checks the sequence and inserts in separate queries, so its rollback check can be overtaken: of two overlapping
  requests of one device for the sequences 5 and 6, the row of 5 can enter an empty ledger after the row of 6.
\<close>

theorem witness_overtaken:
  assumes "ed_ok X" "b64_ok X"
  shows "\<exists>s t. server_start s \<and> (serve (served X E app))\<^sup>*\<^sup>* s t \<and>
    map (\<lambda>r. (wl_pub r, wl_seq r)) (witness_log (sv_db t)) = [(kp_public (keypair_of X sk), 6), (kp_public (keypair_of X sk), 5)]"
proof -
  obtain v w where vw: "wr_create_signed X (keypair_of X sk) 5 ''a'' ''t'' = Inr v" "wr_verify X v"
    "wr_create_signed X (keypair_of X sk) 6 ''b'' ''t'' = Inr w" "wr_verify X w" using wr_created_verifies [OF assms] by meson
  note v = wr_created [OF vw(1)] and w = wr_created [OF vw(3)]
  have rot: "wr_rotation v = None" "wr_rotation w = None" using v w by simp_all
  let ?p = "\<lambda>w. route X E app race_env None (PostWitness w)"
  let ?t = "fold turn [0, 0, 0, 1, 1, 1, 1, 0] \<lparr> sv_db = db_initial, sv_running = [?p v, ?p w], sv_replies = [] \<rparr>"
  obtain A B I where vs: "\<And>x. ?p v \<noteq> Done x" "\<And>x. A \<noteq> Done x" "\<And>x. B \<noteq> Done x" "\<And>x. I \<noteq> Done x"
    "advance (?p v) db_initial = (db_initial, A)" "advance A db_initial = (db_initial, B)" "advance B db_initial = (db_initial, I)"
    "\<And>d. (wr_device_pub v, wr_sequence v) \<notin> (\<lambda>r. (wl_pub r, wl_seq r)) ` set (witness_log d) \<Longrightarrow>
       fst (advance I d) = d\<lparr> witness_log := witness_log d @ [first_row v] \<rparr>"
    by (rule witness_steps [OF vw(2) rot(1), of E app]) (rule that)
  obtain A' B' I' where ws: "\<And>x. ?p w \<noteq> Done x" "\<And>x. A' \<noteq> Done x" "\<And>x. B' \<noteq> Done x" "\<And>x. I' \<noteq> Done x"
    "advance (?p w) db_initial = (db_initial, A')" "advance A' db_initial = (db_initial, B')" "advance B' db_initial = (db_initial, I')"
    "\<And>d. (wr_device_pub w, wr_sequence w) \<notin> (\<lambda>r. (wl_pub r, wl_seq r)) ` set (witness_log d) \<Longrightarrow>
       fst (advance I' d) = d\<lparr> witness_log := witness_log d @ [first_row w] \<rparr>"
    by (rule witness_steps [OF vw(4) rot(2), of E app]) (rule that)
  have "(serve (served X E app))\<^sup>*\<^sup>* \<lparr> sv_db = db_initial, sv_running = [], sv_replies = [] \<rparr> ?t"
    by (rule schedule_serves) (auto simp: served_def)
  moreover have "server_start \<lparr> sv_db = db_initial, sv_running = [], sv_replies = [] \<rparr>"
    by (simp add: server_start_def platform_ok_def db_initial_ok) (simp add: db_initial_def)
  moreover have "witness_log (sv_db ?t) = [first_row w, first_row v]"
  proof -
    have 1: "fst (advance I' db_initial) = db_initial\<lparr> witness_log := [first_row w] \<rparr>" using ws(8) [of db_initial] by (simp add: db_initial_def)
    have 2: "fst (advance I (db_initial\<lparr> witness_log := [first_row w] \<rparr>)) = db_initial\<lparr> witness_log := [first_row w, first_row v] \<rparr>"
      using vs(8) [of "db_initial\<lparr> witness_log := [first_row w] \<rparr>"] v w by (simp add: first_row_def)
    show ?thesis by (simp add: turn_simps vs(1-7) ws(1-7) 1 2 case_prod_beta)
  qed
  ultimately show ?thesis using v w by (fastforce simp: first_row_def)
qed

section \<open>Witnesses\<close>

definition sample_plat :: plat where
  "sample_plat = \<lparr> pl_web = sample_jws_web, pl_manifest = sample_request_value,
     pl_attestation = \<lparr> pa_print = (\<lambda>_. Inl ''unsupported''), pa_parse = (\<lambda>_. Inl ''unsupported'') \<rparr>,
     pl_jwt = sample_jwt, pl_sha256 = (\<lambda>b. b), pl_rfc3339 = (\<lambda>_. None) \<rparr>"

definition sample_app :: AppState where
  "sample_app = \<lparr> app_keys = sample_manager, app_receipt_ttl_secs = 60 \<rparr>"

abbreviation sample_start :: "reply server" where
  "sample_start \<equiv> \<lparr> sv_db = db_initial, sv_running = [], sv_replies = [] \<rparr>"

lemma sample_start_ok: "server_start sample_start"
  by (simp add: server_start_def platform_ok_def db_initial_ok) (simp add: db_initial_def)

text \<open>One request served twice: the first time its tip is recorded, the second time replayed.\<close>

lemma sample_witness_runs:
  obtains w jws d where "run (route sample_crates sample_plat sample_app race_env None (PostWitness w)) db_initial = (WitnessReply (Inr jws), d)"
    "run (route sample_crates sample_plat sample_app race_env None (PostWitness w)) d = (WitnessReply (Inr jws), d)"
proof -
  let ?k = "keypair_of sample_crates (replicate 32 3)"
  obtain w where cw: "wr_create_signed sample_crates ?k 5 ''b3:t'' ''t'' = Inr w" "wr_verify sample_crates w"
    using wr_created_verifies [OF sample_ed_ok sample_b64_ok] by blast
  note w = wr_created [OF cw(1)]
  obtain jws where jws: "sign_witness_jws sample_jwt 7 sample_witness_receipt sample_manager = Inr jws"
    by (simp add: sign_witness_jws_def sample_jwt_def sample_manager_def)
  define d where "d = db_initial\<lparr> witness_log := [first_row w] \<rparr>"
  note defs = route_def witness_handler_def run_map run_pbind cw(2) w get_device_revocation_by_pub_def lineage_rotation_seq_def
    witness_entries_def entry_of_def decide_def prev_entry_def rev_default_def is_revoked_def refuse_revoked_witness_def
    refuse_superseded_def apply_decision_def witness_insert_def record_lineage_def race_env_def sample_plat_def sample_app_def Let_def
  have 1: "run (route sample_crates sample_plat sample_app race_env None (PostWitness w)) db_initial = (WitnessReply (Inr jws), d)"
    using jws by (simp add: defs d_def first_row_def db_initial_def sample_witness_receipt_def)
  have 2: "run (route sample_crates sample_plat sample_app race_env None (PostWitness w)) d = (WitnessReply (Inr jws), d)"
    using jws by (simp add: defs d_def first_row_def db_initial_def sample_witness_receipt_def)
  from that [OF 1 2] show thesis .
qed

theorem witness_no_equivocation_witness:
  "\<exists>t jws dev n tip. (serve (served sample_crates sample_plat sample_app))\<^sup>*\<^sup>* sample_start t \<and>
     sv_replies t = [WitnessReply (Inr jws), WitnessReply (Inr jws)] \<and>
     verify_witness_receipt_jws sample_crates sample_jws_web jws ''a'' = Inr (dev, n, tip) \<and> (\<exists>obs. backed (sv_db t) dev n tip obs)"
proof (rule sample_witness_runs)
  fix w jws d
  let ?p = "route sample_crates sample_plat sample_app race_env None (PostWitness w)"
  let ?S = "serve (served sample_crates sample_plat sample_app)"
  let ?t = "\<lparr> sv_db = d, sv_running = [], sv_replies = [WitnessReply (Inr jws), WitnessReply (Inr jws)] \<rparr>"
  assume r: "run ?p db_initial = (WitnessReply (Inr jws), d)" "run ?p d = (WitnessReply (Inr jws), d)"
  have p: "served sample_crates sample_plat sample_app ?p" unfolding served_def by blast
  have "?S\<^sup>*\<^sup>* sample_start \<lparr> sv_db = d, sv_running = [], sv_replies = [WitnessReply (Inr jws)] \<rparr>"
    using serve_run [of "served sample_crates sample_plat sample_app" ?p sample_start] p r by simp
  also have "?S\<^sup>*\<^sup>* \<lparr> sv_db = d, sv_running = [], sv_replies = [WitnessReply (Inr jws)] \<rparr> ?t"
    using serve_run [of "served sample_crates sample_plat sample_app" ?p "\<lparr> sv_db = d, sv_running = [], sv_replies = [WitnessReply (Inr jws)] \<rparr>"] p r by simp
  finally have t: "?S\<^sup>*\<^sup>* sample_start ?t" .
  have E: "b64u_ok (pl_web sample_plat)" "jwt_ok sample_crates (pl_web sample_plat) (pl_jwt sample_plat)"
    "length (km_current_key (app_keys sample_app)) = 32"
    "json_parse (pl_web sample_plat) (str_bytes ''a'') = Inr (to_jwks sample_crates (pl_web sample_plat) (app_keys sample_app))"
    using sample_b64u_ok sample_jwt_ok sample_key_sets(1) by (simp_all add: sample_plat_def sample_app_def sample_manager_def)
  have i: "WitnessReply (Inr jws) \<in> set (sv_replies ?t)" by simp
  from witness_no_equivocation [OF sample_ed_ok sample_b64_ok E sample_start_ok t i i] obtain dev n tip obs where
    "verify_witness_receipt_jws sample_crates (pl_web sample_plat) jws ''a'' = Inr (dev, n, tip)" "backed (sv_db ?t) dev n tip obs" by blast
  moreover have "pl_web sample_plat = sample_jws_web" by (simp add: sample_plat_def)
  ultimately show ?thesis using t by (intro exI [of _ ?t] exI [of _ jws] exI [of _ dev] exI [of _ n] exI [of _ tip]) auto
qed

theorem witness_overtaken_witness:
  "\<exists>s t. server_start s \<and> (serve (served sample_crates sample_plat sample_app))\<^sup>*\<^sup>* s t \<and>
    map (\<lambda>r. (wl_pub r, wl_seq r)) (witness_log (sv_db t)) =
      [(kp_public (keypair_of sample_crates (replicate 32 7)), 6), (kp_public (keypair_of sample_crates (replicate 32 7)), 5)]"
  using witness_overtaken [OF sample_ed_ok sample_b64_ok, of sample_plat sample_app "replicate 32 7"] by simp

text \<open>A verify request that passes, under a token library that signs everything.\<close>

lemma sample_verify_run:
  obtains q resp d where
    "run (route sample_kw (sample_plat\<lparr> pl_jwt := \<lambda>_ _ _. Inr ''jws'' \<rparr>) sample_app race_env None (PostVerify q)) db_initial = (VerifyReply (Inr resp), d)"
    "vp_receipt resp = Some ''jws''" "api_keys d = []"
proof (rule sample_engine_request)
  let ?E = "sample_plat\<lparr> pl_jwt := \<lambda>_ _ _. Inr ''jws'' \<rparr>"
  fix q rep assume e: "engine_passes sample_kw sample_request_value q rep" and v: "validate_verify_request_full q = Inr ()"
    and opt: "vo_return_receipt (vq_options q)"
  have b: "bind_device None q = Done (Inr (None, False))" by (simp add: bind_device_def split: option.splits)
  obtain resp d where "run (verify_handler sample_kw ?E sample_app race_env None q) db_initial = (Inr resp, d)"
    "vp_receipt resp = Some ''jws''" "api_keys d = []"
    using e opt by (simp add: verify_handler_def v b enforce_min_epoch_def run_pbind get_device_revocation_by_pub_def sample_plat_def
        engine_passes_def issue_receipt_def Let_def sign_receipt_jws_def create_verification_def create_receipt_def db_initial_def)
  then show thesis by (intro that [of q resp d]) (simp_all add: route_def run_map)
qed

theorem verify_receipts_unregistered_witness:
  "\<exists>t resp cl now. (serve (served sample_kw (sample_plat\<lparr> pl_jwt := \<lambda>_ _ _. Inr ''jws'' \<rparr>) sample_app))\<^sup>*\<^sup>* sample_start t \<and>
     sv_replies t = [VerifyReply (Inr resp)] \<and> vp_receipt resp = Some ''jws'' \<and>
     sign_receipt_jws (\<lambda>_ _ _. Inr ''jws'') now cl sample_manager 60 = Inr ''jws'' \<and> \<not> rcl_device_registered cl \<and> rcl_result cl = vp_result resp"
proof (rule sample_verify_run)
  let ?E = "sample_plat\<lparr> pl_jwt := \<lambda>_ _ _. Inr ''jws'' \<rparr>"
  fix q resp d
  let ?p = "route sample_kw ?E sample_app race_env None (PostVerify q)"
  let ?t = "\<lparr> sv_db = d, sv_running = [], sv_replies = [VerifyReply (Inr resp)] \<rparr>"
  assume r: "run ?p db_initial = (VerifyReply (Inr resp), d)" "vp_receipt resp = Some ''jws''"
  have "served sample_kw ?E sample_app ?p" unfolding served_def by blast
  then have t: "(serve (served sample_kw ?E sample_app))\<^sup>*\<^sup>* sample_start ?t"
    using serve_run [of "served sample_kw ?E sample_app" ?p sample_start] r by simp
  from verify_receipts_unregistered [OF sample_start_ok t, of resp "''jws''"] r(2) obtain cl now where
    "sign_receipt_jws (pl_jwt ?E) now cl (app_keys sample_app) (app_receipt_ttl_secs sample_app) = Inr ''jws''"
    "\<not> rcl_device_registered cl" "rcl_result cl = vp_result resp" by auto
  with t r(2) show ?thesis by (intro exI [of _ ?t] exI [of _ resp] exI [of _ cl] exI [of _ now]) (simp add: sample_app_def)
qed

theorem revocation_monotone_witness:
  "tightens (pl_rfc3339 sample_plat) (race_db sample_crates sample_plat None ''active'' None)
     (snd (serial [revoke_epoch sample_crates sample_plat sample_app 5, revoke_epoch sample_crates sample_plat sample_app 3]
       (race_db sample_crates sample_plat None ''active'' None)))"
proof -
  have "platform_ok (race_db sample_crates sample_plat None ''active'' None)"
    by (simp add: platform_ok_def schema_defs race_db_def db_initial_def nil_uuid_def)
  moreover have "served sample_crates sample_plat sample_app p"
    if "p \<in> set [revoke_epoch sample_crates sample_plat sample_app 5, revoke_epoch sample_crates sample_plat sample_app 3]" for p
    using that by (auto simp: served_def revoke_epoch_def)
  ultimately show ?thesis using revocation_monotone [of "race_db sample_crates sample_plat None ''active'' None"
      "[revoke_epoch sample_crates sample_plat sample_app 5, revoke_epoch sample_crates sample_plat sample_app 3]"
      sample_crates sample_plat sample_app] by blast
qed

end
