(* ===== verification/Envelope.thy ===== *)
theory Envelope
  imports Format "HOL-Library.Multiset"
begin

text \<open>
  Envelopes (\<^verbatim>\<open>crates/core/src/envelope.rs\<close>): a payload cut into chunks, each encrypted under a key both parties
  derive from their Ed25519 keys, each with a signed manifest. The record of crates is extended by the conversion of Ed25519
  keys to X25519, the Diffie-Hellman function and BLAKE3's key derivation; bincode is the record \<open>env_codec\<close>.
  Clock readings, the salt and the time stamps of the chunks are arguments.
\<close>

record dh_crates = crates +
  ed_scalar :: "bytes \<Rightarrow> bytes"
  ed_montgomery :: "bytes \<Rightarrow> bytes"
  x25519_dh :: "bytes \<Rightarrow> bytes \<Rightarrow> bytes"
  derive_key :: "string \<Rightarrow> bytes \<Rightarrow> bytes"

text \<open>Diffie-Hellman: both parties compute the same secret.\<close>

definition dh_ok :: "'x dh_crates_scheme \<Rightarrow> bool" where
  "dh_ok X \<longleftrightarrow> (\<forall>a b. x25519_dh X (ed_scalar X a) (ed_montgomery X (ed_public X b)) = x25519_dh X (ed_scalar X b) (ed_montgomery X (ed_public X a)))"

text \<open>The clock is \<open>None\<close> when it stands before the UNIX epoch.\<close>

type_synonym clock = "u64 option"

definition clock_text :: string where
  "clock_text = ''second time provided was later than self''"

definition unwrap_clock :: "clock \<Rightarrow> u64" where
  "unwrap_clock c = (case c of None \<Rightarrow> 0 | Some t \<Rightarrow> t)"

section \<open>Data\<close>

definition DEFAULT_CHUNK_SIZE :: nat where "DEFAULT_CHUNK_SIZE = 64 * 1024"
definition MAX_CHUNK_INDEX :: u64 where "MAX_CHUNK_INDEX = 16777215"
definition ENVELOPE_VERSION_V2 :: u8 where "ENVELOPE_VERSION_V2 = 2"

record SignedManifest =
  sm_manifest :: bytes
  sm_sig :: bytes
  sm_pubkey :: bytes

record ChunkManifest =
  cm_sequence :: u64
  cm_chunk_size :: u32
  cm_timestamp :: u64
  cm_format_hint :: string
  cm_key_derivation_salt :: bytes
  cm_pbkdf2_iterations :: u32

record NetworkChunk =
  nc_sequence :: u64
  nc_data :: bytes
  nc_manifest :: bytes
  nc_nonce :: bytes
  nc_timestamp :: u64

record EnvelopeMetadata =
  em_created_at :: u64
  em_payload_size :: u64
  em_chunk_count :: u32
  em_aead_algorithm :: u8
  em_signature_algorithm :: u8
  em_hash_algorithm :: u8

record Envelope =
  ev_version :: u8
  ev_hkdf_salt :: bytes
  ev_chunks :: "NetworkChunk list"
  ev_verifying_key :: bytes
  ev_beneficiary_key :: bytes
  ev_metadata :: EnvelopeMetadata

record env_codec =
  bc_manifest :: "ChunkManifest \<Rightarrow> string + bytes"
  bc_manifest_dec :: "bytes \<Rightarrow> string + ChunkManifest"
  bc_signed :: "SignedManifest \<Rightarrow> string + bytes"
  bc_signed_dec :: "bytes \<Rightarrow> string + SignedManifest"
  bc_envelope :: "Envelope \<Rightarrow> string + bytes"

text \<open>bincode serialises these types without failing, decodes what it encoded, and equal bytes come from equal values.\<close>

definition env_codec_ok :: "env_codec \<Rightarrow> bool" where
  "env_codec_ok B \<longleftrightarrow> (\<forall>m. \<exists>b. bc_manifest B m = Inr b \<and> bc_manifest_dec B b = Inr m) \<and>
     (\<forall>s. \<exists>b. bc_signed B s = Inr b \<and> bc_signed_dec B b = Inr s) \<and>
     (\<forall>e. \<exists>b. bc_envelope B e = Inr b) \<and> inj (bc_envelope B)"

section \<open>Operations\<close>

definition nc_new :: "u64 \<Rightarrow> bytes \<Rightarrow> bytes \<Rightarrow> bytes \<Rightarrow> clock \<Rightarrow> NetworkChunk" where
  "nc_new seq encrypted_data manifest_bytes nonce now =
     \<lparr> nc_sequence = seq, nc_data = encrypted_data, nc_manifest = manifest_bytes, nc_nonce = nonce, nc_timestamp = unwrap_clock now \<rparr>"

definition nc_validate :: "NetworkChunk \<Rightarrow> clock \<Rightarrow> anyhow + unit" where
  "nc_validate c now =
     (if nc_data c = [] then Inl [''Chunk data is empty'']
      else if nc_manifest c = [] then Inl [''Manifest is empty'']
      else res_bind (ok_or [''Time error: '' @ clock_text] now) (\<lambda>now.
      if nc_timestamp c > now + 300 then Inl [''Chunk timestamp is too far in the future''] else Inr ()))"

definition derive_shared_encryption_key :: "'x dh_crates_scheme \<Rightarrow> bytes \<Rightarrow> bytes \<Rightarrow> bytes \<Rightarrow> anyhow + bytes \<times> bytes" where
  "derive_shared_encryption_key X my_private_key their_public_key salt =
     (let shared_secret = x25519_dh X (ed_scalar X my_private_key) (ed_montgomery X their_public_key) in
      if list_all (\<lambda>b. b = 0) shared_secret then Inl [''ECDH produced zero shared secret'']
      else let okm = hkdf X (Some salt) shared_secret (str_bytes ''SEALEDGE_ENVELOPE_V1'') 40 in
        Inr (take 32 okm, drop 32 okm))"

definition chunk_nonce :: "bytes \<Rightarrow> u64 \<Rightarrow> bool \<Rightarrow> bytes" where
  "chunk_nonce prefix_bytes seq is_last =
     prefix_bytes @ drop 1 (u32_to_be_bytes (ucast seq)) @ [if is_last then 0xFF else 0]"

definition index_error :: anyhow where
  "index_error = [''Chunk index exceeds maximum (16,777,215) '' @ em_dash @ '' envelope too large for current nonce format'']"

definition env_aad :: "'x crates_scheme \<Rightarrow> u64 \<Rightarrow> bytes \<Rightarrow> bytes \<Rightarrow> u32 \<Rightarrow> bytes" where
  "env_aad X seq nonce manifest_bytes chunk_len =
     build_aad (blake3_hash X (str_bytes ''ENVELOPE_V1'')) seq nonce (blake3_hash X manifest_bytes) chunk_len"

definition create_encrypted_chunk ::
  "'x crates_scheme \<Rightarrow> env_codec \<Rightarrow> u64 \<Rightarrow> bytes \<Rightarrow> bytes \<Rightarrow> bytes \<Rightarrow> bytes \<Rightarrow> bool \<Rightarrow> EnvelopeMetadata \<Rightarrow> clock \<Rightarrow> anyhow + NetworkChunk" where
  "create_encrypted_chunk X B seq chunk_data signing_key encryption_key prefix_bytes is_last_chunk md now =
     (if seq > MAX_CHUNK_INDEX then Inl index_error
      else
      let nonce = chunk_nonce prefix_bytes seq is_last_chunk;
          manifest = \<lparr> cm_sequence = seq, cm_chunk_size = word_of_nat (length chunk_data), cm_timestamp = em_created_at md,
            cm_format_hint = ''application/octet-stream'', cm_key_derivation_salt = replicate 32 0, cm_pbkdf2_iterations = 0 \<rparr> in
      res_bind (map_err (\<lambda>e. [''Failed to serialize manifest'', e]) (bc_manifest B manifest)) (\<lambda>manifest_bytes.
      let signed_manifest = \<lparr> sm_manifest = manifest_bytes, sm_sig = ed_sign X signing_key (blake3_hash X manifest_bytes),
            sm_pubkey = ed_public X signing_key \<rparr>;
          aad = env_aad X seq nonce manifest_bytes (word_of_nat (length chunk_data)) in
      res_bind (map_err (\<lambda>_. [''Encryption failed: Error'']) (aes_seal X encryption_key nonce chunk_data aad)) (\<lambda>ciphertext.
      res_bind (map_err (\<lambda>e. [''Failed to serialize signed manifest'', e]) (bc_signed B signed_manifest)) (\<lambda>signed_manifest_bytes.
      Inr (nc_new seq ciphertext signed_manifest_bytes nonce now)))))"

text \<open>The loop over the chunks of the payload; \<open>clocks i\<close> is the clock when chunk \<open>i\<close> is made.\<close>

fun seal_chunks ::
  "'x crates_scheme \<Rightarrow> env_codec \<Rightarrow> bytes \<Rightarrow> bytes \<times> bytes \<Rightarrow> EnvelopeMetadata \<Rightarrow> (nat \<Rightarrow> clock) \<Rightarrow> nat \<Rightarrow> nat \<Rightarrow> bytes list \<Rightarrow>
     anyhow + NetworkChunk list" where
  "seal_chunks X B signing_key km md clocks total_chunks i [] = Inr []"
| "seal_chunks X B signing_key km md clocks total_chunks i (chunk_data # rest) =
     res_bind (create_encrypted_chunk X B (word_of_nat i) chunk_data signing_key (fst km) (snd km) (i = total_chunks - 1) md (clocks i)) (\<lambda>chunk.
     res_bind (seal_chunks X B signing_key km md clocks total_chunks (Suc i) rest) (\<lambda>cs. Inr (chunk # cs)))"

record seal_env =
  sl_now :: clock
  sl_salt :: bytes
  sl_clocks :: "nat \<Rightarrow> clock"

definition env_seal :: "'x dh_crates_scheme \<Rightarrow> env_codec \<Rightarrow> seal_env \<Rightarrow> bytes \<Rightarrow> bytes \<Rightarrow> bytes \<Rightarrow> anyhow + Envelope" where
  "env_seal X B V payload signing_key beneficiary_key =
     res_bind (ok_or [''Failed to get current timestamp'', clock_text] (sl_now V)) (\<lambda>timestamp.
     let parts = chunks DEFAULT_CHUNK_SIZE payload;
         md = \<lparr> em_created_at = timestamp, em_payload_size = word_of_nat (length payload),
           em_chunk_count = word_of_nat ((length payload + DEFAULT_CHUNK_SIZE - 1) div DEFAULT_CHUNK_SIZE),
           em_aead_algorithm = aead_u8 Aes256Gcm, em_signature_algorithm = sig_u8 Ed25519, em_hash_algorithm = hash_u8 Blake3 \<rparr> in
     res_bind (derive_shared_encryption_key X signing_key beneficiary_key (sl_salt V)) (\<lambda>km.
     res_bind (seal_chunks X B signing_key km md (sl_clocks V) (length parts) 0 parts) (\<lambda>cs.
     Inr \<lparr> ev_version = ENVELOPE_VERSION_V2, ev_hkdf_salt = sl_salt V, ev_chunks = cs, ev_verifying_key = ed_public X signing_key,
       ev_beneficiary_key = beneficiary_key, ev_metadata = md \<rparr>)))"

definition verify_chunk_signature :: "'x crates_scheme \<Rightarrow> env_codec \<Rightarrow> Envelope \<Rightarrow> NetworkChunk \<Rightarrow> bool" where
  "verify_chunk_signature X B e chunk =
     (case bc_signed_dec B (nc_manifest chunk) of
        Inl _ \<Rightarrow> False
      | Inr signed_manifest \<Rightarrow>
          if length (sm_sig signed_manifest) \<noteq> 64 then False
          else (case ed_key X (ev_verifying_key e) of
             Inl _ \<Rightarrow> False
           | Inr key \<Rightarrow> is_ok (ed_verify X key (blake3_hash X (sm_manifest signed_manifest)) (sm_sig signed_manifest))))"

definition verify_chunk_sequence :: "Envelope \<Rightarrow> bool" where
  "verify_chunk_sequence e =
     (if length (ev_chunks e) \<noteq> unat (em_chunk_count (ev_metadata e)) then False
      else list_all (\<lambda>(expected, actual). word_of_nat expected = actual)
        (zip [0..<unat (em_chunk_count (ev_metadata e))] (sort_key unat (map nc_sequence (ev_chunks e)))))"

definition env_verify :: "'x crates_scheme \<Rightarrow> env_codec \<Rightarrow> Envelope \<Rightarrow> bool" where
  "env_verify X B e =
     (if ev_version e \<noteq> ENVELOPE_VERSION_V2 then False
      else list_all (verify_chunk_signature X B e) (ev_chunks e) \<and> verify_chunk_sequence e)"

definition decrypt_chunk_v2 :: "'x crates_scheme \<Rightarrow> env_codec \<Rightarrow> NetworkChunk \<Rightarrow> bytes \<times> bytes \<Rightarrow> bool \<Rightarrow> anyhow + bytes" where
  "decrypt_chunk_v2 X B chunk km is_last_chunk =
     res_bind (map_err (\<lambda>e. [''Failed to deserialize signed manifest'', e]) (bc_signed_dec B (nc_manifest chunk))) (\<lambda>signed_manifest.
     res_bind (map_err (\<lambda>e. [''Failed to deserialize chunk manifest'', e]) (bc_manifest_dec B (sm_manifest signed_manifest))) (\<lambda>manifest.
     if cm_sequence manifest > MAX_CHUNK_INDEX then Inl index_error
     else
     let nonce = chunk_nonce (snd km) (cm_sequence manifest) is_last_chunk;
         aad = env_aad X (cm_sequence manifest) nonce (sm_manifest signed_manifest) (cm_chunk_size manifest) in
     map_err (\<lambda>_. [''V2 decryption failed: Error'']) (aes_open X (fst km) nonce (nc_data chunk) aad)))"

fun decrypt_chunks :: "'x crates_scheme \<Rightarrow> env_codec \<Rightarrow> bytes \<times> bytes \<Rightarrow> nat \<Rightarrow> nat \<Rightarrow> NetworkChunk list \<Rightarrow> anyhow + bytes" where
  "decrypt_chunks X B km total_chunks i [] = Inr []"
| "decrypt_chunks X B km total_chunks i (chunk # rest) =
     res_bind (decrypt_chunk_v2 X B chunk km (i = total_chunks - 1)) (\<lambda>decrypted.
     res_bind (decrypt_chunks X B km total_chunks (Suc i) rest) (\<lambda>payload. Inr (decrypted @ payload)))"

definition env_unseal :: "'x dh_crates_scheme \<Rightarrow> env_codec \<Rightarrow> Envelope \<Rightarrow> bytes \<Rightarrow> anyhow + bytes" where
  "env_unseal X B e decryption_key =
     (if ev_version e \<noteq> ENVELOPE_VERSION_V2
      then Inl [''Unsupported envelope version '' @ show_nat (unat (ev_version e)) @ '': this build understands only v'' @
        show_nat (unat ENVELOPE_VERSION_V2)]
      else if \<not> env_verify X B e then Inl [''Envelope verification failed'']
      else
      let sorted_chunks = sort_key (\<lambda>c. unat (nc_sequence c)) (ev_chunks e) in
      res_bind (map_err (\<lambda>e. [''Invalid sender public key in envelope'', e]) (ed_key X (ev_verifying_key e))) (\<lambda>sender_public_key.
      res_bind (derive_shared_encryption_key X decryption_key sender_public_key (ev_hkdf_salt e)) (\<lambda>km.
      res_bind (decrypt_chunks X B km (length sorted_chunks) 0 sorted_chunks) (\<lambda>payload.
      if length payload \<noteq> unat (em_payload_size (ev_metadata e))
      then Inl [''Payload size mismatch: expected '' @ show_nat (unat (em_payload_size (ev_metadata e))) @ '', got '' @ show_nat (length payload)]
      else Inr payload))))"

definition env_hash :: "'x crates_scheme \<Rightarrow> env_codec \<Rightarrow> Envelope \<Rightarrow> anyhow + bytes" where
  "env_hash X B e =
     res_bind (map_err (\<lambda>t. [''Failed to serialize envelope for hashing: '' @ t]) (bc_envelope B e)) (\<lambda>b. Inr (blake3_hash X b))"

definition env_beneficiary :: "'x crates_scheme \<Rightarrow> Envelope \<Rightarrow> anyhow + bytes" where
  "env_beneficiary X e = map_err (\<lambda>t. [''Invalid beneficiary key bytes: '' @ t]) (ed_key X (ev_beneficiary_key e))"

definition env_issuer :: "'x crates_scheme \<Rightarrow> Envelope \<Rightarrow> anyhow + bytes" where
  "env_issuer X e = map_err (\<lambda>t. [''Invalid issuer key bytes: '' @ t]) (ed_key X (ev_verifying_key e))"

section \<open>Chunks\<close>

definition hkdf_len :: "'x crates_scheme \<Rightarrow> bool" where
  "hkdf_len X \<longleftrightarrow> (\<forall>s k i. length (hkdf X s k i 40) = 40)"

text \<open>AES-GCM encrypts every chunk under a key of 32 and a nonce of 12 bytes.\<close>

definition aes_total :: "'x crates_scheme \<Rightarrow> bool" where
  "aes_total X \<longleftrightarrow> (\<forall>k n p a. length k = 32 \<longrightarrow> length n = 12 \<longrightarrow> length p \<le> DEFAULT_CHUNK_SIZE \<longrightarrow> (\<exists>c. aes_seal X k n p a = Inr c))"

definition signed_chunk :: "'x crates_scheme \<Rightarrow> env_codec \<Rightarrow> bytes \<Rightarrow> NetworkChunk \<Rightarrow> bool" where
  "signed_chunk X B key c \<longleftrightarrow> (\<exists>sm. bc_signed_dec B (nc_manifest c) = Inr sm \<and> length (sm_sig sm) = 64 \<and>
     ed_verify X key (blake3_hash X (sm_manifest sm)) (sm_sig sm) = Inr ())"

lemma verify_chunk_signature_iff:
  "ed_key X (ev_verifying_key e) = Inr key \<Longrightarrow> verify_chunk_signature X B e c \<longleftrightarrow> signed_chunk X B key c"
  by (auto simp: verify_chunk_signature_def signed_chunk_def res_simps split: sum.splits)

lemma max_index: "word_of_nat i > MAX_CHUNK_INDEX \<longleftrightarrow> 2 ^ 24 \<le> i" if "i \<le> 2 ^ 24"
proof -
  have "unat (word_of_nat i :: u64) = i" using that by (simp add: unat_of_nat)
  then show ?thesis by (simp add: word_less_nat_alt MAX_CHUNK_INDEX_def) linarith
qed

lemma create_chunk_result:
  assumes "ed_ok X" "aead_ok (aes_seal X) (aes_open X)" "env_codec_ok B"
    and "create_encrypted_chunk X B q p sk (fst km) (snd km) l md now = Inr c"
  shows "nc_sequence c = q \<and> nc_nonce c = chunk_nonce (snd km) q l \<and> q \<le> MAX_CHUNK_INDEX \<and>
    signed_chunk X B (ed_public X sk) c \<and> decrypt_chunk_v2 X B c km l = Inr p"
proof -
  let ?m = "\<lparr> cm_sequence = q, cm_chunk_size = word_of_nat (length p), cm_timestamp = em_created_at md,
    cm_format_hint = ''application/octet-stream'', cm_key_derivation_salt = replicate 32 0, cm_pbkdf2_iterations = 0 \<rparr>"
  from assms(3) obtain mb where mb: "bc_manifest B ?m = Inr mb" "bc_manifest_dec B mb = Inr ?m" unfolding env_codec_ok_def by blast
  let ?s = "\<lparr> sm_manifest = mb, sm_sig = ed_sign X sk (blake3_hash X mb), sm_pubkey = ed_public X sk \<rparr>"
  from assms(3) obtain sb where sb: "bc_signed B ?s = Inr sb" "bc_signed_dec B sb = Inr ?s" unfolding env_codec_ok_def by blast
  from assms(4) obtain ct where "q \<le> MAX_CHUNK_INDEX"
    and ct: "aes_seal X (fst km) (chunk_nonce (snd km) q l) p (env_aad X q (chunk_nonce (snd km) q l) mb (word_of_nat (length p))) = Inr ct"
    and c: "c = nc_new q ct sb (chunk_nonce (snd km) q l) now"
    unfolding create_encrypted_chunk_def Let_def mb(1) by (auto simp: res_simps sb(1) split: if_splits)
  with aead_ok_open [OF assms(2) ct] show ?thesis
    by (auto simp: nc_new_def signed_chunk_def sb(2) mb(2) ed_ok_simps [OF assms(1)] decrypt_chunk_v2_def Let_def)
qed

lemma create_chunk_total:
  assumes "env_codec_ok B" "aes_total X" "length p \<le> DEFAULT_CHUNK_SIZE" "length (fst km) = 32" "length (snd km) = 8" "q \<le> MAX_CHUNK_INDEX"
  shows "\<exists>c. create_encrypted_chunk X B q p sk (fst km) (snd km) l md now = Inr c"
proof -
  let ?nonce = "chunk_nonce (snd km) q l"
  let ?m = "\<lparr> cm_sequence = q, cm_chunk_size = word_of_nat (length p), cm_timestamp = em_created_at md,
    cm_format_hint = ''application/octet-stream'', cm_key_derivation_salt = replicate 32 0, cm_pbkdf2_iterations = 0 \<rparr>"
  from assms(1) obtain mb where mb: "bc_manifest B ?m = Inr mb" unfolding env_codec_ok_def by blast
  from assms(1) obtain sb where sb: "bc_signed B \<lparr> sm_manifest = mb, sm_sig = ed_sign X sk (blake3_hash X mb), sm_pubkey = ed_public X sk \<rparr> = Inr sb"
    unfolding env_codec_ok_def by blast
  have "length ?nonce = 12" using assms(5) by (simp add: chunk_nonce_def)
  with assms(2,3,4) obtain ct where "aes_seal X (fst km) ?nonce p (env_aad X q ?nonce mb (word_of_nat (length p))) = Inr ct"
    unfolding aes_total_def by blast
  then show ?thesis using assms(6) by (simp add: create_encrypted_chunk_def Let_def mb sb)
qed

definition sealed_as ::
  "'x crates_scheme \<Rightarrow> env_codec \<Rightarrow> bytes \<Rightarrow> bytes \<times> bytes \<Rightarrow> nat \<Rightarrow> nat \<Rightarrow> bytes \<Rightarrow> NetworkChunk \<Rightarrow> bool" where
  "sealed_as X B key km n k p c \<longleftrightarrow> nc_sequence c = word_of_nat k \<and> nc_nonce c = chunk_nonce (snd km) (word_of_nat k) (k = n - 1) \<and>
     signed_chunk X B key c \<and> decrypt_chunk_v2 X B c km (k = n - 1) = Inr p"

lemma seal_chunks_result:
  assumes "ed_ok X" "aead_ok (aes_seal X) (aes_open X)" "env_codec_ok B"
  shows "seal_chunks X B sk km md clocks n i ps = Inr cs \<Longrightarrow> i \<le> 2 ^ 24 \<Longrightarrow>
    length cs = length ps \<and> i + length ps \<le> 2 ^ 24 \<and> (\<forall>k < length ps. sealed_as X B (ed_public X sk) km n (i + k) (ps ! k) (cs ! k))"
proof (induction ps arbitrary: i cs)
  case (Cons p ps)
  from Cons.prems obtain c rest where
    c: "create_encrypted_chunk X B (word_of_nat i) p sk (fst km) (snd km) (i = n - 1) md (clocks i) = Inr c"
    and rest: "seal_chunks X B sk km md clocks n (Suc i) ps = Inr rest" "cs = c # rest" by (auto simp: res_simps)
  note r = create_chunk_result [OF assms c]
  have i: "i < 2 ^ 24" using r max_index [OF Cons.prems(2)] by (simp add: not_less [symmetric])
  have IH: "length rest = length ps" "Suc i + length ps \<le> 2 ^ 24"
      "\<And>k. k < length ps \<Longrightarrow> sealed_as X B (ed_public X sk) km n (Suc (i + k)) (ps ! k) (rest ! k)"
    using Cons.IH [OF rest(1)] i by auto
  have "sealed_as X B (ed_public X sk) km n (i + k) ((p # ps) ! k) ((c # rest) ! k)" if "k < Suc (length ps)" for k
    using that r IH(3) by (cases k) (auto simp: sealed_as_def)
  with IH(1,2) rest(2) show ?case by simp
qed simp

lemma seal_chunks_total:
  assumes "env_codec_ok B" "aes_total X" "length (fst km) = 32" "length (snd km) = 8" "\<And>p. p \<in> set ps \<Longrightarrow> length p \<le> DEFAULT_CHUNK_SIZE"
    and "i + length ps \<le> 2 ^ 24"
  shows "\<exists>cs. seal_chunks X B sk km md clocks n i ps = Inr cs"
  using assms(5,6)
proof (induction ps arbitrary: i)
  case (Cons p ps)
  have "word_of_nat i \<le> MAX_CHUNK_INDEX" using Cons.prems(2) max_index [of i] by (simp add: not_less [symmetric])
  from create_chunk_total [OF assms(1,2) _ assms(3,4) this, of p] Cons.prems(1) [of p]
  obtain c where "create_encrypted_chunk X B (word_of_nat i) p sk (fst km) (snd km) (i = n - 1) md (clocks i) = Inr c" by fastforce
  moreover obtain cs where "seal_chunks X B sk km md clocks n (Suc i) ps = Inr cs" using Cons.IH [of "Suc i"] Cons.prems by auto
  ultimately show ?case by simp
qed simp

section \<open>Envelopes\<close>

lemma derive_commute:
  "dh_ok X \<Longrightarrow> derive_shared_encryption_key X a (ed_public X b) salt = derive_shared_encryption_key X b (ed_public X a) salt"
  unfolding dh_ok_def derive_shared_encryption_key_def Let_def by metis

lemma derive_lengths:
  "hkdf_len X \<Longrightarrow> derive_shared_encryption_key X a k salt = Inr km \<Longrightarrow> length (fst km) = 32 \<and> length (snd km) = 8"
  by (auto simp: derive_shared_encryption_key_def hkdf_len_def Let_def split: if_splits)

lemma decrypt_chunks_result:
  "length cs = length ps \<Longrightarrow> (\<And>k. k < length ps \<Longrightarrow> decrypt_chunk_v2 X B (cs ! k) km (i + k = n - 1) = Inr (ps ! k)) \<Longrightarrow>
    decrypt_chunks X B km n i cs = Inr (concat ps)"
proof (induction cs ps arbitrary: i rule: list_induct2)
  case (Cons c cs p ps)
  have "decrypt_chunks X B km n (Suc i) cs = Inr (concat ps)"
    by (rule Cons.IH) (use Cons.prems [of "Suc _"] in auto)
  with Cons.prems [of 0] show ?case by simp
qed simp

text \<open>
  What an envelope yields is determined by the clear sequence numbers: if its chunks can be arranged as \<open>ds\<close> so that these count
  from zero, and each opens in its place, then the envelope verifies and opens to what the chunks hold in this arrangement.
\<close>

lemma unseal_arranged:
  assumes e: "ev_version e = ENVELOPE_VERSION_V2" "mset (ev_chunks e) = mset ds" "em_chunk_count (ev_metadata e) = word_of_nat n"
    and n: "length ds = n" "length ps = n" "n \<le> 2 ^ 24" and key: "ed_key X (ev_verifying_key e) = Inr key"
    and km: "derive_shared_encryption_key X sk key (ev_hkdf_salt e) = Inr km"
    and c: "\<And>k. k < n \<Longrightarrow> nc_sequence (ds ! k) = word_of_nat k \<and> signed_chunk X B key (ds ! k) \<and> decrypt_chunk_v2 X B (ds ! k) km (k = n - 1) = Inr (ps ! k)"
    and size: "unat (em_payload_size (ev_metadata e)) = length (concat ps)"
  shows "env_verify X B e \<and> env_unseal X B e sk = Inr (concat ps)"
proof -
  let ?f = "\<lambda>c. unat (nc_sequence c)"
  have f: "map ?f ds = [0..<n]" by (rule nth_equalityI) (use n c in \<open>auto simp: unat_of_nat\<close>)
  then have "inj_on ?f (set ds)" by (metis distinct_map distinct_upt)
  then have sort: "sort_key ?f (ev_chunks e) = ds" using e(2) f
    by (intro sort_key_inj_key_eq) (auto dest: mset_eq_setD)
  have len: "length (ev_chunks e) = n" using e(2) n(1) mset_eq_length by metis
  have "sort_key unat (map nc_sequence (ev_chunks e)) = map nc_sequence ds"
  proof (rule sort_key_inj_key_eq)
    show "mset (map nc_sequence (ev_chunks e)) = mset (map nc_sequence ds)" using e(2) by simp
    show "sorted (map unat (map nc_sequence ds))" using f by (simp add: comp_def)
  qed (simp add: inj_on_def word_unat_eq_iff)
  then have seq: "verify_chunk_sequence e" using n c e(3)
    by (auto simp: verify_chunk_sequence_def len unat_of_nat list_all_iff in_set_zip)
  have "list_all (verify_chunk_signature X B e) (ev_chunks e)" unfolding list_all_iff
  proof
    fix x assume "x \<in> set (ev_chunks e)"
    then have "x \<in> set ds" using e(2) by (metis mset_eq_setD)
    with c n(1) show "verify_chunk_signature X B e x" by (auto simp: verify_chunk_signature_iff [OF key] in_set_conv_nth)
  qed
  with seq have v: "env_verify X B e" by (simp add: env_verify_def e(1))
  have "decrypt_chunks X B km n 0 ds = Inr (concat ps)" by (rule decrypt_chunks_result) (use n c in auto)
  with v show ?thesis by (simp add: env_unseal_def e(1) sort n(1) key km size)
qed

definition sealed_envelope :: "'x dh_crates_scheme \<Rightarrow> env_codec \<Rightarrow> bytes \<Rightarrow> bytes \<Rightarrow> bytes \<Rightarrow> bytes \<times> bytes \<Rightarrow> Envelope \<Rightarrow> bool" where
  "sealed_envelope X B payload sk bk km e \<longleftrightarrow> ev_version e = ENVELOPE_VERSION_V2 \<and> ev_verifying_key e = ed_public X sk \<and> ev_beneficiary_key e = bk \<and>
     derive_shared_encryption_key X sk bk (ev_hkdf_salt e) = Inr km \<and> length payload \<le> 2 ^ 40 \<and>
     em_payload_size (ev_metadata e) = word_of_nat (length payload) \<and>
     (let ps = chunks DEFAULT_CHUNK_SIZE payload in length ps \<le> 2 ^ 24 \<and> em_chunk_count (ev_metadata e) = word_of_nat (length ps) \<and>
       length (ev_chunks e) = length ps \<and> (\<forall>k < length ps. sealed_as X B (ed_public X sk) km (length ps) k (ps ! k) (ev_chunks e ! k)))"

lemma chunk_count: "length (chunks DEFAULT_CHUNK_SIZE xs) = (length xs + DEFAULT_CHUNK_SIZE - 1) div DEFAULT_CHUNK_SIZE"
  "length (chunks DEFAULT_CHUNK_SIZE xs) \<le> 2 ^ 24 \<longleftrightarrow> length xs \<le> 2 ^ 40"
proof -
  show 1: "length (chunks DEFAULT_CHUNK_SIZE xs) = (length xs + DEFAULT_CHUNK_SIZE - 1) div DEFAULT_CHUNK_SIZE"
    by (rule length_chunks) (simp add: DEFAULT_CHUNK_SIZE_def)
  show "length (chunks DEFAULT_CHUNK_SIZE xs) \<le> 2 ^ 24 \<longleftrightarrow> length xs \<le> 2 ^ 40"
    unfolding 1 unfolding less_Suc_eq_le [symmetric] by (simp add: DEFAULT_CHUNK_SIZE_def div_less_iff_less_mult)
qed

lemma seal_result:
  assumes "ed_ok X" "aead_ok (aes_seal X) (aes_open X)" "env_codec_ok B" "env_seal X B V payload sk bk = Inr e"
  obtains km where "sealed_envelope X B payload sk bk km e"
proof -
  from assms(4) obtain t km cs md where km: "derive_shared_encryption_key X sk bk (sl_salt V) = Inr km"
    and cs: "seal_chunks X B sk km md (sl_clocks V) (length (chunks DEFAULT_CHUNK_SIZE payload)) 0 (chunks DEFAULT_CHUNK_SIZE payload) = Inr cs"
    and e: "e = \<lparr> ev_version = ENVELOPE_VERSION_V2, ev_hkdf_salt = sl_salt V, ev_chunks = cs, ev_verifying_key = ed_public X sk,
       ev_beneficiary_key = bk, ev_metadata = md \<rparr>"
    and md: "em_payload_size md = word_of_nat (length payload)"
      "em_chunk_count md = word_of_nat ((length payload + DEFAULT_CHUNK_SIZE - 1) div DEFAULT_CHUNK_SIZE)"
    unfolding env_seal_def Let_def by (auto simp: res_simps)
  from seal_chunks_result [OF assms(1-3) cs] md km chunk_count(2) [of payload] show thesis
    unfolding chunk_count(1) [symmetric] by (intro that [of km]) (simp add: sealed_envelope_def Let_def e)
qed

lemma drop_nat_be: "drop 1 (nat_be (Suc k) n) = nat_be k n"
proof (induction k arbitrary: n)
  case (Suc k)
  have "drop 1 (nat_be (Suc (Suc k)) n) = drop 1 (nat_be (Suc k) (n div 256)) @ [word_of_nat (n mod 256)]"
    by (subst nat_be.simps(2)) (simp del: nat_be.simps)
  then show ?case unfolding Suc by simp
qed simp

lemma nat_be_eq_iff: "nat_be k a = nat_be k b \<longleftrightarrow> a mod 256 ^ k = b mod 256 ^ k"
  using be_nat_be [of k a] be_nat_be [of k b] nat_be_nat [of "nat_be k a"] nat_be_nat [of "nat_be k b"]
  by (auto simp del: nat_be.simps)

lemma chunk_nonce_alt: "chunk_nonce p q l = p @ nat_be 3 (unat q) @ [if l then 0xFF else 0]"
proof -
  have "drop 1 (nat_be 4 n) = nat_be 3 n" for n using drop_nat_be [of 3 n] by (simp del: nat_be.simps)
  moreover have "unat (ucast q :: u32) mod 256 ^ 3 = unat q mod 256 ^ 3"
    using mod_mod_cancel [of "256 ^ 3 :: nat" "2 ^ 32" "unat q"] by (simp add: unsigned_ucast_eq take_bit_eq_mod)
  then have "nat_be 3 (unat (ucast q :: u32)) = nat_be 3 (unat q)" unfolding nat_be_eq_iff .
  ultimately show ?thesis by (simp add: chunk_nonce_def u32_to_be_bytes_def del: nat_be.simps)
qed

lemma nonce_eq_iff: "chunk_nonce p q l = chunk_nonce p r m \<longleftrightarrow> unat q mod 2 ^ 24 = unat r mod 2 ^ 24 \<and> l = m"
  by (auto simp: chunk_nonce_alt nat_be_eq_iff simp del: nat_be.simps)

lemma seal_succeeds:
  assumes "env_codec_ok B" "hkdf_len X" "aes_total X" "sl_now V \<noteq> None" "length payload \<le> 2 ^ 40"
    "\<not> list_all (\<lambda>b. b = 0) (x25519_dh X (ed_scalar X sk) (ed_montgomery X bk))"
  shows "\<exists>e. env_seal X B V payload sk bk = Inr e"
proof -
  obtain t km where t: "sl_now V = Some t" and km: "derive_shared_encryption_key X sk bk (sl_salt V) = Inr km"
    using assms(4,6) by (auto simp: derive_shared_encryption_key_def Let_def)
  have "length (chunks DEFAULT_CHUNK_SIZE payload) \<le> 2 ^ 24" using assms(5) chunk_count(2) by blast
  with seal_chunks_total [OF assms(1,3) derive_lengths [OF assms(2) km, THEN conjunct1] derive_lengths [OF assms(2) km, THEN conjunct2],
      of "chunks DEFAULT_CHUNK_SIZE payload" 0] chunks_bounds [of _ DEFAULT_CHUNK_SIZE payload]
  have "\<exists>cs. seal_chunks X B sk km md f n 0 (chunks DEFAULT_CHUNK_SIZE payload) = Inr cs" for md f n by auto
  then show ?thesis unfolding env_seal_def Let_def t km by (simp add: res_simps)
qed

lemma seal_opens:
  assumes "ed_ok X" "aead_ok (aes_seal X) (aes_open X)" "env_codec_ok B" "dh_ok X" "env_seal X B V payload sk (ed_public X rk) = Inr e"
  shows "env_verify X B e \<and> env_unseal X B e rk = Inr payload \<and> ev_verifying_key e = ed_public X sk \<and> ev_beneficiary_key e = ed_public X rk"
proof -
  from assms(5) obtain km where s: "sealed_envelope X B payload sk (ed_public X rk) km e" by (rule seal_result [OF assms(1-3)])
  have "env_verify X B e \<and> env_unseal X B e rk = Inr (concat (chunks DEFAULT_CHUNK_SIZE payload))"
    by (rule unseal_arranged [OF _ refl _ _ refl _ _ _ _])
      (use s derive_commute [OF assms(4), of rk sk "ev_hkdf_salt e"] ed_ok_simps(2) [OF assms(1)] in
        \<open>auto simp: sealed_envelope_def Let_def sealed_as_def unat_of_nat DEFAULT_CHUNK_SIZE_def\<close>)
  then show ?thesis using s by (simp add: sealed_envelope_def DEFAULT_CHUNK_SIZE_def)
qed

section \<open>Properties\<close>

text \<open>
  C33: sealing succeeds exactly when the clock can be read, the Diffie-Hellman secret is not zero and the payload has at most
  \<open>2 ^ 40\<close> bytes; what is sealed for a beneficiary verifies, and the beneficiary's key recovers the payload.
\<close>

theorem envelope_roundtrip:
  assumes "ed_ok X" "aead_ok (aes_seal X) (aes_open X)" "env_codec_ok B" "dh_ok X" "hkdf_len X" "aes_total X"
  shows "((\<exists>e. env_seal X B V payload sk (ed_public X rk) = Inr e) \<longleftrightarrow> sl_now V \<noteq> None \<and> length payload \<le> 2 ^ 40 \<and>
      \<not> list_all (\<lambda>b. b = 0) (x25519_dh X (ed_scalar X sk) (ed_montgomery X (ed_public X rk)))) \<and>
    (\<forall>e. env_seal X B V payload sk (ed_public X rk) = Inr e \<longrightarrow> env_verify X B e \<and> env_unseal X B e rk = Inr payload)"
proof (intro conjI iffI allI impI)
  assume "\<exists>e. env_seal X B V payload sk (ed_public X rk) = Inr e"
  then obtain e where e: "env_seal X B V payload sk (ed_public X rk) = Inr e" by blast
  obtain km where km: "sealed_envelope X B payload sk (ed_public X rk) km e" by (rule seal_result [OF assms(1-3) e])
  show "sl_now V \<noteq> None" using e by (auto simp: env_seal_def res_simps)
  show "length payload \<le> 2 ^ 40" "\<not> list_all (\<lambda>b. b = 0) (x25519_dh X (ed_scalar X sk) (ed_montgomery X (ed_public X rk)))"
    using km by (auto simp: sealed_envelope_def derive_shared_encryption_key_def Let_def split: if_splits)
next
  assume "sl_now V \<noteq> None \<and> length payload \<le> 2 ^ 40 \<and>
      \<not> list_all (\<lambda>b. b = 0) (x25519_dh X (ed_scalar X sk) (ed_montgomery X (ed_public X rk)))"
  then show "\<exists>e. env_seal X B V payload sk (ed_public X rk) = Inr e" using seal_succeeds [OF assms(3,5,6)] by blast
next
  fix e assume "env_seal X B V payload sk (ed_public X rk) = Inr e"
  then show "env_verify X B e" "env_unseal X B e rk = Inr payload" using seal_opens [OF assms(1-4)] by blast+
qed

text \<open>
  C34: within an envelope no nonce is used twice. Three bytes of the chunk index enter the nonce, so indices that differ by
  \<open>2 ^ 24\<close> would share one; sealing refuses such payloads, every sealed envelope has at most \<open>2 ^ 24\<close> chunks, their nonces are
  distinct, and only the last chunk carries the last-chunk flag.
\<close>

theorem envelope_nonces_distinct:
  assumes "ed_ok X" "aead_ok (aes_seal X) (aes_open X)" "env_codec_ok B" "env_seal X B V payload sk bk = Inr e"
  shows "distinct (map nc_nonce (ev_chunks e)) \<and> length (ev_chunks e) \<le> 2 ^ 24 \<and>
    (\<forall>k < length (ev_chunks e). last (nc_nonce (ev_chunks e ! k)) = (if Suc k = length (ev_chunks e) then 0xFF else 0)) \<and>
    chunk_nonce p 0 l = chunk_nonce p (2 ^ 24) l"
proof -
  from assms(4) obtain km where s: "sealed_envelope X B payload sk bk km e" by (rule seal_result [OF assms(1-3)])
  define n where "n = length (ev_chunks e)"
  have n: "n \<le> 2 ^ 24" and c: "\<And>k. k < n \<Longrightarrow> nc_nonce (ev_chunks e ! k) = chunk_nonce (snd km) (word_of_nat k) (k = n - 1)"
    using s by (auto simp: sealed_envelope_def Let_def sealed_as_def n_def)
  have "unat (word_of_nat k :: u64) = k" if "k < n" for k using that n by (simp add: unat_of_nat)
  then have "i = j" if "i < n" "j < n" "nc_nonce (ev_chunks e ! i) = nc_nonce (ev_chunks e ! j)" for i j
    using that n by (simp add: c nonce_eq_iff)
  then have "distinct (map nc_nonce (ev_chunks e))" unfolding distinct_conv_nth n_def [symmetric] length_map by (metis nth_map n_def)
  moreover have "chunk_nonce p 0 l = chunk_nonce p (2 ^ 24) l" by (simp add: nonce_eq_iff)
  moreover have "last (nc_nonce (ev_chunks e ! k)) = (if Suc k = n then 0xFF else 0)" if "k < n" for k
    using that by (auto simp: c chunk_nonce_alt simp del: nat_be.simps)
  ultimately show ?thesis using n by (simp add: n_def)
qed

lemma length_concat_mset: "mset a = mset b \<Longrightarrow> length (concat a) = length (concat b)"
proof -
  assume "mset a = mset b"
  then have "sum_mset (image_mset length (mset a)) = sum_mset (image_mset length (mset b))" by simp
  then show ?thesis unfolding mset_map [symmetric] sum_mset_sum_list length_concat .
qed

lemma renumbered_chunk:
  "signed_chunk X B k (d\<lparr> nc_sequence := q \<rparr>) = signed_chunk X B k d" "decrypt_chunk_v2 X B (d\<lparr> nc_sequence := q \<rparr>) = decrypt_chunk_v2 X B d"
  by (simp_all add: signed_chunk_def decrypt_chunk_v2_def Let_def fun_eq_iff cong: if_cong)

text \<open>Two chunks before the last that have exchanged places and clear sequence numbers still verify and decrypt.\<close>

lemma swapped_chunk:
  fixes cs i j
  defines "ci \<equiv> (cs ! i)\<lparr> nc_sequence := word_of_nat j \<rparr>" and "cj \<equiv> (cs ! j)\<lparr> nc_sequence := word_of_nat i \<rparr>"
  assumes c: "\<And>k. k < length cs \<Longrightarrow> sealed_as X B key km (length cs) k (ps ! k) (cs ! k)"
    and l: "length ps = length cs" "i < j" "Suc j < length cs" "k < length cs"
  shows "nc_sequence (cs[i := cj, j := ci] ! k) = word_of_nat k \<and> signed_chunk X B key (cs[i := cj, j := ci] ! k) \<and>
    decrypt_chunk_v2 X B (cs[i := cj, j := ci] ! k) km (k = length cs - 1) = Inr (ps[i := ps ! j, j := ps ! i] ! k)"
proof -
  have at: "signed_chunk X B key (cs ! m) \<and> decrypt_chunk_v2 X B (cs ! m) km False = Inr (ps ! m)" if "m = i \<or> m = j" for m
  proof -
    have f: "m < length cs" "(m = length cs - 1) = False" using that l by auto
    from c [OF f(1)] show ?thesis unfolding sealed_as_def f(2) by blast
  qed
  consider "k = i" | "k = j" | "k \<noteq> i" "k \<noteq> j" by blast
  then show ?thesis
  proof cases
    case 1
    then have "cs[i := cj, j := ci] ! k = cj" "ps[i := ps ! j, j := ps ! i] ! k = ps ! j" "(k = length cs - 1) = False" using l by auto
    then show ?thesis using at [of j] 1 by (simp add: renumbered_chunk cj_def)
  next
    case 2
    then have "cs[i := cj, j := ci] ! k = ci" "ps[i := ps ! j, j := ps ! i] ! k = ps ! i" "(k = length cs - 1) = False" using l by auto
    then show ?thesis using at [of i] 2 by (simp add: renumbered_chunk ci_def)
  next
    case 3
    then have "cs[i := cj, j := ci] ! k = cs ! k" "ps[i := ps ! j, j := ps ! i] ! k = ps ! k" by simp_all
    then show ?thesis using c [OF l(4)] unfolding sealed_as_def by (simp only:)
  qed
qed

text \<open>
  C35: the order of the chunks is not authenticated. Sorting uses the sequence number that travels in the clear beside each chunk,
  decryption the one inside its signed manifest, and nothing compares the two: exchanging the clear numbers of two chunks before
  the last gives an envelope that still verifies and that opens, without an error, to the payload with these chunks exchanged.
\<close>

theorem envelope_chunks_reorderable:
  assumes "ed_ok X" "aead_ok (aes_seal X) (aes_open X)" "env_codec_ok B" "dh_ok X" "env_seal X B V payload sk (ed_public X rk) = Inr e"
    and ij: "i < j" "Suc j < length (ev_chunks e)"
  defines "ps \<equiv> chunks DEFAULT_CHUNK_SIZE payload" and "cs \<equiv> ev_chunks e"
  defines "e' \<equiv> e\<lparr> ev_chunks := cs[i := (cs ! i)\<lparr> nc_sequence := word_of_nat j \<rparr>, j := (cs ! j)\<lparr> nc_sequence := word_of_nat i \<rparr>] \<rparr>"
  shows "env_verify X B e' \<and> env_unseal X B e' rk = Inr (concat (ps[i := ps ! j, j := ps ! i]))"
proof -
  from assms(5) obtain km where s: "sealed_envelope X B payload sk (ed_public X rk) km e" by (rule seal_result [OF assms(1-3)])
  let ?n = "length cs"
  let ?ci = "(cs ! i)\<lparr> nc_sequence := word_of_nat j \<rparr>" and ?cj = "(cs ! j)\<lparr> nc_sequence := word_of_nat i \<rparr>"
  let ?qs = "ps[i := ps ! j, j := ps ! i]"
  have n: "?n \<le> 2 ^ 24" "length ps = ?n" and c: "\<And>k. k < ?n \<Longrightarrow> sealed_as X B (ed_public X sk) km ?n k (ps ! k) (cs ! k)"
    using s by (auto simp: sealed_envelope_def Let_def cs_def ps_def)
  have mset: "mset (cs[i := ?ci, j := ?cj]) = mset (cs[i := ?cj, j := ?ci])"
    using ij mset_swap [of i "cs[i := ?ci, j := ?cj]" j] by (simp add: cs_def list_update_swap)
  have "env_verify X B e' \<and> env_unseal X B e' rk = Inr (concat ?qs)"
  proof (rule unseal_arranged)
    show "mset (ev_chunks e') = mset (cs[i := ?cj, j := ?ci])" using mset by (simp add: e'_def)
    show "nc_sequence (cs[i := ?cj, j := ?ci] ! k) = word_of_nat k \<and> signed_chunk X B (ed_public X sk) (cs[i := ?cj, j := ?ci] ! k) \<and>
      decrypt_chunk_v2 X B (cs[i := ?cj, j := ?ci] ! k) km (k = ?n - 1) = Inr (?qs ! k)" if "k < ?n" for k
      using swapped_chunk [of cs X B "ed_public X sk" km ps i j k] c n(2) ij that unfolding cs_def by blast
    have "length (concat ?qs) = length (concat ps)"
      by (rule length_concat_mset, rule mset_swap) (use ij n(2) in \<open>simp_all add: cs_def\<close>)
    also have "\<dots> = length payload" by (simp add: ps_def DEFAULT_CHUNK_SIZE_def)
    finally show "unat (em_payload_size (ev_metadata e')) = length (concat ?qs)"
      using s by (simp add: e'_def sealed_envelope_def unat_of_nat)
    show "derive_shared_encryption_key X rk (ed_public X sk) (ev_hkdf_salt e') = Inr km"
      using s derive_commute [OF assms(4), of rk sk "ev_hkdf_salt e"] by (simp add: e'_def sealed_envelope_def)
    show "ev_version e' = ENVELOPE_VERSION_V2" "em_chunk_count (ev_metadata e') = word_of_nat ?n" "ed_key X (ev_verifying_key e') = Inr (ed_public X sk)"
      using s ed_ok_simps(2) [OF assms(1)] unfolding sealed_envelope_def Let_def by (simp_all add: e'_def cs_def)
  qed (use n in simp_all)
  then show ?thesis .
qed

section \<open>Witnesses\<close>

text \<open>A codec: fields preceded by their length in unary.\<close>

definition framed :: "bytes list \<Rightarrow> bytes" where
  "framed bs = concat (map (\<lambda>b. replicate (length b) 1 @ 0 # b) bs)"

function unframed :: "bytes \<Rightarrow> bytes list" where
  "unframed s = (if s = [] then [] else
     let n = length (takeWhile (\<lambda>b. b = 1) s); rest = drop (Suc n) s in take n rest # unframed (drop n rest))"
  by auto
termination by (relation "measure length") auto

declare unframed.simps [simp del]

lemma framed_simps: "framed [] = []" "framed (b # bs) = replicate (length b) 1 @ 0 # b @ framed bs"
  by (simp_all add: framed_def)

lemma unframed_framed [simp]: "unframed (framed bs) = bs"
proof (induction bs)
  case (Cons b bs)
  have "takeWhile (\<lambda>b. b = 1) (replicate n 1 @ (0 :: u8) # r) = replicate n 1" for n r by (induction n) auto
  then show ?case by (subst unframed.simps) (simp add: framed_simps Cons Let_def)
qed (simp add: framed_simps unframed.simps)

lemma framed_inj [simp]: "framed a = framed b \<longleftrightarrow> a = b"
  by (metis unframed_framed)

definition opt_list :: "'a option \<Rightarrow> 'a list" where
  "opt_list v = (case v of None \<Rightarrow> [] | Some x \<Rightarrow> [x])"

definition list_opt :: "'a list \<Rightarrow> 'a option" where
  "list_opt l = (case l of [] \<Rightarrow> None | x # _ \<Rightarrow> Some x)"

lemma list_opt_list [simp]: "list_opt (opt_list v) = v"
  by (simp add: list_opt_def opt_list_def split: option.splits)

lemma length_framed: "length (framed bs) = sum_list (map (\<lambda>b. 2 * length b + 1) bs)"
  by (induction bs) (simp_all add: framed_simps)

definition manifest_frame :: "ChunkManifest \<Rightarrow> bytes" where
  "manifest_frame m = framed [u64_to_be_bytes (cm_sequence m), u32_to_be_bytes (cm_chunk_size m), u64_to_be_bytes (cm_timestamp m),
     str_bytes (cm_format_hint m), cm_key_derivation_salt m, u32_to_be_bytes (cm_pbkdf2_iterations m)]"

definition manifest_unframe :: "bytes \<Rightarrow> string + ChunkManifest" where
  "manifest_unframe s = (case unframed s of
       [a, b, c, d, e, f] \<Rightarrow> Inr \<lparr> cm_sequence = u64_from_be_bytes a, cm_chunk_size = u32_from_be_bytes b, cm_timestamp = u64_from_be_bytes c,
         cm_format_hint = bytes_str d, cm_key_derivation_salt = e, cm_pbkdf2_iterations = u32_from_be_bytes f \<rparr>
     | _ \<Rightarrow> Inl ''unexpected end of file'')"

definition signed_unframe :: "bytes \<Rightarrow> string + SignedManifest" where
  "signed_unframe s = (case unframed s of
       [a, b, c] \<Rightarrow> Inr \<lparr> sm_manifest = a, sm_sig = b, sm_pubkey = c \<rparr> | _ \<Rightarrow> Inl ''unexpected end of file'')"

definition chunk_frame :: "NetworkChunk \<Rightarrow> bytes" where
  "chunk_frame c = framed [u64_to_be_bytes (nc_sequence c), nc_data c, nc_manifest c, nc_nonce c, u64_to_be_bytes (nc_timestamp c)]"

definition metadata_frame :: "EnvelopeMetadata \<Rightarrow> bytes" where
  "metadata_frame m = framed [u64_to_be_bytes (em_created_at m), u64_to_be_bytes (em_payload_size m), u32_to_be_bytes (em_chunk_count m),
     [em_aead_algorithm m, em_signature_algorithm m, em_hash_algorithm m]]"

definition envelope_frame :: "Envelope \<Rightarrow> bytes" where
  "envelope_frame e = framed [[ev_version e], ev_hkdf_salt e, framed (map chunk_frame (ev_chunks e)), ev_verifying_key e, ev_beneficiary_key e,
     metadata_frame (ev_metadata e)]"

definition sample_env_codec :: env_codec where
  "sample_env_codec = \<lparr> bc_manifest = (\<lambda>m. Inr (manifest_frame m)), bc_manifest_dec = manifest_unframe,
     bc_signed = (\<lambda>s. Inr (framed [sm_manifest s, sm_sig s, sm_pubkey s])), bc_signed_dec = signed_unframe,
     bc_envelope = (\<lambda>e. Inr (envelope_frame e)) \<rparr>"

definition sample_dh :: dh_crates where
  "sample_dh = crates.extend (sample_crates\<lparr> hkdf := \<lambda>s k i n. take n (k @ replicate n 1) \<rparr>)
     \<lparr> ed_scalar = pad32, ed_montgomery = id, x25519_dh = (\<lambda>a b. map2 (+) a b), derive_key = (\<lambda>c m. sample_digest m) \<rparr>"

lemma be_bytes_inj [simp]: "u64_to_be_bytes a = u64_to_be_bytes b \<longleftrightarrow> a = b" "u32_to_be_bytes c = u32_to_be_bytes d \<longleftrightarrow> c = d"
  by (metis u64_be_roundtrip, metis u32_be_roundtrip)

lemma envelope_frame_inj: "inj envelope_frame"
proof (rule injI)
  have c: "inj chunk_frame" by (rule injI) (simp add: chunk_frame_def)
  fix a b assume "envelope_frame a = envelope_frame b"
  then show "a = b" by (simp add: envelope_frame_def metadata_frame_def inj_map_eq_map [OF c])
qed

lemma sample_env_codec_ok: "env_codec_ok sample_env_codec"
  using envelope_frame_inj by (simp add: env_codec_ok_def sample_env_codec_def manifest_frame_def manifest_unframe_def signed_unframe_def inj_def)

lemma sample_dh_base:
  "ed_public sample_dh = pad32" "ed_key sample_dh = ed_key sample_crates" "ed_sign sample_dh = ed_sign sample_crates" "ed_verify sample_dh = ed_verify sample_crates"
  "aes_seal sample_dh = sample_seal" "aes_open sample_dh = sample_open" "hkdf sample_dh = (\<lambda>s k i n. take n (k @ replicate n 1))"
  "ed_scalar sample_dh = pad32" "ed_montgomery sample_dh = id" "x25519_dh sample_dh = (\<lambda>a b. map2 (+) a b)"
  by (simp_all add: sample_dh_def crates.defs sample_crates_def)

lemma sample_dh_oks:
  "ed_ok sample_dh" "aead_ok (aes_seal sample_dh) (aes_open sample_dh)" "dh_ok sample_dh" "hkdf_len sample_dh" "aes_total sample_dh"
proof -
  show "ed_ok sample_dh" using sample_ed_ok by (simp add: ed_ok_def sample_dh_base) (simp add: sample_crates_def)
  show "aead_ok (aes_seal sample_dh) (aes_open sample_dh)" using sample_aead_ok by (simp add: sample_dh_base)
  have "map2 (+) a b = map2 (+) b (a :: bytes)" for a b
    by (rule nth_equalityI) (auto simp: add.commute)
  then show "dh_ok sample_dh" unfolding dh_ok_def sample_dh_base id_apply by blast
qed (auto simp: hkdf_len_def aes_total_def sample_dh_base sample_seal_def min_def)

lemma sample_key: "length k = 32 \<Longrightarrow> ed_public sample_dh k = k" "length k = 32 \<Longrightarrow> ed_key sample_dh k = Inr k"
  by (simp_all add: sample_dh_base pad32_def sample_crates_def)

definition sample_seal_env :: seal_env where
  "sample_seal_env = \<lparr> sl_now = Some 7, sl_salt = replicate 32 2, sl_clocks = (\<lambda>_. Some 7) \<rparr>"

lemma sample_secret: "\<not> list_all (\<lambda>b. b = 0) (x25519_dh sample_dh (ed_scalar sample_dh (replicate 32 1)) (ed_montgomery sample_dh (ed_public sample_dh (replicate 32 3))))"
  by (simp add: sample_dh_base pad32_def zip_replicate list_all_length exI [of _ 0])

theorem envelope_roundtrip_witness:
  "\<exists>e. env_seal sample_dh sample_env_codec sample_seal_env [1, 2] (replicate 32 1) (ed_public sample_dh (replicate 32 3)) = Inr e \<and>
     env_verify sample_dh sample_env_codec e \<and> env_unseal sample_dh sample_env_codec e (replicate 32 3) = Inr [1, 2]"
  using envelope_roundtrip [OF sample_dh_oks(1,2) sample_env_codec_ok sample_dh_oks(3-5), of sample_seal_env "[1, 2]" "replicate 32 1" "replicate 32 3"]
    sample_secret by (auto simp: sample_seal_env_def)

lemma sample_sealed:
  assumes "length payload \<le> 2 ^ 40"
  obtains e where "env_seal sample_dh sample_env_codec sample_seal_env payload (replicate 32 1) (ed_public sample_dh (replicate 32 3)) = Inr e"
    "length (ev_chunks e) = length (chunks DEFAULT_CHUNK_SIZE payload)"
proof -
  let ?pk = "ed_public sample_dh (replicate 32 3)"
  obtain e where e: "env_seal sample_dh sample_env_codec sample_seal_env payload (replicate 32 1) ?pk = Inr e"
    using seal_succeeds [OF sample_env_codec_ok sample_dh_oks(4,5) _ assms sample_secret, of sample_seal_env] by (auto simp: sample_seal_env_def)
  obtain km where "sealed_envelope sample_dh sample_env_codec payload (replicate 32 1) ?pk km e"
    by (rule seal_result [OF sample_dh_oks(1,2) sample_env_codec_ok e])
  with e that show thesis by (simp add: sealed_envelope_def Let_def)
qed

theorem envelope_nonces_distinct_witness:
  "\<exists>e. env_seal sample_dh sample_env_codec sample_seal_env [1, 2] (replicate 32 1) (ed_public sample_dh (replicate 32 3)) = Inr e \<and>
     distinct (map nc_nonce (ev_chunks e))"
proof -
  obtain e where e: "env_seal sample_dh sample_env_codec sample_seal_env [1, 2] (replicate 32 1) (ed_public sample_dh (replicate 32 3)) = Inr e"
    by (rule sample_sealed [of "[1, 2]"]) simp_all
  from envelope_nonces_distinct [OF sample_dh_oks(1,2) sample_env_codec_ok e] e show ?thesis by blast
qed

theorem envelope_chunks_reorderable_witness:
  "\<exists>e e'. env_seal sample_dh sample_env_codec sample_seal_env (replicate DEFAULT_CHUNK_SIZE 1 @ replicate DEFAULT_CHUNK_SIZE 2 @ [3])
       (replicate 32 1) (ed_public sample_dh (replicate 32 3)) = Inr e \<and>
     env_verify sample_dh sample_env_codec e' \<and>
     env_unseal sample_dh sample_env_codec e' (replicate 32 3) = Inr (replicate DEFAULT_CHUNK_SIZE 2 @ replicate DEFAULT_CHUNK_SIZE 1 @ [3])"
proof -
  let ?a = "replicate DEFAULT_CHUNK_SIZE (1 :: u8)" and ?b = "replicate DEFAULT_CHUNK_SIZE (2 :: u8)"
  have pos: "0 < DEFAULT_CHUNK_SIZE" by (simp add: DEFAULT_CHUNK_SIZE_def)
  have ch: "chunks DEFAULT_CHUNK_SIZE (?a @ ?b @ [3]) = [?a, ?b, [3]]"
    using pos by (simp add: chunks_append chunks.simps [of _ "[3]"])
  have "length (?a @ ?b @ [3]) \<le> 2 ^ 40" unfolding length_append length_replicate by (simp add: DEFAULT_CHUNK_SIZE_def)
  then obtain e where e: "env_seal sample_dh sample_env_codec sample_seal_env (?a @ ?b @ [3]) (replicate 32 1) (ed_public sample_dh (replicate 32 3)) = Inr e"
    "length (ev_chunks e) = length (chunks DEFAULT_CHUNK_SIZE (?a @ ?b @ [3]))" by (rule sample_sealed)
  then have l: "(0 :: nat) < 1" "Suc 1 < length (ev_chunks e)" unfolding ch by simp_all
  have "concat ([?a, ?b, [3]][0 := [?a, ?b, [3]] ! 1, 1 := [?a, ?b, [3]] ! 0]) = ?b @ ?a @ [3]" by simp
  with envelope_chunks_reorderable [OF sample_dh_oks(1,2) sample_env_codec_ok sample_dh_oks(3) e(1) l] e(1)
  show ?thesis unfolding ch by metis
qed

end
