(* ===== verification/Receipts.thy ===== *)
theory Receipts
  imports Envelope
begin

text \<open>
  Ownership receipts (\<^verbatim>\<open>crates/core/src/applications/receipts/mod.rs\<close>): transferable claims sealed in envelopes, each naming the
  hash of the envelope before it. serde_json on receipts is the record \<open>receipt_codec\<close>; the clock readings and the randomness of
  one call are its \<open>receipt_env\<close>.
\<close>

record OwnershipReceipt =
  or_issuer :: bytes
  or_beneficiary :: bytes
  or_amount :: u64
  or_prev_envelope_hash :: "bytes option"
  or_description :: "string option"
  or_created_at :: u64

record receipt_codec =
  or_print :: "OwnershipReceipt \<Rightarrow> string + bytes"
  or_parse :: "bytes \<Rightarrow> string + OwnershipReceipt"

text \<open>serde_json reads back the receipts it writes.\<close>

definition receipt_codec_ok :: "receipt_codec \<Rightarrow> bool" where
  "receipt_codec_ok J \<longleftrightarrow> (\<forall>r b. or_print J r = Inr b \<longrightarrow> or_parse J b = Inr r)"

record receipt_env =
  re_created :: clock
  re_now :: clock
  re_seal :: seal_env

definition new_origin :: "'x crates_scheme \<Rightarrow> clock \<Rightarrow> bytes \<Rightarrow> bytes \<Rightarrow> u64 \<Rightarrow> string option \<Rightarrow> OwnershipReceipt" where
  "new_origin X now issuer_key beneficiary_key amount description =
     \<lparr> or_issuer = ed_public X issuer_key, or_beneficiary = beneficiary_key, or_amount = amount, or_prev_envelope_hash = None,
       or_description = description, or_created_at = unwrap_clock now \<rparr>"

definition new_assignment :: "'x crates_scheme \<Rightarrow> clock \<Rightarrow> bytes \<Rightarrow> bytes \<Rightarrow> u64 \<Rightarrow> bytes \<Rightarrow> string option \<Rightarrow> OwnershipReceipt" where
  "new_assignment X now issuer_key beneficiary_key amount prev_envelope_hash description =
     \<lparr> or_issuer = ed_public X issuer_key, or_beneficiary = beneficiary_key, or_amount = amount,
       or_prev_envelope_hash = Some prev_envelope_hash, or_description = description, or_created_at = unwrap_clock now \<rparr>"

definition issuer_key :: "'x crates_scheme \<Rightarrow> OwnershipReceipt \<Rightarrow> anyhow + bytes" where
  "issuer_key X r = map_err (\<lambda>e. [''Invalid issuer key: '' @ e]) (ed_key X (or_issuer r))"

definition beneficiary_key :: "'x crates_scheme \<Rightarrow> OwnershipReceipt \<Rightarrow> anyhow + bytes" where
  "beneficiary_key X r = map_err (\<lambda>e. [''Invalid beneficiary key: '' @ e]) (ed_key X (or_beneficiary r))"

definition is_origin :: "OwnershipReceipt \<Rightarrow> bool" where
  "is_origin r \<longleftrightarrow> or_prev_envelope_hash r = None"

definition or_validate :: "'x crates_scheme \<Rightarrow> clock \<Rightarrow> OwnershipReceipt \<Rightarrow> anyhow + unit" where
  "or_validate X now r =
     (if or_amount r = 0 then Inl [''OwnershipReceipt amount cannot be zero'']
      else
      res_bind (with_context ''Invalid issuer key'' (issuer_key X r)) (\<lambda>_.
      res_bind (with_context ''Invalid beneficiary key'' (beneficiary_key X r)) (\<lambda>_.
      if or_created_at r > unwrap_clock now + 300 then Inl [''OwnershipReceipt timestamp is too far in the future'']
      else Inr ())))"

definition or_create_receipt ::
  "'x dh_crates_scheme \<Rightarrow> env_codec \<Rightarrow> receipt_codec \<Rightarrow> receipt_env \<Rightarrow> bytes \<Rightarrow> bytes \<Rightarrow> u64 \<Rightarrow> string option \<Rightarrow> anyhow + Envelope" where
  "or_create_receipt X B J V issuer beneficiary amount description =
     (let receipt = new_origin X (re_created V) issuer beneficiary amount description in
      res_bind (with_context ''OwnershipReceipt validation failed'' (or_validate X (re_now V) receipt)) (\<lambda>_.
      res_bind (map_err (\<lambda>e. [''Failed to serialize receipt'', e]) (or_print J receipt)) (\<lambda>payload.
      with_context ''Failed to seal receipt in envelope'' (env_seal X B (re_seal V) payload issuer beneficiary))))"

definition assign_receipt ::
  "'x dh_crates_scheme \<Rightarrow> env_codec \<Rightarrow> receipt_codec \<Rightarrow> receipt_env \<Rightarrow> Envelope \<Rightarrow> bytes \<Rightarrow> bytes \<Rightarrow> string option \<Rightarrow> anyhow + Envelope" where
  "assign_receipt X B J V previous_envelope assigner_key new_beneficiary_key description =
     (if \<not> env_verify X B previous_envelope then Inl [''Previous envelope signature is invalid'']
      else
      res_bind (env_beneficiary X previous_envelope) (\<lambda>previous_beneficiary.
      if previous_beneficiary \<noteq> ed_public X assigner_key then Inl [''Assigner key does not match previous beneficiary'']
      else
      res_bind (with_context (''Failed to unseal previous envelope - assigner key may be invalid'')
        (env_unseal X B previous_envelope assigner_key)) (\<lambda>previous_payload.
      res_bind (map_err (\<lambda>e. [''Failed to deserialize previous receipt'', e]) (or_parse J previous_payload)) (\<lambda>previous_receipt.
      res_bind (env_hash X B previous_envelope) (\<lambda>prev_hash.
      let assignment_receipt = new_assignment X (re_created V) assigner_key new_beneficiary_key (or_amount previous_receipt) prev_hash description in
      res_bind (with_context ''Assignment receipt validation failed'' (or_validate X (re_now V) assignment_receipt)) (\<lambda>_.
      res_bind (map_err (\<lambda>e. [''Failed to serialize assignment receipt'', e]) (or_print J assignment_receipt)) (\<lambda>payload.
      with_context ''Failed to seal assignment receipt in envelope''
        (env_seal X B (re_seal V) payload assigner_key new_beneficiary_key))))))))"

definition extract_receipt ::
  "'x dh_crates_scheme \<Rightarrow> env_codec \<Rightarrow> receipt_codec \<Rightarrow> clock \<Rightarrow> Envelope \<Rightarrow> bytes \<Rightarrow> anyhow + OwnershipReceipt" where
  "extract_receipt X B J now envelope decryption_key =
     res_bind (with_context ''Failed to unseal envelope'' (env_unseal X B envelope decryption_key)) (\<lambda>payload.
     res_bind (map_err (\<lambda>e. [''Failed to deserialize receipt from payload'', e]) (or_parse J payload)) (\<lambda>receipt.
     res_bind (with_context ''Extracted receipt validation failed'' (or_validate X now receipt)) (\<lambda>_.
     Inr receipt)))"

section \<open>Chains\<close>

fun chain_continuous :: "'x crates_scheme \<Rightarrow> Envelope list \<Rightarrow> bool" where
  "chain_continuous X (prev # cur # es) =
     (case env_issuer X cur of
        Inl _ \<Rightarrow> False
      | Inr current_issuer \<Rightarrow>
          (case env_beneficiary X prev of
             Inl _ \<Rightarrow> False
           | Inr prev_beneficiary \<Rightarrow> current_issuer = prev_beneficiary \<and> chain_continuous X (cur # es)))"
| "chain_continuous X _ = True"

definition verify_signature_chain :: "'x crates_scheme \<Rightarrow> env_codec \<Rightarrow> Envelope list \<Rightarrow> bool" where
  "verify_signature_chain X B envelopes =
     (if envelopes = [] then False
      else if \<not> list_all (env_verify X B) envelopes then False
      else chain_continuous X envelopes)"

definition at_envelope :: "nat \<Rightarrow> string \<Rightarrow> string" where
  "at_envelope i t = ''envelope '' @ show_nat i @ '': '' @ t"

fun extract_all ::
  "'x dh_crates_scheme \<Rightarrow> env_codec \<Rightarrow> receipt_codec \<Rightarrow> clock \<Rightarrow> nat \<Rightarrow> Envelope list \<Rightarrow> bytes list \<Rightarrow> anyhow + OwnershipReceipt list" where
  "extract_all X B J now i (e # es) (k # ks) =
     res_bind (with_context (at_envelope i ''unseal/extract failed'') (extract_receipt X B J now e k)) (\<lambda>r.
     res_bind (extract_all X B J now (Suc i) es ks) (\<lambda>rs. Inr (r # rs)))"
| "extract_all X B J now i _ _ = Inr []"

fun check_links :: "'x crates_scheme \<Rightarrow> env_codec \<Rightarrow> nat \<Rightarrow> (Envelope \<times> OwnershipReceipt) list \<Rightarrow> anyhow + unit" where
  "check_links X B i ((pe, pr) # (e, r) # rest) =
     res_bind (with_context (at_envelope i ''hash failed'') (env_hash X B pe)) (\<lambda>prev_hash.
     if or_prev_envelope_hash r \<noteq> Some prev_hash
     then Inl [at_envelope (Suc i) (''prev_envelope_hash does not match envelope '' @ show_nat i @ [CHR 0x27] @ ''s hash'')]
     else if or_issuer r \<noteq> or_beneficiary pr
     then Inl [at_envelope (Suc i) ''issuer does not match previous beneficiary'']
     else if or_amount r \<noteq> or_amount pr
     then Inl [at_envelope (Suc i) (''amount '' @ show_nat (unat (or_amount r)) @ '' != previous amount '' @ show_nat (unat (or_amount pr)))]
     else check_links X B (Suc i) ((e, r) # rest))"
| "check_links X B i _ = Inr ()"

fun check_parties :: "'x crates_scheme \<Rightarrow> nat \<Rightarrow> (Envelope \<times> OwnershipReceipt) list \<Rightarrow> anyhow + unit" where
  "check_parties X i [] = Inr ()"
| "check_parties X i ((e, r) # rest) =
     res_bind (with_context (at_envelope i ''invalid issuer key'') (env_issuer X e)) (\<lambda>issuer.
     if or_issuer r \<noteq> issuer then Inl [at_envelope i ''receipt issuer does not match the signing key'']
     else
     res_bind (with_context (at_envelope i ''invalid beneficiary key'') (env_beneficiary X e)) (\<lambda>beneficiary.
     if or_beneficiary r \<noteq> beneficiary then Inl [at_envelope i ''receipt beneficiary does not match the envelope beneficiary'']
     else check_parties X (Suc i) rest))"

definition verify_receipt_chain_with_keys ::
  "'x dh_crates_scheme \<Rightarrow> env_codec \<Rightarrow> receipt_codec \<Rightarrow> clock \<Rightarrow> Envelope list \<Rightarrow> bytes list \<Rightarrow> anyhow + unit" where
  "verify_receipt_chain_with_keys X B J now envelopes keys =
     (if envelopes = [] then Inl [''empty receipt chain'']
      else if length keys \<noteq> length envelopes
      then Inl [''need one beneficiary key per envelope: '' @ show_nat (length keys) @ '' keys for '' @ show_nat (length envelopes) @ '' envelopes'']
      else
      res_bind (extract_all X B J now 0 envelopes keys) (\<lambda>receipts.
      if \<not> is_origin (hd receipts) then Inl [''envelope 0 is not an origin receipt (prev_envelope_hash must be None)'']
      else
      res_bind (check_links X B 0 (zip envelopes receipts)) (\<lambda>_.
      check_parties X 0 (zip envelopes receipts))))"

section \<open>What an accepted chain is\<close>

definition linked :: "'x crates_scheme \<Rightarrow> env_codec \<Rightarrow> Envelope \<times> OwnershipReceipt \<Rightarrow> Envelope \<times> OwnershipReceipt \<Rightarrow> bool" where
  "linked X B p q \<longleftrightarrow> (\<exists>h. env_hash X B (fst p) = Inr h \<and> or_prev_envelope_hash (snd q) = Some h) \<and>
     or_issuer (snd q) = or_beneficiary (snd p) \<and> or_amount (snd q) = or_amount (snd p)"

definition parties :: "'x crates_scheme \<Rightarrow> Envelope \<times> OwnershipReceipt \<Rightarrow> bool" where
  "parties X p \<longleftrightarrow> env_issuer X (fst p) = Inr (or_issuer (snd p)) \<and> env_beneficiary X (fst p) = Inr (or_beneficiary (snd p))"

lemma check_links_iff: "check_links X B i ps = Inr () \<longleftrightarrow> successively (linked X B) ps"
  by (induction X B i ps rule: check_links.induct) (auto simp: res_simps linked_def successively.simps)

lemma check_parties_iff: "check_parties X i ps = Inr () \<longleftrightarrow> list_all (parties X) ps"
  by (induction X i ps rule: check_parties.induct) (auto simp: res_simps parties_def)

lemma extract_all_iff:
  "length ks = length es \<Longrightarrow> extract_all X B J now i es ks = Inr rs \<longleftrightarrow>
     length rs = length es \<and> (\<forall>j < length es. extract_receipt X B J now (es ! j) (ks ! j) = Inr (rs ! j))"
proof (induction ks es arbitrary: i rs rule: list_induct2)
  case (Cons k ks e es)
  then show ?case by (cases rs) (auto simp: res_simps All_less_Suc2)
qed (auto)

lemma chain_accepted_iff:
  "verify_receipt_chain_with_keys X B J now es ks = Inr () \<longleftrightarrow> es \<noteq> [] \<and> length ks = length es \<and>
     (\<exists>rs. length rs = length es \<and> (\<forall>j < length es. extract_receipt X B J now (es ! j) (ks ! j) = Inr (rs ! j)) \<and>
        is_origin (hd rs) \<and> successively (linked X B) (zip es rs) \<and> list_all (parties X) (zip es rs))"
  by (cases "length ks = length es")
    (auto simp: verify_receipt_chain_with_keys_def res_simps extract_all_iff check_links_iff check_parties_iff split: if_splits)

lemma extract_verified: "extract_receipt X B J now e k = Inr r \<Longrightarrow> env_verify X B e"
  by (auto simp: extract_receipt_def res_simps env_unseal_def split: if_splits)

lemma accepted_continuous: "successively (linked X B) ps \<Longrightarrow> list_all (parties X) ps \<Longrightarrow> chain_continuous X (map fst ps)"
proof (induction ps rule: induct_list012)
  case (3 p q ps)
  then show ?case by (auto simp: linked_def parties_def)
qed auto

lemma accepted_signatures:
  assumes "verify_receipt_chain_with_keys X B J now es ks = Inr ()"
  shows "verify_signature_chain X B es"
proof -
  from assms obtain rs where rs: "es \<noteq> []" "length rs = length es" "\<forall>j < length es. extract_receipt X B J now (es ! j) (ks ! j) = Inr (rs ! j)"
    "successively (linked X B) (zip es rs)" "list_all (parties X) (zip es rs)" by (auto simp: chain_accepted_iff)
  have "list_all (env_verify X B) es" using rs(3) extract_verified unfolding list_all_length by blast
  with accepted_continuous [OF rs(4,5)] rs(1,2) show ?thesis by (simp add: verify_signature_chain_def)
qed

lemma accepted_amounts:
  "successively (linked X B) ps \<Longrightarrow> p \<in> set ps \<Longrightarrow> or_amount (snd p) = or_amount (snd (hd ps))"
proof (induction ps rule: induct_list012)
  case (3 a b ps)
  then show ?case by (auto simp: linked_def)
qed auto

lemma history_determined:
  assumes det: "\<And>p q. p \<in> S \<Longrightarrow> q \<in> S \<Longrightarrow> fst p = fst q \<Longrightarrow> p = q"
    and hash: "\<And>p q h. p \<in> S \<Longrightarrow> q \<in> S \<Longrightarrow> env_hash X B (fst p) = Inr h \<Longrightarrow> env_hash X B (fst q) = Inr h \<Longrightarrow> fst p = fst q"
  shows "set ps \<subseteq> S \<Longrightarrow> set qs \<subseteq> S \<Longrightarrow> successively (linked X B) ps \<Longrightarrow> successively (linked X B) qs \<Longrightarrow> ps \<noteq> [] \<Longrightarrow> qs \<noteq> [] \<Longrightarrow>
    is_origin (snd (hd ps)) \<Longrightarrow> is_origin (snd (hd qs)) \<Longrightarrow> fst (last ps) = fst (last qs) \<Longrightarrow> ps = qs"
proof (induction ps arbitrary: qs rule: rev_induct)
  case (snoc p ps)
  obtain q qs' where qs: "qs = qs' @ [q]" using snoc.prems(6) by (metis rev_exhaust)
  have "p \<in> S" "q \<in> S" "fst p = fst q" using snoc.prems(1,2,9) qs by simp_all
  from det [OF this] have pq: "p = q" .
  show ?case
  proof (cases "ps = [] \<or> qs' = []")
    case True
    then have "ps = [] \<and> qs' = []" using snoc.prems(3,4,7,8) qs pq by (auto simp: successively_append_iff linked_def is_origin_def)
    then show ?thesis using pq qs by simp
  next
    case False
    then have l: "linked X B (last ps) p" "linked X B (last qs') q" "successively (linked X B) ps" "successively (linked X B) qs'"
      using snoc.prems(3,4) qs by (auto simp: successively_append_iff)
    then obtain h where "env_hash X B (fst (last ps)) = Inr h" "env_hash X B (fst (last qs')) = Inr h" using pq by (auto simp: linked_def)
    moreover have sub: "set ps \<subseteq> S" "set qs' \<subseteq> S" using snoc.prems(1,2) qs by auto
    moreover have "last ps \<in> set ps" "last qs' \<in> set qs'" using False by simp_all
    ultimately have last: "fst (last ps) = fst (last qs')" using hash by blast
    have "ps = qs'" by (rule snoc.IH [OF sub l(3,4) _ _ _ _ last]) (use snoc.prems(7,8) False qs in auto)
    then show ?thesis using pq qs by simp
  qed
qed simp

lemma env_hash_inj:
  assumes codec: "env_codec_ok B" and coll: "no_collision X {b. \<exists>e \<in> S. bc_envelope B e = Inr b}"
    and h: "a \<in> S" "b \<in> S" "env_hash X B a = Inr h" "env_hash X B b = Inr h"
  shows "a = b"
proof -
  obtain x y where xy: "bc_envelope B a = Inr x" "bc_envelope B b = Inr y" "blake3_hash X x = blake3_hash X y"
    using h(3,4) by (auto simp: env_hash_def res_simps)
  have "x = y" by (rule no_collisionD [OF coll _ _ xy(3)]) (use h(1,2) xy(1,2) in blast)+
  then have "bc_envelope B a = bc_envelope B b" using xy by simp
  moreover have "inj (bc_envelope B)" using codec unfolding env_codec_ok_def by blast
  ultimately show ?thesis by (simp add: inj_eq)
qed

definition receipts_of ::
  "'x dh_crates_scheme \<Rightarrow> env_codec \<Rightarrow> receipt_codec \<Rightarrow> clock \<Rightarrow> (bytes \<Rightarrow> bytes) \<Rightarrow> Envelope list \<Rightarrow> OwnershipReceipt list \<Rightarrow> bool" where
  "receipts_of X B J now K es rs \<longleftrightarrow> length rs = length es \<and> es \<noteq> [] \<and> is_origin (hd rs) \<and> successively (linked X B) (zip es rs) \<and>
     (\<forall>p \<in> set (zip es rs). extract_receipt X B J now (fst p) (K (ev_beneficiary_key (fst p))) = Inr (snd p))"

lemma accepted_receipts:
  assumes "verify_receipt_chain_with_keys X B J now es (map (\<lambda>e. K (ev_beneficiary_key e)) es) = Inr ()"
  obtains rs where "receipts_of X B J now K es rs"
proof -
  from assms obtain rs where rs: "es \<noteq> []" "length rs = length es" "is_origin (hd rs)" "successively (linked X B) (zip es rs)"
    and x: "\<And>j. j < length es \<Longrightarrow> extract_receipt X B J now (es ! j) (K (ev_beneficiary_key (es ! j))) = Inr (rs ! j)"
    by (auto simp: chain_accepted_iff)
  have "extract_receipt X B J now (fst p) (K (ev_beneficiary_key (fst p))) = Inr (snd p)" if p: "p \<in> set (zip es rs)" for p
  proof -
    from p obtain j where "j < length es" "fst p = es ! j" "snd p = rs ! j" by (auto simp: in_set_zip)
    with x show ?thesis by simp
  qed
  with rs show thesis by (intro that [of rs]) (simp add: receipts_of_def)
qed

lemma receipts_of_zip:
  assumes "receipts_of X B J now K es rs"
  shows "zip es rs \<noteq> []" "is_origin (snd (hd (zip es rs)))" "fst (last (zip es rs)) = last es" "map fst (zip es rs) = es"
proof -
  have l: "length rs = length es" "es \<noteq> []" "rs \<noteq> []" "is_origin (hd rs)" using assms by (auto simp: receipts_of_def)
  then show "zip es rs \<noteq> []" "is_origin (snd (hd (zip es rs)))" by (auto simp: neq_Nil_conv)
  show "fst (last (zip es rs)) = last es" "map fst (zip es rs) = es" using l by (simp_all add: last_zip)
qed

text \<open>
  C36: the last envelope of an accepted chain determines its whole history. With one keyring for the beneficiaries, two chains that
  \<^verbatim>\<open>verify_receipt_chain_with_keys\<close> accepts and that end in the same envelope are equal, barring BLAKE3 collisions, and every
  receipt of an accepted chain is for the amount of its origin. An accepted chain also passes the check of signatures alone.
\<close>

theorem receipt_chain_history:
  assumes codec: "env_codec_ok B" and coll: "no_collision X {b. \<exists>e \<in> set es \<union> set es'. bc_envelope B e = Inr b}"
    and acc: "verify_receipt_chain_with_keys X B J now es (map (\<lambda>e. K (ev_beneficiary_key e)) es) = Inr ()"
      "verify_receipt_chain_with_keys X B J now es' (map (\<lambda>e. K (ev_beneficiary_key e)) es') = Inr ()"
    and last: "last es = last es'"
  shows "es = es' \<and> verify_signature_chain X B es \<and>
    (\<exists>a. \<forall>e \<in> set es. \<exists>r. extract_receipt X B J now e (K (ev_beneficiary_key e)) = Inr r \<and> or_amount r = a)"
proof -
  obtain rs where rs: "receipts_of X B J now K es rs" by (rule accepted_receipts [OF acc(1)])
  obtain rs' where rs': "receipts_of X B J now K es' rs'" by (rule accepted_receipts [OF acc(2)])
  let ?S = "set (zip es rs) \<union> set (zip es' rs')"
  have ext: "extract_receipt X B J now (fst p) (K (ev_beneficiary_key (fst p))) = Inr (snd p)" if "p \<in> ?S" for p
    using that rs rs' unfolding receipts_of_def by blast
  have "zip es rs = zip es' rs'"
  proof (rule history_determined [where S = ?S])
    show "p = q" if "p \<in> ?S" "q \<in> ?S" "fst p = fst q" for p q using ext [OF that(1)] ext [OF that(2)] that(3) by (simp add: prod_eq_iff)
    show "fst p = fst q" if "p \<in> ?S" "q \<in> ?S" "env_hash X B (fst p) = Inr h" "env_hash X B (fst q) = Inr h" for p q h
      using that(1,2) by (intro env_hash_inj [OF codec coll _ _ that(3,4)]) (cases p, cases q, auto dest: set_zip_leftD)+
    show "fst (last (zip es rs)) = fst (last (zip es' rs'))" using receipts_of_zip(3) [OF rs] receipts_of_zip(3) [OF rs'] last by simp
    show "successively (linked X B) (zip es rs)" "successively (linked X B) (zip es' rs')" using rs rs' by (simp_all add: receipts_of_def)
  qed (simp_all only: receipts_of_zip(1,2) [OF rs] receipts_of_zip(1,2) [OF rs'] Un_upper1 Un_upper2 not_False_eq_True)
  then have "map fst (zip es rs) = map fst (zip es' rs')" by simp
  then have "es = es'" unfolding receipts_of_zip(4) [OF rs] receipts_of_zip(4) [OF rs'] .
  moreover have "\<exists>r. extract_receipt X B J now e (K (ev_beneficiary_key e)) = Inr r \<and> or_amount r = or_amount (snd (hd (zip es rs)))" if "e \<in> set es" for e
  proof -
    from that have "e \<in> set (map fst (zip es rs))" unfolding receipts_of_zip(4) [OF rs] .
    then obtain p where p: "p \<in> set (zip es rs)" "fst p = e" by auto
    with ext [of p] accepted_amounts [of X B "zip es rs" p] rs show ?thesis by (auto simp: receipts_of_def)
  qed
  ultimately show ?thesis using accepted_signatures [OF acc(1)] by blast
qed

section \<open>Honest chains\<close>

text \<open>
  The chains that owners make: an origin, and assignments by the present beneficiary, with the keys of the beneficiaries. \<open>now\<close> is the
  time at which the chain is verified; no receipt is dated more than five minutes later.
\<close>

inductive issued :: "'x dh_crates_scheme \<Rightarrow> env_codec \<Rightarrow> receipt_codec \<Rightarrow> clock \<Rightarrow> Envelope list \<Rightarrow> bytes list \<Rightarrow> bool" for X B J now where
  origin: "or_create_receipt X B J V k0 (ed_public X k) a d = Inr e \<Longrightarrow> unwrap_clock (re_created V) \<le> unwrap_clock now + 300 \<Longrightarrow>
    issued X B J now [e] [k]"
| assign: "issued X B J now es ks \<Longrightarrow> assign_receipt X B J V (last es) (last ks) (ed_public X k) d = Inr e \<Longrightarrow>
    unwrap_clock (re_created V) \<le> unwrap_clock now + 300 \<Longrightarrow> issued X B J now (es @ [e]) (ks @ [k])"

lemma sealed_receipt:
  assumes X: "ed_ok X" "aead_ok (aes_seal X) (aes_open X)" "env_codec_ok B" "dh_ok X" and J: "receipt_codec_ok J"
    and seal: "env_seal X B V payload sk (ed_public X k) = Inr e" and r: "or_print J r = Inr payload" "or_validate X t r = Inr ()"
    and now: "or_created_at r \<le> unwrap_clock now + 300" and parties: "or_issuer r = ed_public X sk" "or_beneficiary r = ed_public X k"
  shows "extract_receipt X B J now e k = Inr r \<and> parties X (e, r)"
proof -
  note o = seal_opens [OF X seal]
  have "or_parse J payload = Inr r" using J r(1) unfolding receipt_codec_ok_def by blast
  moreover have "or_validate X now r = Inr ()" using r(2) now by (auto simp: or_validate_def res_simps not_less split: if_splits)
  ultimately show ?thesis using o parties ed_ok_simps(2) [OF X(1)]
    by (simp add: extract_receipt_def with_context_def parties_def env_issuer_def env_beneficiary_def)
qed

definition chain_ok :: "'x dh_crates_scheme \<Rightarrow> env_codec \<Rightarrow> receipt_codec \<Rightarrow> clock \<Rightarrow> Envelope list \<Rightarrow> bytes list \<Rightarrow> OwnershipReceipt list \<Rightarrow> bool" where
  "chain_ok X B J now es ks rs \<longleftrightarrow> es \<noteq> [] \<and> length ks = length es \<and> length rs = length es \<and>
     (\<forall>j < length es. extract_receipt X B J now (es ! j) (ks ! j) = Inr (rs ! j)) \<and>
     is_origin (hd rs) \<and> successively (linked X B) (zip es rs) \<and> list_all (parties X) (zip es rs)"

lemma chain_ok_snoc:
  assumes "chain_ok X B J now es ks rs" "extract_receipt X B J now e k = Inr r" "parties X (e, r)" "linked X B (last es, last rs) (e, r)"
  shows "chain_ok X B J now (es @ [e]) (ks @ [k]) (rs @ [r])"
proof -
  have l: "es \<noteq> []" "rs \<noteq> []" "length ks = length es" "length rs = length es" using assms(1) by (auto simp: chain_ok_def)
  then have "zip es rs \<noteq> []" "last (zip es rs) = (last es, last rs)" by (auto simp: last_zip)
  with assms l show ?thesis by (auto simp: chain_ok_def successively_append_iff nth_append less_Suc_eq)
qed

lemma issued_chain_ok:
  assumes X: "ed_ok X" "aead_ok (aes_seal X) (aes_open X)" "env_codec_ok B" "dh_ok X" and J: "receipt_codec_ok J"
  shows "issued X B J now es ks \<Longrightarrow> \<exists>rs. chain_ok X B J now es ks rs"
proof (induction rule: issued.induct)
  case (origin V k0 k a d e)
  let ?r = "new_origin X (re_created V) k0 (ed_public X k) a d"
  from origin(1) obtain payload where "or_print J ?r = Inr payload" "or_validate X (re_now V) ?r = Inr ()"
    "env_seal X B (re_seal V) payload k0 (ed_public X k) = Inr e" by (auto simp: or_create_receipt_def Let_def res_simps)
  with sealed_receipt [OF X J, of "re_seal V" payload k0 k e ?r "re_now V" now] origin(2)
  show ?case by (intro exI [of _ "[?r]"]) (simp add: chain_ok_def new_origin_def is_origin_def)
next
  case (assign es ks V k d e)
  then obtain rs where rs: "chain_ok X B J now es ks rs" by blast
  define le lk lr where "le = last es" and "lk = last ks" and "lr = last rs"
  have l: "es \<noteq> []" "rs \<noteq> []" "ks \<noteq> []" "length ks = length es" "length rs = length es" using rs by (auto simp: chain_ok_def)
  then have "extract_receipt X B J now le lk = Inr lr"
    using rs by (simp add: chain_ok_def last_conv_nth le_def lk_def lr_def)
  moreover from assign.hyps(2) obtain pp pr h payload where a: "env_unseal X B le lk = Inr pp" "or_parse J pp = Inr pr" "env_hash X B le = Inr h"
    "env_beneficiary X le = Inr (ed_public X lk)" and
    r: "or_print J (new_assignment X (re_created V) lk (ed_public X k) (or_amount pr) h d) = Inr payload"
      "or_validate X (re_now V) (new_assignment X (re_created V) lk (ed_public X k) (or_amount pr) h d) = Inr ()"
      "env_seal X B (re_seal V) payload lk (ed_public X k) = Inr e"
    by (auto simp: assign_receipt_def Let_def res_simps le_def lk_def split: if_splits)
  ultimately have pr: "pr = lr" by (auto simp: extract_receipt_def res_simps)
  let ?r = "new_assignment X (re_created V) lk (ed_public X k) (or_amount pr) h d"
  have "(le, lr) \<in> set (zip es rs)" using l last_in_set [of "zip es rs"] by (auto simp: last_zip le_def lr_def)
  then have "parties X (le, lr)" using rs by (auto simp: chain_ok_def list_all_iff)
  then have "linked X B (le, lr) (e, ?r)" using a pr by (auto simp: linked_def parties_def new_assignment_def)
  moreover have "extract_receipt X B J now e k = Inr ?r \<and> parties X (e, ?r)"
    using sealed_receipt [OF X J r(3,1,2)] assign.hyps(3) by (simp add: new_assignment_def)
  ultimately show ?case using chain_ok_snoc [OF rs] unfolding le_def lr_def by blast
qed

lemma issued_accepted:
  assumes "ed_ok X" "aead_ok (aes_seal X) (aes_open X)" "env_codec_ok B" "dh_ok X" "receipt_codec_ok J" "issued X B J now es ks"
  shows "verify_receipt_chain_with_keys X B J now es ks = Inr ()"
  using issued_chain_ok [OF assms] unfolding chain_ok_def chain_accepted_iff by blast

text \<open>
  C37: every chain that owners make, an origin followed by assignments each made by the present beneficiary, is accepted with the
  beneficiaries' keys, and by the check of signatures alone.
\<close>

theorem issued_chain_accepted:
  assumes "ed_ok X" "aead_ok (aes_seal X) (aes_open X)" "env_codec_ok B" "dh_ok X" "receipt_codec_ok J" "issued X B J now es ks"
  shows "verify_receipt_chain_with_keys X B J now es ks = Inr () \<and> verify_signature_chain X B es"
  using issued_accepted [OF assms] accepted_signatures by blast

section \<open>Witnesses\<close>

definition receipt_frame :: "OwnershipReceipt \<Rightarrow> bytes" where
  "receipt_frame r = framed [or_issuer r, or_beneficiary r, u64_to_be_bytes (or_amount r), framed (opt_list (or_prev_envelope_hash r)),
     framed (map str_bytes (opt_list (or_description r))), u64_to_be_bytes (or_created_at r)]"

definition receipt_unframe :: "bytes \<Rightarrow> string + OwnershipReceipt" where
  "receipt_unframe s = (case unframed s of
       [a, b, c, d, e, f] \<Rightarrow> Inr \<lparr> or_issuer = a, or_beneficiary = b, or_amount = u64_from_be_bytes c, or_prev_envelope_hash = list_opt (unframed d),
         or_description = list_opt (map bytes_str (unframed e)), or_created_at = u64_from_be_bytes f \<rparr>
     | _ \<Rightarrow> Inl ''EOF while parsing an object'')"

definition sample_receipt_codec :: receipt_codec where
  "sample_receipt_codec = \<lparr> or_print = (\<lambda>r. Inr (receipt_frame r)), or_parse = receipt_unframe \<rparr>"

lemma sample_receipt_codec_ok: "receipt_codec_ok sample_receipt_codec"
  by (simp add: receipt_codec_ok_def sample_receipt_codec_def receipt_frame_def receipt_unframe_def comp_def)

definition sample_receipt_env :: receipt_env where
  "sample_receipt_env = \<lparr> re_created = Some 5, re_now = Some 5, re_seal = sample_seal_env \<rparr>"

lemma sample_receipt_seals:
  assumes "length payload \<le> 2 ^ 40" "a + b \<noteq> 0"
  shows "\<exists>e. env_seal sample_dh sample_env_codec sample_seal_env payload (replicate 32 a) (replicate 32 b) = Inr e"
proof (rule seal_succeeds [OF sample_env_codec_ok sample_dh_oks(4,5) _ assms(1)])
  show "\<not> list_all (\<lambda>b. b = 0) (x25519_dh sample_dh (ed_scalar sample_dh (replicate 32 a)) (ed_montgomery sample_dh (replicate 32 b)))"
    using assms(2) by (simp add: sample_dh_base pad32_def zip_replicate list_all_length exI [of _ 0])
qed (simp add: sample_seal_env_def)

text \<open>The first party makes out a receipt to the second, which assigns it to the third.\<close>

lemma sample_chain:
  obtains e e' where
    "or_create_receipt sample_dh sample_env_codec sample_receipt_codec sample_receipt_env (replicate 32 1) (ed_public sample_dh (replicate 32 3)) 9 None = Inr e"
    "assign_receipt sample_dh sample_env_codec sample_receipt_codec sample_receipt_env e (replicate 32 3) (ed_public sample_dh (replicate 32 5)) None = Inr e'"
proof -
  let ?k = "\<lambda>b :: u8. replicate 32 b"
  let ?r = "new_origin sample_dh (Some 5) (?k 1) (?k 3) 9 None"
  have k: "ed_public sample_dh (?k b) = ?k b" "ed_key sample_dh (?k b) = Inr (?k b)" for b using sample_key by simp_all
  have v: "or_validate sample_dh (Some 5) r = Inr ()" if "or_amount r = 9" "or_created_at r = 5" "\<exists>b. or_issuer r = ?k b" "\<exists>b. or_beneficiary r = ?k b" for r
    using that by (auto simp: or_validate_def issuer_key_def beneficiary_key_def k unwrap_clock_def)
  have "length (receipt_frame ?r) \<le> 2 ^ 40" by (simp add: receipt_frame_def length_framed new_origin_def k opt_list_def)
  with sample_receipt_seals [of "receipt_frame ?r" 1 3] obtain e where
    seal: "env_seal sample_dh sample_env_codec sample_seal_env (receipt_frame ?r) (?k 1) (?k 3) = Inr e" by auto
  have e: "or_create_receipt sample_dh sample_env_codec sample_receipt_codec sample_receipt_env (?k 1) (ed_public sample_dh (?k 3)) 9 None = Inr e"
    using v [of ?r] seal unfolding k by (simp add: or_create_receipt_def Let_def sample_receipt_env_def sample_receipt_codec_def new_origin_def k with_context_def unwrap_clock_def)
  note o = seal_opens [OF sample_dh_oks(1,2) sample_env_codec_ok sample_dh_oks(3), of sample_seal_env "receipt_frame ?r" "?k 1" "?k 3" e, unfolded k, OF seal]
  obtain h where h: "env_hash sample_dh sample_env_codec e = Inr h" "length h = 32"
    by (auto simp: env_hash_def sample_env_codec_def sample_dh_def crates.defs sample_crates_def sample_digest_def)
  let ?a = "new_assignment sample_dh (Some 5) (?k 3) (?k 5) 9 h None"
  have "length (receipt_frame ?a) \<le> 2 ^ 40" using h(2) by (simp add: receipt_frame_def length_framed new_assignment_def k opt_list_def)
  with sample_receipt_seals [of "receipt_frame ?a" 3 5] obtain e' where
    seal': "env_seal sample_dh sample_env_codec sample_seal_env (receipt_frame ?a) (?k 3) (?k 5) = Inr e'" by auto
  have "receipt_unframe (receipt_frame ?r) = Inr ?r"
    using sample_receipt_codec_ok by (simp add: receipt_codec_ok_def sample_receipt_codec_def)
  moreover have "or_amount ?r = 9" "or_validate sample_dh (Some 5) ?a = Inr ()" using v [of ?a] by (auto simp: new_origin_def new_assignment_def k unwrap_clock_def)
  ultimately have "assign_receipt sample_dh sample_env_codec sample_receipt_codec sample_receipt_env e (?k 3) (ed_public sample_dh (?k 5)) None = Inr e'"
    using o h(1) seal' by (simp add: assign_receipt_def Let_def sample_receipt_env_def sample_receipt_codec_def k env_beneficiary_def with_context_def)
  with e that show thesis by blast
qed

theorem issued_chain_accepted_witness:
  "\<exists>e e'. verify_receipt_chain_with_keys sample_dh sample_env_codec sample_receipt_codec (Some 5) [e, e'] [replicate 32 3, replicate 32 5] = Inr () \<and>
     verify_signature_chain sample_dh sample_env_codec [e, e']"
proof (rule sample_chain)
  fix e e'
  assume "or_create_receipt sample_dh sample_env_codec sample_receipt_codec sample_receipt_env (replicate 32 1) (ed_public sample_dh (replicate 32 3)) 9 None = Inr e"
  then have i: "issued sample_dh sample_env_codec sample_receipt_codec (Some 5) [e] [replicate 32 3]"
    by (rule issued.origin) (simp add: sample_receipt_env_def unwrap_clock_def)
  assume "assign_receipt sample_dh sample_env_codec sample_receipt_codec sample_receipt_env e (replicate 32 3) (ed_public sample_dh (replicate 32 5)) None = Inr e'"
  then have "issued sample_dh sample_env_codec sample_receipt_codec (Some 5) ([e] @ [e']) ([replicate 32 3] @ [replicate 32 5])"
    using i by (intro issued.assign [of _ _ _ _ "[e]" "[replicate 32 3]" sample_receipt_env]) (simp_all add: sample_receipt_env_def unwrap_clock_def)
  from issued_chain_accepted [OF sample_dh_oks(1,2) sample_env_codec_ok sample_dh_oks(3) sample_receipt_codec_ok this] show ?thesis by auto
qed

theorem receipt_chain_history_witness:
  "\<exists>e a. verify_receipt_chain_with_keys sample_dh sample_env_codec sample_receipt_codec (Some 5) [e] [replicate 32 3] = Inr () \<and>
     (\<exists>r. extract_receipt sample_dh sample_env_codec sample_receipt_codec (Some 5) e (replicate 32 3) = Inr r \<and> or_amount r = a)"
proof (rule sample_chain)
  fix e
  assume "or_create_receipt sample_dh sample_env_codec sample_receipt_codec sample_receipt_env (replicate 32 1) (ed_public sample_dh (replicate 32 3)) 9 None = Inr e"
  then have "issued sample_dh sample_env_codec sample_receipt_codec (Some 5) [e] [replicate 32 3]"
    by (rule issued.origin) (simp add: sample_receipt_env_def unwrap_clock_def)
  then have v: "verify_receipt_chain_with_keys sample_dh sample_env_codec sample_receipt_codec (Some 5) [e] (map (\<lambda>e. (\<lambda>_. replicate 32 3) (ev_beneficiary_key e)) [e]) = Inr ()"
    using issued_accepted [OF sample_dh_oks(1,2) sample_env_codec_ok sample_dh_oks(3) sample_receipt_codec_ok] by simp
  have "no_collision sample_dh {b. \<exists>x \<in> set [e] \<union> set [e]. bc_envelope sample_env_codec x = Inr b}"
    by (auto simp: no_collision_def inj_on_def)
  from receipt_chain_history [OF sample_env_codec_ok this v v refl] v show ?thesis by auto
qed

end
