(* ===== verification/Auth.thy ===== *)
theory Auth
  imports Envelope
begin

text \<open>
  Mutual authentication of the network transport (\<^verbatim>\<open>crates/core/src/auth.rs\<close>): server certificates, the challenge-response
  handshake of client and server over a byte stream, and the server's table of sessions. bincode on the messages is the record
  \<open>auth_codec\<close>, serde_json on certificates \<open>cert_json\<close>; clocks, randomness and file contents are arguments.
\<close>

definition SESSION_TIMEOUT :: u64 where "SESSION_TIMEOUT = 1800"
definition CHALLENGE_SIZE :: nat where "CHALLENGE_SIZE = 32"
definition SESSION_ID_SIZE :: nat where "SESSION_ID_SIZE = 16"

section \<open>Certificates\<close>

record ClientCertificate =
  cc_identity :: string
  cc_public_key :: bytes
  cc_signing_key :: "bytes option"
  cc_created_at :: clock

record ServerCertificate =
  sc_identity :: string
  sc_public_key :: bytes
  sc_valid_from :: u64
  sc_valid_until :: u64
  sc_signature :: bytes

record cert_json =
  cj_client_print :: "ClientCertificate \<Rightarrow> string + string"
  cj_server_print :: "ServerCertificate \<Rightarrow> string + string"
  cj_server_parse :: "string \<Rightarrow> string + ServerCertificate"

definition cc_generate :: "'x crates_scheme \<Rightarrow> bytes \<Rightarrow> clock \<Rightarrow> string \<Rightarrow> ClientCertificate" where
  "cc_generate X random now identity =
     \<lparr> cc_identity = identity, cc_public_key = ed_public X random, cc_signing_key = Some random, cc_created_at = now \<rparr>"

definition cc_get_signing_key :: "ClientCertificate \<Rightarrow> anyhow + bytes" where
  "cc_get_signing_key c = ok_or [''Signing key not available in certificate''] (cc_signing_key c)"

definition cert_data :: "'x crates_scheme \<Rightarrow> string \<Rightarrow> bytes \<Rightarrow> u64 \<Rightarrow> u64 \<Rightarrow> string" where
  "cert_data X identity public_key valid_from valid_until =
     identity @ '':'' @ hex_encode X public_key @ '':'' @ show_nat (unat valid_from) @ '':'' @ show_nat (unat valid_until)"

definition new_self_signed :: "'x crates_scheme \<Rightarrow> clock \<Rightarrow> string \<Rightarrow> bytes \<Rightarrow> u64 \<Rightarrow> anyhow + ServerCertificate" where
  "new_self_signed X now identity signing_key validity_days =
     res_bind (ok_or [clock_text] now) (\<lambda>now.
     let valid_until = now + validity_days * 24 * 3600; public_key = ed_public X signing_key in
     Inr \<lparr> sc_identity = identity, sc_public_key = public_key, sc_valid_from = now, sc_valid_until = valid_until,
       sc_signature = ed_sign X signing_key (str_bytes (cert_data X identity public_key now valid_until)) \<rparr>)"

definition cert_verify :: "'x crates_scheme \<Rightarrow> clock \<Rightarrow> ServerCertificate \<Rightarrow> anyhow + unit" where
  "cert_verify X now c =
     res_bind (ok_or [clock_text] now) (\<lambda>now.
     if now < sc_valid_from c \<or> now > sc_valid_until c then Inl [''Certificate expired or not yet valid'']
     else
     res_bind (map_err (\<lambda>e. [''Invalid public key: '' @ e]) (ed_key X (sc_public_key c))) (\<lambda>verifying_key.
     map_err (\<lambda>e. [''Certificate signature verification failed: '' @ e])
       (ed_verify X verifying_key (str_bytes (cert_data X (sc_identity c) (sc_public_key c) (sc_valid_from c) (sc_valid_until c)))
         (sc_signature c))))"

definition verify_pinned :: "ServerCertificate \<Rightarrow> bytes \<Rightarrow> anyhow + unit" where
  "verify_pinned c expected_pubkey =
     (if sc_public_key c \<noteq> expected_pubkey
      then Inl [''Server public key mismatch: certificate key does not match pinned key. Possible Man-in-the-Middle attack.'']
      else Inr ())"

text \<open>\<open>content\<close> is what reading the file gives.\<close>

definition load_server_cert :: "'x crates_scheme \<Rightarrow> cert_json \<Rightarrow> clock \<Rightarrow> string \<Rightarrow> string + string \<Rightarrow> anyhow + ServerCertificate" where
  "load_server_cert X J now path content =
     res_bind (map_err (\<lambda>e. [''Failed to read server certificate from '' @ path, e]) content) (\<lambda>cert_data.
     res_bind (map_err (\<lambda>e. [''Failed to parse server certificate JSON'', e]) (cj_server_parse J cert_data)) (\<lambda>cert.
     res_bind (cert_verify X now cert) (\<lambda>_. Inr cert)))"

text \<open>\<open>write\<close> is the result of writing the file.\<close>

definition save_client_cert :: "cert_json \<Rightarrow> ClientCertificate \<Rightarrow> string \<Rightarrow> (string \<Rightarrow> string + unit) \<Rightarrow> anyhow + unit" where
  "save_client_cert J cert path write =
     res_bind (map_err (\<lambda>e. [''Failed to serialize client certificate'', e]) (cj_client_print J cert)) (\<lambda>cert_json.
     map_err (\<lambda>e. [''Failed to write client certificate to '' @ path, e]) (write cert_json))"

definition save_server_cert :: "cert_json \<Rightarrow> ServerCertificate \<Rightarrow> string \<Rightarrow> (string \<Rightarrow> string + unit) \<Rightarrow> anyhow + unit" where
  "save_server_cert J cert path write =
     res_bind (map_err (\<lambda>e. [''Failed to serialize server certificate'', e]) (cj_server_print J cert)) (\<lambda>cert_json.
     map_err (\<lambda>e. [''Failed to write server certificate to '' @ path, e]) (write cert_json))"

section \<open>Messages\<close>

datatype AuthMessageType = ClientHello | ServerChallenge | ClientAuth | ServerConfirm | AuthError

record AuthChallenge =
  ac_challenge :: bytes
  ac_server_cert :: ServerCertificate
  ac_timestamp :: u64

record ClientAuthResponse =
  cr_client_public_key :: bytes
  cr_challenge_signature :: bytes
  cr_client_identity :: "string option"
  cr_timestamp :: u64

record ServerAuthConfirm =
  sa_session_id :: bytes
  sa_session_expires_at :: u64
  sa_session_signature :: bytes

record AuthMessage =
  am_msg_type :: AuthMessageType
  am_payload :: bytes

text \<open>A pair of an encoder and a decoder of bincode for one type.\<close>

type_synonym 'a codec = "('a \<Rightarrow> string + bytes) \<times> (bytes \<Rightarrow> string + 'a)"

record auth_codec =
  au_message :: "AuthMessage codec"
  au_string :: "string codec"
  au_challenge :: "AuthChallenge codec"
  au_response :: "ClientAuthResponse codec"
  au_confirm :: "ServerAuthConfirm codec"

definition am_new :: "AuthMessageType \<Rightarrow> 'a codec \<Rightarrow> 'a \<Rightarrow> anyhow + AuthMessage" where
  "am_new msg_type c payload =
     res_bind (map_err (\<lambda>e. [''Failed to serialize auth message payload'', e]) (fst c payload)) (\<lambda>payload_bytes.
     Inr \<lparr> am_msg_type = msg_type, am_payload = payload_bytes \<rparr>)"

definition deserialize_payload :: "'a codec \<Rightarrow> AuthMessage \<Rightarrow> anyhow + 'a" where
  "deserialize_payload c m = map_err (\<lambda>e. [''Failed to deserialize auth message payload'', e]) (snd c (am_payload m))"

section \<open>Session keys\<close>

definition derive_session_key :: "'x dh_crates_scheme \<Rightarrow> bytes \<Rightarrow> bytes \<Rightarrow> bytes \<Rightarrow> anyhow + bytes" where
  "derive_session_key X my_signing_key their_public_key challenge =
     (let shared_secret = x25519_dh X (ed_scalar X my_signing_key) (ed_montgomery X their_public_key) in
      if list_all (\<lambda>b. b = 0) shared_secret then Inl [''ECDH produced zero shared secret'']
      else
      let my_pub = ed_public X my_signing_key;
          key_material = shared_secret @ challenge @
            (if ord_class.lexordp my_pub their_public_key then my_pub @ their_public_key else their_public_key @ my_pub)
      in Inr (derive_key X ''SEALEDGE_SESSION_KEY_V1'' key_material))"

section \<open>Sessions\<close>

record ClientAuthResult =
  cx_session_id :: bytes
  cx_server_certificate :: ServerCertificate
  cx_session_key :: bytes

record SessionInfo =
  si_session_id :: bytes
  si_client_public_key :: bytes
  si_client_identity :: "string option"
  si_created_at :: u64
  si_expires_at :: u64
  si_authenticated :: bool
  si_session_key :: bytes

definition si_is_valid :: "clock \<Rightarrow> SessionInfo \<Rightarrow> bool" where
  "si_is_valid now s \<longleftrightarrow> si_authenticated s \<and> unwrap_clock now < si_expires_at s"

definition si_is_expired :: "clock \<Rightarrow> SessionInfo \<Rightarrow> bool" where
  "si_is_expired now s \<longleftrightarrow> unwrap_clock now \<ge> si_expires_at s"

record SessionManager =
  sm_sessions :: "bytes \<rightharpoonup> SessionInfo"
  sm_server_signing_key :: bytes
  sm_server_certificate :: ServerCertificate

definition with_signing_key :: "'x crates_scheme \<Rightarrow> clock \<Rightarrow> string \<Rightarrow> bytes \<Rightarrow> anyhow + SessionManager" where
  "with_signing_key X now server_identity signing_key =
     res_bind (new_self_signed X now server_identity signing_key 365) (\<lambda>server_certificate.
     Inr \<lparr> sm_sessions = Map.empty, sm_server_signing_key = signing_key, sm_server_certificate = server_certificate \<rparr>)"

definition sm_new :: "'x crates_scheme \<Rightarrow> bytes \<Rightarrow> clock \<Rightarrow> string \<Rightarrow> anyhow + SessionManager" where
  "sm_new X random now server_identity =
     res_bind (new_self_signed X now server_identity random 365) (\<lambda>server_certificate.
     Inr \<lparr> sm_sessions = Map.empty, sm_server_signing_key = random, sm_server_certificate = server_certificate \<rparr>)"

definition create_challenge :: "bytes \<Rightarrow> clock \<Rightarrow> SessionManager \<Rightarrow> anyhow + AuthChallenge" where
  "create_challenge random now m =
     res_bind (ok_or [clock_text] now) (\<lambda>timestamp.
     Inr \<lparr> ac_challenge = random, ac_server_cert = sm_server_certificate m, ac_timestamp = timestamp \<rparr>)"

definition FUTURE_TOLERANCE_SECS :: u64 where "FUTURE_TOLERANCE_SECS = 5"
definition PAST_TOLERANCE_SECS :: u64 where "PAST_TOLERANCE_SECS = 300"

definition saturating_sub :: "u64 \<Rightarrow> u64 \<Rightarrow> u64" where
  "saturating_sub a b = (if a < b then 0 else a - b)"

definition insert_session :: "bytes \<Rightarrow> SessionInfo \<Rightarrow> SessionManager \<Rightarrow> SessionManager" where
  "insert_session session_id s m = m\<lparr> sm_sessions := (sm_sessions m)(session_id \<mapsto> s) \<rparr>"

definition authenticate_client ::
  "'x dh_crates_scheme \<Rightarrow> bytes \<Rightarrow> clock \<Rightarrow> AuthChallenge \<Rightarrow> ClientAuthResponse \<Rightarrow> SessionManager \<Rightarrow> anyhow + SessionInfo \<times> SessionManager" where
  "authenticate_client X session_id now challenge response m =
     res_bind (ok_or [clock_text] now) (\<lambda>now.
     if cr_timestamp response > now + FUTURE_TOLERANCE_SECS
     then Inl [''Authentication response timestamp too far in the future (response='' @ show_nat (unat (cr_timestamp response)) @
       '', now='' @ show_nat (unat now) @ '')'']
     else if saturating_sub now (cr_timestamp response) > PAST_TOLERANCE_SECS
     then Inl [''Authentication response timestamp too old (response='' @ show_nat (unat (cr_timestamp response)) @
       '', now='' @ show_nat (unat now) @ '')'']
     else
     res_bind (map_err (\<lambda>e. [''Invalid client public key: '' @ e]) (ed_key X (cr_client_public_key response))) (\<lambda>client_verifying_key.
     res_bind (map_err (\<lambda>e. [''Client challenge signature verification failed: '' @ e])
       (ed_verify X client_verifying_key (ac_challenge challenge) (cr_challenge_signature response))) (\<lambda>_.
     res_bind (derive_session_key X (sm_server_signing_key m) client_verifying_key (ac_challenge challenge)) (\<lambda>session_key.
     let session = \<lparr> si_session_id = session_id, si_client_public_key = cr_client_public_key response,
           si_client_identity = cr_client_identity response, si_created_at = now, si_expires_at = now + SESSION_TIMEOUT,
           si_authenticated = True, si_session_key = session_key \<rparr>
     in Inr (session, insert_session session_id session m)))))"

definition session_data :: "'x crates_scheme \<Rightarrow> bytes \<Rightarrow> bytes \<Rightarrow> u64 \<Rightarrow> string" where
  "session_data X session_id client_public_key expires_at =
     hex_encode X session_id @ '':'' @ hex_encode X client_public_key @ '':'' @ show_nat (unat expires_at)"

definition create_auth_confirm :: "'x crates_scheme \<Rightarrow> SessionManager \<Rightarrow> SessionInfo \<Rightarrow> ServerAuthConfirm" where
  "create_auth_confirm X m s =
     \<lparr> sa_session_id = si_session_id s, sa_session_expires_at = si_expires_at s,
       sa_session_signature = ed_sign X (sm_server_signing_key m)
         (str_bytes (session_data X (si_session_id s) (si_client_public_key s) (si_expires_at s))) \<rparr>"

definition cleanup_expired_sessions :: "clock \<Rightarrow> SessionManager \<Rightarrow> SessionManager" where
  "cleanup_expired_sessions now m =
     m\<lparr> sm_sessions := (\<lambda>i. case sm_sessions m i of
          None \<Rightarrow> None | Some s \<Rightarrow> if unwrap_clock now < si_expires_at s then Some s else None) \<rparr>"

text \<open>The clock is read for the clean-up and again for the check.\<close>

definition validate_session :: "clock \<Rightarrow> clock \<Rightarrow> bytes \<Rightarrow> SessionManager \<Rightarrow> (anyhow + SessionInfo) \<times> SessionManager" where
  "validate_session now later session_id m =
     (let m' = cleanup_expired_sessions now m in
      (res_bind (ok_or [''Session not found''] (sm_sessions m' session_id)) (\<lambda>session.
         if \<not> si_is_valid later session then Inl [''Session expired or invalid''] else Inr session), m'))"

definition remove_session :: "bytes \<Rightarrow> SessionManager \<Rightarrow> SessionManager" where
  "remove_session session_id m = m\<lparr> sm_sessions := (sm_sessions m)(session_id := None) \<rparr>"

definition active_session_count :: "SessionManager \<Rightarrow> nat" where
  "active_session_count m = card (dom (sm_sessions m))"

section \<open>The handshake\<close>

text \<open>
  A party as a process over its byte stream: it returns, writes, or waits for exactly \<open>n\<close> bytes, which it gets or, when the other
  side has closed the stream before, does not. Failing writes are not represented.
\<close>

datatype 'a proc = Ret 'a | Write bytes "'a proc" | Read nat "bytes option \<Rightarrow> 'a proc"

definition u32_to_le_bytes :: "u32 \<Rightarrow> bytes" where
  "u32_to_le_bytes w = rev (u32_to_be_bytes w)"

definition u32_from_le_bytes :: "bytes \<Rightarrow> u32" where
  "u32_from_le_bytes b = u32_from_be_bytes (rev b)"

definition write_frame :: "bytes \<Rightarrow> 'a proc \<Rightarrow> 'a proc" where
  "write_frame b p = Write (u32_to_le_bytes (word_of_nat (length b))) (Write b p)"

definition read_frame :: "string \<Rightarrow> string \<Rightarrow> (anyhow \<Rightarrow> 'a proc) \<Rightarrow> (bytes \<Rightarrow> 'a proc) \<Rightarrow> 'a proc" where
  "read_frame what big err k =
     Read 4 (\<lambda>r. case r of
         None \<Rightarrow> err [''Failed to read '' @ what @ '' length'', ''early eof'']
       | Some l \<Rightarrow>
           let msg_len = unat (u32_from_le_bytes l) in
           if msg_len > 8192 then err [big @ '' message too large'']
           else Read msg_len (\<lambda>r. case r of None \<Rightarrow> err [''Failed to read '' @ what, ''early eof''] | Some b \<Rightarrow> k b))"

definition on_result :: "anyhow + 'a \<Rightarrow> (anyhow \<Rightarrow> 'b proc) \<Rightarrow> ('a \<Rightarrow> 'b proc) \<Rightarrow> 'b proc" where
  "on_result r err k = (case r of Inl e \<Rightarrow> err e | Inr x \<Rightarrow> k x)"

definition parse_message :: "auth_codec \<Rightarrow> string \<Rightarrow> bytes \<Rightarrow> anyhow + AuthMessage" where
  "parse_message B what b = map_err (\<lambda>e. [''Failed to deserialize '' @ what, e]) (snd (au_message B) b)"

definition print_message :: "auth_codec \<Rightarrow> AuthMessage \<Rightarrow> anyhow + bytes" where
  "print_message B m = map_err (\<lambda>e. [e]) (fst (au_message B) m)"

definition send_message :: "auth_codec \<Rightarrow> anyhow + AuthMessage \<Rightarrow> (anyhow \<Rightarrow> 'a proc) \<Rightarrow> 'a proc \<Rightarrow> 'a proc" where
  "send_message B msg err k = on_result (res_bind msg (print_message B)) err (\<lambda>b. write_frame b k)"

record server_env =
  sn_challenge :: bytes
  sn_challenge_now :: clock
  sn_session_id :: bytes
  sn_now :: clock

definition server_answer ::
  "'x dh_crates_scheme \<Rightarrow> auth_codec \<Rightarrow> server_env \<Rightarrow> SessionManager \<Rightarrow> AuthChallenge \<Rightarrow> bytes \<Rightarrow> ((anyhow + SessionInfo) \<times> SessionManager) proc" where
  "server_answer X B V m challenge b =
     (let err = (\<lambda>e. Ret (Inl e, m)) in
      on_result (parse_message B ''client auth'' b) err (\<lambda>client_auth.
      if am_msg_type client_auth \<noteq> ClientAuth then err [''Expected ClientAuth message'']
      else
      on_result (deserialize_payload (au_response B) client_auth) err (\<lambda>auth_response.
      case authenticate_client X (sn_session_id V) (sn_now V) challenge auth_response m of
        Inr (session, m') \<Rightarrow>
          send_message B (am_new ServerConfirm (au_confirm B) (create_auth_confirm X m' session)) (\<lambda>e. Ret (Inl e, m'))
            (Ret (Inr session, m'))
      | Inl e \<Rightarrow> send_message B (am_new AuthError (au_string B) (hd e)) err (Ret (Inl e, m)))))"

definition server_greeted ::
  "'x dh_crates_scheme \<Rightarrow> auth_codec \<Rightarrow> server_env \<Rightarrow> SessionManager \<Rightarrow> bytes \<Rightarrow> ((anyhow + SessionInfo) \<times> SessionManager) proc" where
  "server_greeted X B V m b =
     (let err = (\<lambda>e. Ret (Inl e, m)) in
      on_result (parse_message B ''client hello'' b) err (\<lambda>client_hello.
      if am_msg_type client_hello \<noteq> ClientHello then err [''Expected ClientHello message'']
      else
      on_result (create_challenge (sn_challenge V) (sn_challenge_now V) m) err (\<lambda>challenge.
      send_message B (am_new ServerChallenge (au_challenge B) challenge) err (
      read_frame ''client auth'' ''Client auth'' err (server_answer X B V m challenge)))))"

definition server_authenticate ::
  "'x dh_crates_scheme \<Rightarrow> auth_codec \<Rightarrow> server_env \<Rightarrow> SessionManager \<Rightarrow> ((anyhow + SessionInfo) \<times> SessionManager) proc" where
  "server_authenticate X B V m =
     read_frame ''client hello'' ''Client hello'' (\<lambda>e. Ret (Inl e, m)) (server_greeted X B V m)"

record client_env =
  cn_cert_now :: clock
  cn_now :: clock

definition client_confirmed ::
  "'x dh_crates_scheme \<Rightarrow> auth_codec \<Rightarrow> bytes \<Rightarrow> AuthChallenge \<Rightarrow> bytes \<Rightarrow> (anyhow + ClientAuthResult) proc" where
  "client_confirmed X B client_signing_key challenge b =
     (let err = (\<lambda>e. Ret (Inl e)) in
      on_result (parse_message B ''server response'' b) err (\<lambda>response_msg.
      case am_msg_type response_msg of
        ServerConfirm \<Rightarrow>
          on_result (deserialize_payload (au_confirm B) response_msg) err (\<lambda>confirm.
          let data = session_data X (sa_session_id confirm) (ed_public X client_signing_key) (sa_session_expires_at confirm) in
          on_result (map_err (\<lambda>e. [e]) (ed_key X (sc_public_key (ac_server_cert challenge)))) err (\<lambda>server_verifying_key.
          on_result (map_err (\<lambda>e. [''Server session signature verification failed'', e])
            (ed_verify X server_verifying_key (str_bytes data) (sa_session_signature confirm))) err (\<lambda>_.
          on_result (derive_session_key X client_signing_key server_verifying_key (ac_challenge challenge)) err (\<lambda>session_key.
          Ret (Inr \<lparr> cx_session_id = sa_session_id confirm, cx_server_certificate = ac_server_cert challenge, cx_session_key = session_key \<rparr>)))))
      | AuthError \<Rightarrow>
          on_result (deserialize_payload (au_string B) response_msg) err (\<lambda>error_msg. err [''Authentication failed: '' @ error_msg])
      | _ \<Rightarrow> err [''Unexpected server response type'']))"

definition client_challenged ::
  "'x dh_crates_scheme \<Rightarrow> auth_codec \<Rightarrow> client_env \<Rightarrow> bytes \<Rightarrow> string option \<Rightarrow> bytes \<Rightarrow> bytes \<Rightarrow> (anyhow + ClientAuthResult) proc" where
  "client_challenged X B V client_signing_key client_identity server_pubkey b =
     (let err = (\<lambda>e. Ret (Inl e)) in
      on_result (parse_message B ''server challenge'' b) err (\<lambda>challenge_msg.
      if am_msg_type challenge_msg \<noteq> ServerChallenge then err [''Expected ServerChallenge message'']
      else
      on_result (deserialize_payload (au_challenge B) challenge_msg) err (\<lambda>challenge.
      on_result (with_context ''Server certificate verification failed'' (cert_verify X (cn_cert_now V) (ac_server_cert challenge))) err (\<lambda>_.
      on_result (with_context ''Server public key pinning failed'' (verify_pinned (ac_server_cert challenge) server_pubkey)) err (\<lambda>_.
      on_result (ok_or [clock_text] (cn_now V)) err (\<lambda>timestamp.
      let auth_response = \<lparr> cr_client_public_key = ed_public X client_signing_key,
            cr_challenge_signature = ed_sign X client_signing_key (ac_challenge challenge), cr_client_identity = client_identity,
            cr_timestamp = timestamp \<rparr> in
      send_message B (am_new ClientAuth (au_response B) auth_response) err (
      read_frame ''server response'' ''Server response'' err (client_confirmed X B client_signing_key challenge))))))))"

definition client_authenticate ::
  "'x dh_crates_scheme \<Rightarrow> auth_codec \<Rightarrow> client_env \<Rightarrow> bytes \<Rightarrow> string option \<Rightarrow> bytes \<Rightarrow> (anyhow + ClientAuthResult) proc" where
  "client_authenticate X B V client_signing_key client_identity server_pubkey =
     (let err = (\<lambda>e. Ret (Inl e)) in
      send_message B (am_new ClientHello (au_string B) ''Sealedge Client v1.0'') err (
      read_frame ''server challenge'' ''Server challenge'' err (client_challenged X B V client_signing_key client_identity server_pubkey)))"

section \<open>Two parties in conversation\<close>

text \<open>
  A conversation is a pair of parties, each with the bytes that have reached it and that it has not read. Steps of the two sides
  interleave freely; a party that waits for more bytes than a finished peer has left for it meets the end of the stream.
\<close>

type_synonym ('a, 'b) conversation = "('a proc \<times> bytes) \<times> ('b proc \<times> bytes)"

inductive talk :: "('a, 'b) conversation \<Rightarrow> ('a, 'b) conversation \<Rightarrow> bool" where
  left_write: "talk ((Write b p, i), (q, j)) ((p, i), (q, j @ b))"
| left_read: "n \<le> length i \<Longrightarrow> talk ((Read n f, i), r) ((f (Some (take n i)), drop n i), r)"
| left_eof: "length i < n \<Longrightarrow> talk ((Read n f, i), (Ret y, j)) ((f None, []), (Ret y, j))"
| right_write: "talk ((p, i), (Write b q, j)) ((p, i @ b), (q, j))"
| right_read: "n \<le> length j \<Longrightarrow> talk (l, (Read n f, j)) (l, (f (Some (take n j)), drop n j))"
| right_eof: "length j < n \<Longrightarrow> talk ((Ret x, i), (Read n f, j)) ((Ret x, i), (f None, []))"

inductive_simps talk_simps:
  "talk ((Ret x, i), (Ret y, j)) c" "talk ((Ret x, i), (Write b q, j)) c" "talk ((Ret x, i), (Read n g, j)) c"
  "talk ((Write a p, i), (Ret y, j)) c" "talk ((Write a p, i), (Write b q, j)) c" "talk ((Write a p, i), (Read n g, j)) c"
  "talk ((Read m f, i), (Ret y, j)) c" "talk ((Read m f, i), (Write b q, j)) c" "talk ((Read m f, i), (Read n g, j)) c"

lemma talk_swap: "talk c d \<Longrightarrow> talk (prod.swap c) (prod.swap d)"
  by (induction rule: talk.induct) (auto intro: talk.intros)

lemma talks_swap: "talk\<^sup>*\<^sup>* c d \<Longrightarrow> talk\<^sup>*\<^sup>* (prod.swap c) (prod.swap d)"
  by (induction rule: rtranclp_induct) (auto intro: rtranclp.rtrancl_into_rtrancl talk_swap)

text \<open>Steps of the two sides commute, and each side alone is deterministic.\<close>

lemma one_of_two:
  assumes "P \<and> d = a \<or> Q \<and> d = b" "P \<and> e = a \<or> Q \<and> e = b" "P \<Longrightarrow> Q \<Longrightarrow> \<exists>f. talk a f \<and> talk b f"
  shows "d = e \<or> (\<exists>f. talk d f \<and> talk e f)"
  using assms by blast

lemma talk_diamond:
  assumes "talk c d" "talk c e"
  shows "d = e \<or> (\<exists>f. talk d f \<and> talk e f)"
proof -
  obtain p i q j where c: "c = ((p, i), (q, j))" by (metis surj_pair)
  show ?thesis
  proof (cases p; cases q)
    fix a p' b q' assume "p = Write a p'" "q = Write b q'"
    moreover have "\<exists>f. talk ((p', i), (Write b q', j @ a)) f \<and> talk ((Write a p', i @ b), (q', j)) f"
      by (blast intro: talk.intros)
    moreover have "True \<and> x = ((p', i), (Write b q', j @ a)) \<or> True \<and> x = ((Write a p', i @ b), (q', j))" if "talk c x" for x
      using that calculation(1,2) unfolding c by (auto simp: talk_simps)
    ultimately show ?thesis using assms by (intro one_of_two) blast+
  next
    fix a p' n g assume "p = Write a p'" "q = Read n g"
    moreover have "\<exists>f. talk ((p', i), (Read n g, j @ a)) f \<and> talk ((Write a p', i), (g (Some (take n j)), drop n j)) f" if "n \<le> length j"
      using talk.right_read [of n "j @ a" "(p', i)" g] talk.left_write [of a p' i "g (Some (take n j))" "drop n j"] that by auto
    moreover have "True \<and> x = ((p', i), (Read n g, j @ a)) \<or> n \<le> length j \<and> x = ((Write a p', i), (g (Some (take n j)), drop n j))" if "talk c x" for x
      using that calculation(1,2) unfolding c by (auto simp: talk_simps)
    ultimately show ?thesis using assms by (intro one_of_two) blast+
  next
    fix m f b q' assume "p = Read m f" "q = Write b q'"
    moreover have "\<exists>h. talk ((Read m f, i @ b), (q', j)) h \<and> talk ((f (Some (take m i)), drop m i), (Write b q', j)) h" if "m \<le> length i"
      using talk.left_read [of m "i @ b" f "(q', j)"] talk.right_write [of "f (Some (take m i))" "drop m i" b q' j] that by auto
    moreover have "True \<and> x = ((Read m f, i @ b), (q', j)) \<or> m \<le> length i \<and> x = ((f (Some (take m i)), drop m i), (Write b q', j))" if "talk c x" for x
      using that calculation(1,2) unfolding c by (auto simp: talk_simps)
    ultimately show ?thesis using assms by (intro one_of_two) blast+
  next
    fix m f n g assume "p = Read m f" "q = Read n g"
    moreover have "\<exists>h. talk ((f (Some (take m i)), drop m i), (Read n g, j)) h \<and> talk ((Read m f, i), (g (Some (take n j)), drop n j)) h"
      if "m \<le> length i" "n \<le> length j" using that by (blast intro: talk.left_read talk.right_read)
    moreover have "m \<le> length i \<and> x = ((f (Some (take m i)), drop m i), (Read n g, j)) \<or> n \<le> length j \<and> x = ((Read m f, i), (g (Some (take n j)), drop n j))" if "talk c x" for x
      using that calculation(1,2) unfolding c by (auto simp: talk_simps)
    ultimately show ?thesis using assms by (intro one_of_two) blast+
  qed (use assms c in \<open>auto simp: talk_simps\<close>)
qed

interpretation conversation: uniform_steps "talk :: ('a, 'b) conversation \<Rightarrow> ('a, 'b) conversation \<Rightarrow> bool"
  by unfold_locales (rule talk_diamond)

text \<open>What one party returns when the bytes \<open>i\<close> are all that its peer ever sends.\<close>

primrec outcome :: "'a proc \<Rightarrow> bytes \<Rightarrow> 'a" where
  "outcome (Ret x) i = x"
| "outcome (Write b p) i = outcome p i"
| "outcome (Read n f) i = (if n \<le> length i then outcome (f (Some (take n i))) (drop n i) else outcome (f None) [])"

definition finished :: "'a proc \<Rightarrow> bool" where
  "finished p \<longleftrightarrow> (\<exists>x. p = Ret x)"

lemma finished_simps [simp]: "finished (Ret x)" "\<not> finished (Write b p)" "\<not> finished (Read n f)"
  by (simp_all add: finished_def)

text \<open>Whatever the peer is, a returned value is the outcome on some bytes.\<close>

lemma talks_outcome:
  assumes "talk\<^sup>*\<^sup>* ((p, i), (q, j)) ((Ret x, i'), r')"
  shows "\<exists>t. outcome p (i @ t) = x \<and> (finished q \<longrightarrow> t = [])"
proof -
  have "talk\<^sup>*\<^sup>* c d \<Longrightarrow> d = ((Ret x, i'), r') \<Longrightarrow> \<exists>t. outcome (fst (fst c)) (snd (fst c) @ t) = x \<and> (finished (fst (snd c)) \<longrightarrow> t = [])"
    for c d :: "('a, 'b) conversation"
  proof (induction rule: converse_rtranclp_induct)
    case base
    then show ?case by (auto intro: exI [of _ "[]"])
  next
    case (step c d')
    from step.IH [OF step.prems] obtain t where t: "outcome (fst (fst d')) (snd (fst d') @ t) = x" "finished (fst (snd d')) \<longrightarrow> t = []" by blast
    from step.hyps(1) show ?case
    proof cases
      case (left_write b p i q j)
      with t show ?thesis by (intro exI [of _ t]) simp
    next
      case (left_read n i f r)
      with t show ?thesis by (intro exI [of _ t]) simp
    next
      case (left_eof i n f y j)
      with t show ?thesis by (intro exI [of _ "[]"]) simp
    next
      case (right_write p i b q j)
      with t show ?thesis by (intro exI [of _ "b @ t"]) simp
    next
      case (right_read n j l f)
      with t show ?thesis by (intro exI [of _ t]) simp
    next
      case (right_eof j n x' i f)
      with t show ?thesis by (intro exI [of _ t]) simp
    qed
  qed
  from this [OF assms refl] show ?thesis by simp
qed

section \<open>The session table\<close>

interpretation sessions: keyed_store sm_sessions insert_session remove_session
  by unfold_locales (simp_all add: insert_session_def remove_session_def)

definition session_wf :: "'x dh_crates_scheme \<Rightarrow> bytes \<Rightarrow> bytes \<Rightarrow> SessionInfo \<Rightarrow> bool" where
  "session_wf X server_key i s \<longleftrightarrow> si_session_id s = i \<and> length i = SESSION_ID_SIZE \<and> si_authenticated s \<and>
     si_expires_at s = si_created_at s + SESSION_TIMEOUT \<and>
     (\<exists>key challenge signature. ed_key X (si_client_public_key s) = Inr key \<and> ed_verify X key challenge signature = Inr () \<and>
        derive_session_key X server_key key challenge = Inr (si_session_key s))"

definition manager_wf :: "'x dh_crates_scheme \<Rightarrow> SessionManager \<Rightarrow> bool" where
  "manager_wf X m \<longleftrightarrow> (\<forall>i s. sm_sessions m i = Some s \<longrightarrow> session_wf X (sm_server_signing_key m) i s)"

lemma manager_kept [simp]:
  "sm_server_signing_key (insert_session i s m) = sm_server_signing_key m" "sm_server_signing_key (remove_session i m) = sm_server_signing_key m"
  "sm_server_signing_key (cleanup_expired_sessions now m) = sm_server_signing_key m"
  "sm_server_certificate (insert_session i s m) = sm_server_certificate m"
  by (simp_all add: insert_session_def remove_session_def cleanup_expired_sessions_def)

lemma cleanup_sessions:
  "sm_sessions (cleanup_expired_sessions now m) i = Some s \<longleftrightarrow> sm_sessions m i = Some s \<and> unwrap_clock now < si_expires_at s"
  by (auto simp: cleanup_expired_sessions_def split: option.splits if_splits)

lemma authenticate_client_Inr:
  assumes "authenticate_client X i now ch re m = Inr (s, m')"
  shows "m' = insert_session i s m \<and> si_client_public_key s = cr_client_public_key re \<and> si_session_id s = i \<and> si_authenticated s \<and>
    si_expires_at s = si_created_at s + SESSION_TIMEOUT \<and> now = Some (si_created_at s) \<and>
    (\<exists>key. ed_key X (cr_client_public_key re) = Inr key \<and> ed_verify X key (ac_challenge ch) (cr_challenge_signature re) = Inr () \<and>
       derive_session_key X (sm_server_signing_key m) key (ac_challenge ch) = Inr (si_session_key s))"
  using assms by (auto simp: authenticate_client_def Let_def res_bind_Inr_iff map_err_Inr_iff ok_or_Inr_iff split: if_splits)

lemma manager_wf_insert:
  assumes "manager_wf X m" "length i = SESSION_ID_SIZE" "authenticate_client X i now ch re m = Inr (s, m')"
  shows "manager_wf X m'"
  using assms(1,2) authenticate_client_Inr [OF assms(3)]
  by (auto simp: manager_wf_def sessions.lookup_insert session_wf_def split: if_splits)

text \<open>Everything a server does to its session table.\<close>

inductive manager_step :: "'x dh_crates_scheme \<Rightarrow> SessionManager \<Rightarrow> SessionManager \<Rightarrow> bool" for X where
  authenticated: "authenticate_client X i now ch re m = Inr (s, m') \<Longrightarrow> length i = SESSION_ID_SIZE \<Longrightarrow> manager_step X m m'"
| validated: "manager_step X m (snd (validate_session now later i m))"
| removed: "manager_step X m (remove_session i m)"
| cleaned: "manager_step X m (cleanup_expired_sessions now m)"

definition manager_created :: "'x dh_crates_scheme \<Rightarrow> SessionManager \<Rightarrow> bool" where
  "manager_created X m \<longleftrightarrow> (\<exists>key now name. sm_new X key now name = Inr m \<or> with_signing_key X now name key = Inr m)"

interpretation manager: invariant_system "manager_created X" "manager_step X" "manager_wf X" for X
proof
  show "manager_wf X m" if "manager_created X m" for m
    using that by (auto simp: manager_created_def sm_new_def with_signing_key_def res_bind_Inr_iff manager_wf_def)
  have cleaned: "manager_wf X (cleanup_expired_sessions now m)" if "manager_wf X m" for now m
    using that by (simp add: manager_wf_def cleanup_sessions)
  show "manager_wf X m'" if "manager_wf X m" "manager_step X m m'" for m m'
    using that(2,1)
  proof cases
    case (removed i)
    with that(1) show ?thesis by (auto simp: manager_wf_def sessions.lookup_remove split: if_splits)
  qed (auto simp: validate_session_def Let_def intro: manager_wf_insert cleaned)
qed

text \<open>
  C0: the session table is well typed at all times. In every state a server can reach from a new manager by authenticating
  clients, validating, removing and cleaning up, each entry is filed under its own 16-byte identifier, is marked authenticated,
  expires 30 minutes after its creation, and belongs to a client key under which some challenge was signed and from which the
  session key was derived; and \<open>validate_session\<close> returns a session exactly when it is stored and has not expired
  at either reading of the clock, leaving no expired session behind.
\<close>

theorem session_table_wf:
  assumes "manager_created X m0" "(manager_step X)\<^sup>*\<^sup>* m0 m"
  shows "(sm_sessions m i = Some s \<longrightarrow> session_wf X (sm_server_signing_key m) i s) \<and>
    (fst (validate_session now later i m) = Inr s \<longleftrightarrow>
       sm_sessions m i = Some s \<and> unwrap_clock now < si_expires_at s \<and> unwrap_clock later < si_expires_at s) \<and>
    (sm_sessions (snd (validate_session now later i m)) i = Some s \<longrightarrow> \<not> si_is_expired now s)"
proof -
  have wf: "manager_wf X m" using assms by (rule manager.inv_reachable)
  then have "si_authenticated s" if "sm_sessions m i = Some s" using that by (simp add: manager_wf_def session_wf_def)
  with wf show ?thesis
    by (auto simp: manager_wf_def validate_session_def Let_def res_bind_Inr_iff ok_or_Inr_iff cleanup_sessions si_is_valid_def si_is_expired_def)
qed

section \<open>The honest handshake\<close>

lemma u32_le [simp]: "length (u32_to_le_bytes w) = 4" "u32_from_le_bytes (u32_to_le_bytes w) = w"
  by (simp_all add: u32_to_le_bytes_def u32_from_le_bytes_def)

lemma talkn_swap: "(talk ^^ n) c d \<Longrightarrow> (talk ^^ n) (prod.swap c) (prod.swap d)"
proof (induction n arbitrary: d)
  case (Suc n)
  from Suc.prems obtain e where "(talk ^^ n) c e" "talk e d" by (rule relpowp_Suc_E)
  with Suc.IH talk_swap show ?case by (blast intro: relpowp_Suc_I)
qed simp

lemma exchange:
  assumes "length b \<le> 8192"
  shows "(talk ^^ 4) ((write_frame b p, []), (read_frame w g err k, [])) ((p, []), (k b, []))"
proof -
  let ?l = "u32_to_le_bytes (word_of_nat (length b))" and ?r = "read_frame w g err k"
  let ?f = "\<lambda>r. case r of None \<Rightarrow> err [''Failed to read '' @ w, ''early eof''] | Some b \<Rightarrow> k b"
  have n: "unat (word_of_nat (length b) :: u32) = length b" using assms by (simp add: unat_of_nat)
  obtain F where F: "?r = Read 4 F" "F (Some ?l) = Read (length b) ?f"
    by (rule that [OF read_frame_def]) (use assms in \<open>simp add: n del: append_Cons\<close>)
  have "talk ((write_frame b p, []), (?r, [])) ((Write b p, []), (?r, ?l))"
    using talk.left_write [of ?l "Write b p" "[]" ?r "[]"] by (simp add: write_frame_def)
  moreover have "talk ((Write b p, []), (?r, ?l)) ((p, []), (?r, ?l @ b))" by (rule talk.left_write)
  moreover have "talk ((p, []), (?r, ?l @ b)) ((p, []), (Read (length b) ?f, b))"
    using talk.right_read [of 4 "?l @ b" "(p, [])" F] F by (simp del: append_Cons)
  moreover have "talk ((p, []), (Read (length b) ?f, b)) ((p, []), (k b, []))"
    using talk.right_read [of "length b" b "(p, [])" ?f] by (simp del: append_Cons)
  ultimately show ?thesis by (simp add: numeral_eq_Suc) blast
qed

lemma exchange_back:
  assumes "length b \<le> 8192"
  shows "(talk ^^ 4) ((read_frame w g err k, []), (write_frame b q, [])) ((k b, []), (q, []))"
  using talkn_swap [OF exchange [OF assms, of q w g err k]] by simp

text \<open>Decoding inverts encoding, as bincode documents.\<close>

definition codec_ok :: "'a codec \<Rightarrow> bool" where
  "codec_ok c \<longleftrightarrow> (\<forall>x b. fst c x = Inr b \<longrightarrow> snd c b = Inr x)"

definition auth_codec_ok :: "auth_codec \<Rightarrow> bool" where
  "auth_codec_ok B \<longleftrightarrow> codec_ok (au_message B) \<and> codec_ok (au_string B) \<and> codec_ok (au_challenge B) \<and> codec_ok (au_response B) \<and> codec_ok (au_confirm B)"

text \<open>The bytes of a message of the handshake.\<close>

definition message_bytes :: "auth_codec \<Rightarrow> AuthMessageType \<Rightarrow> 'a codec \<Rightarrow> 'a \<Rightarrow> bytes \<Rightarrow> bool" where
  "message_bytes B ty c x b \<longleftrightarrow> (\<exists>p. fst c x = Inr p \<and> fst (au_message B) \<lparr> am_msg_type = ty, am_payload = p \<rparr> = Inr b)"

definition fits :: "auth_codec \<Rightarrow> AuthMessageType \<Rightarrow> 'a codec \<Rightarrow> 'a \<Rightarrow> bool" where
  "fits B ty c x \<longleftrightarrow> (\<exists>b. message_bytes B ty c x b \<and> length b \<le> 8192)"

lemma message_sent: "message_bytes B ty c x b \<Longrightarrow> send_message B (am_new ty c x) err k = write_frame b k"
  by (auto simp: message_bytes_def send_message_def am_new_def print_message_def on_result_def)

lemma message_received:
  assumes "auth_codec_ok B" "codec_ok c" "message_bytes B ty c x b"
  shows "\<exists>p. (\<forall>w. parse_message B w b = Inr \<lparr> am_msg_type = ty, am_payload = p \<rparr>) \<and>
    deserialize_payload c \<lparr> am_msg_type = ty, am_payload = p \<rparr> = Inr x"
  using assms by (auto simp: message_bytes_def parse_message_def deserialize_payload_def auth_codec_ok_def codec_ok_def)

lemma auth_codec_parts:
  "auth_codec_ok B \<Longrightarrow> codec_ok (au_string B)" "auth_codec_ok B \<Longrightarrow> codec_ok (au_challenge B)"
  "auth_codec_ok B \<Longrightarrow> codec_ok (au_response B)" "auth_codec_ok B \<Longrightarrow> codec_ok (au_confirm B)"
  by (simp_all add: auth_codec_ok_def)

text \<open>Both sides derive one key: the Diffie-Hellman secrets agree and the public keys are mixed in sorted order.\<close>

lemma derive_session_key_commute:
  assumes "dh_ok X"
  shows "derive_session_key X a (ed_public X b) ch = derive_session_key X b (ed_public X a) ch"
proof -
  have "(if ord_class.lexordp p q then p @ q else q @ p) = (if ord_class.lexordp q p then q @ p else p @ q)" for p q :: bytes
    using lexordp_linear [of p q] lexordp_antisym [of p q] by auto
  then show ?thesis using assms by (simp add: derive_session_key_def dh_ok_def Let_def)
qed

lemma created_certificate:
  assumes "ed_ok X" "with_signing_key X (Some t0) name sk = Inr m0" "t0 \<le> t1" "t1 \<le> t0 + 365 * 24 * 3600"
  shows "cert_verify X (Some t1) (sm_server_certificate m0) = Inr () \<and> sc_public_key (sm_server_certificate m0) = ed_public X sk \<and>
    sm_server_signing_key m0 = sk"
  using assms by (auto simp: with_signing_key_def new_self_signed_def Let_def cert_verify_def ed_ok_simps)

text \<open>The challenge, response, session and confirmation of an undisturbed handshake.\<close>

definition honest_challenge :: "server_env \<Rightarrow> SessionManager \<Rightarrow> u64 \<Rightarrow> AuthChallenge" where
  "honest_challenge SV m issued = \<lparr> ac_challenge = sn_challenge SV, ac_server_cert = sm_server_certificate m, ac_timestamp = issued \<rparr>"

definition honest_response :: "'x crates_scheme \<Rightarrow> server_env \<Rightarrow> bytes \<Rightarrow> string option \<Rightarrow> u64 \<Rightarrow> ClientAuthResponse" where
  "honest_response X SV ck identity answered = \<lparr> cr_client_public_key = ed_public X ck, cr_challenge_signature = ed_sign X ck (sn_challenge SV),
     cr_client_identity = identity, cr_timestamp = answered \<rparr>"

definition honest_session :: "'x crates_scheme \<Rightarrow> server_env \<Rightarrow> bytes \<Rightarrow> string option \<Rightarrow> u64 \<Rightarrow> bytes \<Rightarrow> SessionInfo" where
  "honest_session X SV ck identity now key = \<lparr> si_session_id = sn_session_id SV, si_client_public_key = ed_public X ck, si_client_identity = identity,
     si_created_at = now, si_expires_at = now + SESSION_TIMEOUT, si_authenticated = True, si_session_key = key \<rparr>"

definition honest_result :: "server_env \<Rightarrow> SessionManager \<Rightarrow> bytes \<Rightarrow> ClientAuthResult" where
  "honest_result SV m key = \<lparr> cx_session_id = sn_session_id SV, cx_server_certificate = sm_server_certificate m, cx_session_key = key \<rparr>"

definition honest_confirm :: "'x crates_scheme \<Rightarrow> server_env \<Rightarrow> SessionManager \<Rightarrow> bytes \<Rightarrow> u64 \<Rightarrow> ServerAuthConfirm" where
  "honest_confirm X SV m ck now = \<lparr> sa_session_id = sn_session_id SV, sa_session_expires_at = now + SESSION_TIMEOUT,
     sa_session_signature = ed_sign X (sm_server_signing_key m)
       (str_bytes (session_data X (sn_session_id SV) (ed_public X ck) (now + SESSION_TIMEOUT))) \<rparr>"

lemma client_sends_hello:
  "message_bytes B ClientHello (au_string B) ''Sealedge Client v1.0'' b \<Longrightarrow> client_authenticate X B V ck identity pin =
     write_frame b (read_frame ''server challenge'' ''Server challenge'' (\<lambda>e. Ret (Inl e)) (client_challenged X B V ck identity pin))"
  unfolding client_authenticate_def Let_def by (rule message_sent)

lemma server_sends_challenge:
  assumes "auth_codec_ok B" "message_bytes B ClientHello (au_string B) x b" "sn_challenge_now V = Some issued"
    and "message_bytes B ServerChallenge (au_challenge B) (honest_challenge V m issued) c"
  shows "server_greeted X B V m b =
    write_frame c (read_frame ''client auth'' ''Client auth'' (\<lambda>e. Ret (Inl e, m)) (server_answer X B V m (honest_challenge V m issued)))"
proof -
  obtain p where "\<forall>w. parse_message B w b = Inr \<lparr> am_msg_type = ClientHello, am_payload = p \<rparr>"
    using message_received [OF assms(1) auth_codec_parts(1) [OF assms(1)] assms(2)] by blast
  moreover have "create_challenge (sn_challenge V) (sn_challenge_now V) m = Inr (honest_challenge V m issued)"
    using assms(3) by (simp add: create_challenge_def honest_challenge_def)
  ultimately show ?thesis by (simp add: server_greeted_def on_result_def message_sent [OF assms(4)])
qed

lemma client_answers:
  assumes "auth_codec_ok B" "message_bytes B ServerChallenge (au_challenge B) (honest_challenge SV m issued) b" "cn_now V = Some answered"
    and "message_bytes B ClientAuth (au_response B) (honest_response X SV ck identity answered) c"
    and "cert_verify X (cn_cert_now V) (sm_server_certificate m) = Inr ()" "sc_public_key (sm_server_certificate m) = pin"
  shows "client_challenged X B V ck identity pin b = write_frame c
    (read_frame ''server response'' ''Server response'' (\<lambda>e. Ret (Inl e)) (client_confirmed X B ck (honest_challenge SV m issued)))"
proof -
  obtain p where p: "\<forall>w. parse_message B w b = Inr \<lparr> am_msg_type = ServerChallenge, am_payload = p \<rparr>"
    "deserialize_payload (au_challenge B) \<lparr> am_msg_type = ServerChallenge, am_payload = p \<rparr> = Inr (honest_challenge SV m issued)"
    using message_received [OF assms(1) auth_codec_parts(2) [OF assms(1)] assms(2)] by blast
  have f: "ac_server_cert (honest_challenge SV m issued) = sm_server_certificate m" "ac_challenge (honest_challenge SV m issued) = sn_challenge SV"
    by (simp_all add: honest_challenge_def)
  show ?thesis using p assms(3,5,6) message_sent [OF assms(4)]
    by (simp add: client_challenged_def on_result_def f verify_pinned_def with_context_def honest_response_def Let_def)
qed

lemma server_confirms:
  assumes "auth_codec_ok B" "message_bytes B ClientAuth (au_response B) re b"
    and "authenticate_client X (sn_session_id V) (sn_now V) ch re m = Inr (s, m')"
    and "message_bytes B ServerConfirm (au_confirm B) (create_auth_confirm X m' s) c"
  shows "server_answer X B V m ch b = write_frame c (Ret (Inr s, m'))"
proof -
  obtain p where "\<forall>w. parse_message B w b = Inr \<lparr> am_msg_type = ClientAuth, am_payload = p \<rparr>"
    "deserialize_payload (au_response B) \<lparr> am_msg_type = ClientAuth, am_payload = p \<rparr> = Inr re"
    using message_received [OF assms(1) auth_codec_parts(3) [OF assms(1)] assms(2)] by blast
  then show ?thesis using assms(3) by (simp add: server_answer_def on_result_def message_sent [OF assms(4)])
qed

lemma honest_authenticated:
  assumes "ed_ok X" "derive_session_key X (sm_server_signing_key m) (ed_public X ck) (sn_challenge SV) = Inr key" "sn_now SV = Some now"
    and "answered \<le> now + FUTURE_TOLERANCE_SECS" "saturating_sub now answered \<le> PAST_TOLERANCE_SECS"
  shows "authenticate_client X (sn_session_id SV) (sn_now SV) (honest_challenge SV m issued) (honest_response X SV ck identity answered) m =
    Inr (honest_session X SV ck identity now key, insert_session (sn_session_id SV) (honest_session X SV ck identity now key) m)"
  using assms(2-) by (simp add: authenticate_client_def ed_ok_simps [OF assms(1)] honest_challenge_def honest_response_def honest_session_def Let_def not_less)

lemma client_accepts:
  assumes "ed_ok X" "auth_codec_ok B" "message_bytes B ServerConfirm (au_confirm B) (honest_confirm X SV m ck now) b"
    and "sc_public_key (sm_server_certificate m) = ed_public X (sm_server_signing_key m)"
    and "derive_session_key X ck (ed_public X (sm_server_signing_key m)) (sn_challenge SV) = Inr key"
  shows "client_confirmed X B ck (honest_challenge SV m issued) b = Ret (Inr (honest_result SV m key))"
proof -
  obtain p where "\<forall>w. parse_message B w b = Inr \<lparr> am_msg_type = ServerConfirm, am_payload = p \<rparr>"
    "deserialize_payload (au_confirm B) \<lparr> am_msg_type = ServerConfirm, am_payload = p \<rparr> = Inr (honest_confirm X SV m ck now)"
    using message_received [OF assms(2) auth_codec_parts(4) [OF assms(2)] assms(3)] by blast
  then show ?thesis using assms(4,5)
    by (simp add: client_confirmed_def on_result_def honest_challenge_def honest_confirm_def honest_result_def ed_ok_simps [OF assms(1)])
qed

text \<open>
  The circumstances of a handshake that is meant to succeed: the clocks of the two sides agree up to the tolerances, the shared
  secret is not the zero point, and the four messages fit.
\<close>

definition handshake_setting ::
  "'x dh_crates_scheme \<Rightarrow> auth_codec \<Rightarrow> client_env \<Rightarrow> server_env \<Rightarrow> SessionManager \<Rightarrow> bytes \<Rightarrow> string option \<Rightarrow> bool" where
  "handshake_setting X B CV SV m ck identity \<longleftrightarrow>
     (\<exists>issued answered now.
       sn_challenge_now SV = Some issued \<and> cn_now CV = Some answered \<and> sn_now SV = Some now \<and>
       answered \<le> now + FUTURE_TOLERANCE_SECS \<and> saturating_sub now answered \<le> PAST_TOLERANCE_SECS \<and>
       \<not> list_all (\<lambda>b. b = 0) (x25519_dh X (ed_scalar X (sm_server_signing_key m)) (ed_montgomery X (ed_public X ck))) \<and>
       fits B ClientHello (au_string B) ''Sealedge Client v1.0'' \<and> fits B ServerChallenge (au_challenge B) (honest_challenge SV m issued) \<and>
       fits B ClientAuth (au_response B) (honest_response X SV ck identity answered) \<and>
       fits B ServerConfirm (au_confirm B) (honest_confirm X SV m ck now))"

lemma honest_run:
  assumes "ed_ok X" "dh_ok X" "auth_codec_ok B" "cert_verify X (cn_cert_now CV) (sm_server_certificate m) = Inr ()"
    and cert: "sc_public_key (sm_server_certificate m) = ed_public X (sm_server_signing_key m)" and set: "handshake_setting X B CV SV m ck identity"
  obtains now key where "(talk ^^ 16)
    ((client_authenticate X B CV ck identity (ed_public X (sm_server_signing_key m)), []), (server_authenticate X B SV m, []))
    ((Ret (Inr (honest_result SV m key)), []),
     (Ret (Inr (honest_session X SV ck identity now key), insert_session (sn_session_id SV) (honest_session X SV ck identity now key) m), []))"
proof -
  from set obtain issued answered now b1 b2 b3 b4 where t: "sn_challenge_now SV = Some issued" "cn_now CV = Some answered" "sn_now SV = Some now"
      "answered \<le> now + FUTURE_TOLERANCE_SECS" "saturating_sub now answered \<le> PAST_TOLERANCE_SECS"
    and secret: "\<not> list_all (\<lambda>b. b = 0) (x25519_dh X (ed_scalar X (sm_server_signing_key m)) (ed_montgomery X (ed_public X ck)))"
    and b1: "message_bytes B ClientHello (au_string B) ''Sealedge Client v1.0'' b1" "length b1 \<le> 8192"
    and b2: "message_bytes B ServerChallenge (au_challenge B) (honest_challenge SV m issued) b2" "length b2 \<le> 8192"
    and b3: "message_bytes B ClientAuth (au_response B) (honest_response X SV ck identity answered) b3" "length b3 \<le> 8192"
    and b4: "message_bytes B ServerConfirm (au_confirm B) (honest_confirm X SV m ck now) b4" "length b4 \<le> 8192"
    unfolding handshake_setting_def fits_def by blast
  obtain key where key: "derive_session_key X (sm_server_signing_key m) (ed_public X ck) (sn_challenge SV) = Inr key"
    using secret by (auto simp: derive_session_key_def Let_def)
  then have key': "derive_session_key X ck (ed_public X (sm_server_signing_key m)) (sn_challenge SV) = Inr key"
    using derive_session_key_commute [OF assms(2)] by simp
  let ?s = "honest_session X SV ck identity now key"
  let ?m' = "insert_session (sn_session_id SV) ?s m"
  note auth = honest_authenticated [OF assms(1) key t(3-5)]
  have confirm: "create_auth_confirm X ?m' ?s = honest_confirm X SV m ck now"
    by (simp add: create_auth_confirm_def honest_session_def honest_confirm_def)
  note s1 = server_sends_challenge [OF assms(3) b1(1) t(1) b2(1), of X]
    and c2 = client_answers [OF assms(3) b2(1) t(2) b3(1) assms(4) cert]
    and s2 = server_confirms [OF assms(3) b3(1) auth b4(1) [folded confirm]]
    and c3 = client_accepts [OF assms(1,3) b4(1) cert key', of issued]
  note run = relpowp_trans [OF relpowp_trans [OF relpowp_trans [OF
      exchange [OF b1(2), of _ _ _ _ "server_greeted X B SV m", unfolded s1]
      exchange_back [OF b2(2), of _ _ _ "client_challenged X B CV ck identity (ed_public X (sm_server_signing_key m))", unfolded c2]]
      exchange [OF b3(2), of _ _ _ _ "server_answer X B SV m (honest_challenge SV m issued)", unfolded s2]]
      exchange_back [OF b4(2), of _ _ _ "client_confirmed X B ck (honest_challenge SV m issued)", unfolded c3]]
  have "16 = 4 + 4 + 4 + (4 :: nat)" by simp
  then show thesis by (intro that, unfold client_sends_hello [OF b1(1)] server_authenticate_def) (simp only:, rule run)
qed

text \<open>
  C0: the handshake always ends, with both sides in agreement. A client that pins the key of a server within the year of its
  certificate, with clocks that agree up to 5 seconds ahead and 300 behind, a non-zero shared secret and messages of at most 8192
  bytes, completes the handshake under every schedule of the reads and writes: each run can be continued to the same final state
  and has at most 16 steps. There both sides have returned one session identifier and one session key, and the session of that
  client is in the server's table.
\<close>

theorem handshake_completes:
  assumes "ed_ok X" "dh_ok X" "auth_codec_ok B"
    and created: "with_signing_key X (Some t0) name sk = Inr m0" and table: "m = m0\<lparr> sm_sessions := table \<rparr>"
    and cert: "cn_cert_now CV = Some t1" "t0 \<le> t1" "t1 \<le> t0 + 365 * 24 * 3600"
    and setting: "handshake_setting X B CV SV m ck identity"
  shows "\<exists>r s m'. cx_session_id r = si_session_id s \<and> cx_session_key r = si_session_key s \<and>
    sc_public_key (cx_server_certificate r) = ed_public X sk \<and> si_client_public_key s = ed_public X ck \<and>
    sm_sessions m' = table(si_session_id s \<mapsto> s) \<and>
    (\<forall>k c. (talk ^^ k) ((client_authenticate X B CV ck identity (ed_public X sk), []), (server_authenticate X B SV m, [])) c \<longrightarrow>
       k \<le> 16 \<and> (talk ^^ (16 - k)) c ((Ret (Inr r), []), (Ret (Inr s, m'), [])))"
proof -
  have c: "cert_verify X (cn_cert_now CV) (sm_server_certificate m) = Inr ()" "sc_public_key (sm_server_certificate m) = ed_public X (sm_server_signing_key m)"
    "sm_server_signing_key m = sk"
    using created_certificate [OF assms(1) created cert(2,3)] by (simp_all add: cert(1) table)
  obtain now key where run: "(talk ^^ 16)
    ((client_authenticate X B CV ck identity (ed_public X sk), []), (server_authenticate X B SV m, []))
    ((Ret (Inr (honest_result SV m key)), []),
     (Ret (Inr (honest_session X SV ck identity now key), insert_session (sn_session_id SV) (honest_session X SV ck identity now key) m), []))"
    by (rule honest_run [OF assms(1-3) c(1,2) setting, unfolded c(3)])
  have "\<nexists>d. talk ((Ret x, i), (Ret y, j)) d" for x :: "anyhow + ClientAuthResult" and y :: "(anyhow + SessionInfo) \<times> SessionManager" and i j
    by (simp add: talk_simps)
  note conversation.descents [OF run this]
  then show ?thesis using c
    by (intro exI [of _ "honest_result SV m key"] exI [of _ "honest_session X SV ck identity now key"]
        exI [of _ "insert_session (sn_session_id SV) (honest_session X SV ck identity now key) m"])
      (simp add: honest_result_def honest_session_def insert_session_def table)
qed

section \<open>Against any peer\<close>

lemma outcome_on_result: "outcome (on_result r err k) i = (case r of Inl e \<Rightarrow> outcome (err e) i | Inr x \<Rightarrow> outcome (k x) i)"
  by (simp add: on_result_def split: sum.split)

lemma outcome_send: "outcome (send_message B msg err k) i = (case res_bind msg (print_message B) of Inl e \<Rightarrow> outcome (err e) i | Inr _ \<Rightarrow> outcome k i)"
  by (simp add: send_message_def outcome_on_result write_frame_def split: sum.split)

lemma outcome_read_frame:
  "(\<exists>e j. outcome (read_frame w g err k) i = outcome (err e) j) \<or> (\<exists>b j. outcome (read_frame w g err k) i = outcome (k b) j)"
  by (simp add: read_frame_def Let_def del: append_Cons) blast

lemma client_confirmed_Inr:
  assumes "outcome (client_confirmed X B ck ch b) i = Inr r"
  shows "cx_server_certificate r = ac_server_cert ch \<and> (\<exists>key expires signature.
    ed_key X (sc_public_key (ac_server_cert ch)) = Inr key \<and>
    ed_verify X key (str_bytes (session_data X (cx_session_id r) (ed_public X ck) expires)) signature = Inr () \<and>
    derive_session_key X ck key (ac_challenge ch) = Inr (cx_session_key r))"
  using assms
  by (auto simp: client_confirmed_def outcome_on_result Let_def map_err_Inr_iff split: sum.splits AuthMessageType.splits) blast

lemma client_challenged_Inr:
  assumes "outcome (client_challenged X B V ck identity pin b) i = Inr r"
  obtains ch b' j where "outcome (client_confirmed X B ck ch b') j = Inr r" "cert_verify X (cn_cert_now V) (ac_server_cert ch) = Inr ()"
    "sc_public_key (ac_server_cert ch) = pin"
proof -
  from assms obtain ch j where ch: "cert_verify X (cn_cert_now V) (ac_server_cert ch) = Inr ()" "sc_public_key (ac_server_cert ch) = pin"
    and r: "outcome (read_frame ''server response'' ''Server response'' (\<lambda>e. Ret (Inl e)) (client_confirmed X B ck ch)) j = Inr r"
    by (auto simp: client_challenged_def outcome_on_result outcome_send Let_def verify_pinned_def with_context_def map_err_Inr_iff
        split: sum.splits if_splits)
  from outcome_read_frame [of "''server response''" "''Server response''" "\<lambda>e. Ret (Inl e)" "client_confirmed X B ck ch" j] r that ch
  show thesis by auto
qed

lemma client_outcome:
  assumes "outcome (client_authenticate X B V ck identity pin) i = Inr r"
  shows "cert_verify X (cn_cert_now V) (cx_server_certificate r) = Inr () \<and> sc_public_key (cx_server_certificate r) = pin \<and>
    (\<exists>key expires signature challenge. ed_key X pin = Inr key \<and>
       ed_verify X key (str_bytes (session_data X (cx_session_id r) (ed_public X ck) expires)) signature = Inr () \<and>
       derive_session_key X ck key challenge = Inr (cx_session_key r))"
proof -
  from assms have "outcome (read_frame ''server challenge'' ''Server challenge'' (\<lambda>e. Ret (Inl e)) (client_challenged X B V ck identity pin)) i = Inr r"
    by (auto simp: client_authenticate_def outcome_send Let_def split: sum.splits)
  with outcome_read_frame [of "''server challenge''" "''Server challenge''" "\<lambda>e. Ret (Inl e)" "client_challenged X B V ck identity pin" i]
  obtain b j where "outcome (client_challenged X B V ck identity pin b) j = Inr r" by auto
  then obtain ch b' j' where ch: "outcome (client_confirmed X B ck ch b') j' = Inr r" "cert_verify X (cn_cert_now V) (ac_server_cert ch) = Inr ()"
    "sc_public_key (ac_server_cert ch) = pin" by (rule client_challenged_Inr)
  with client_confirmed_Inr [OF ch(1)] show ?thesis by metis
qed

definition server_result ::
  "'x dh_crates_scheme \<Rightarrow> auth_codec \<Rightarrow> server_env \<Rightarrow> SessionManager \<Rightarrow> anyhow + SessionInfo \<Rightarrow> SessionManager \<Rightarrow> bool" where
  "server_result X B V m res m' \<longleftrightarrow> (case res of
       Inr s \<Rightarrow> m' = insert_session (sn_session_id V) s m \<and> si_session_id s = sn_session_id V \<and> sn_now V = Some (si_created_at s) \<and>
         (\<exists>key signature. ed_key X (si_client_public_key s) = Inr key \<and> ed_verify X key (sn_challenge V) signature = Inr () \<and>
            derive_session_key X (sm_server_signing_key m) key (sn_challenge V) = Inr (si_session_key s))
     | Inl e \<Rightarrow> m' = m \<or> (\<exists>s. m' = insert_session (sn_session_id V) s m \<and>
         (\<nexists>b. message_bytes B ServerConfirm (au_confirm B) (create_auth_confirm X m' s) b)))"

lemma unsendable: "res_bind (am_new ty c x) (print_message B) = Inl e \<Longrightarrow> \<nexists>b. message_bytes B ty c x b"
  by (auto simp: message_bytes_def am_new_def print_message_def)

lemma server_answer_outcome:
  assumes "ac_challenge ch = sn_challenge V" "outcome (server_answer X B V m ch b) i = (res, m')"
  shows "server_result X B V m res m'"
proof -
  consider e where "res = Inl e" "m' = m"
    | re s where "authenticate_client X (sn_session_id V) (sn_now V) ch re m = Inr (s, m')"
        "res = Inr s \<or> (\<exists>e. res = Inl e \<and> res_bind (am_new ServerConfirm (au_confirm B) (create_auth_confirm X m' s)) (print_message B) = Inl e)"
    using assms(2) by (auto simp: server_answer_def outcome_on_result outcome_send Let_def split: sum.splits if_splits prod.splits)
  then show ?thesis
  proof cases
    case (2 re s)
    from 2(2) authenticate_client_Inr [OF 2(1)] assms(1) unsendable show ?thesis by (fastforce simp: server_result_def)
  qed (simp add: server_result_def)
qed

lemma create_challenge_value: "create_challenge random now m = Inr ch \<Longrightarrow> ac_challenge ch = random"
  by (auto simp: create_challenge_def res_bind_Inr_iff)

lemma server_outcome:
  assumes "outcome (server_authenticate X B V m) i = (res, m')"
  shows "server_result X B V m res m'"
proof -
  have e: "server_result X B V m (Inl e) m" for e by (simp add: server_result_def)
  have "server_result X B V m res m'" if g: "outcome (server_greeted X B V m b) j = (res, m')" for b j
  proof -
    consider e where "res = Inl e" "m' = m" | ch j where "ac_challenge ch = sn_challenge V"
        "outcome (read_frame ''client auth'' ''Client auth'' (\<lambda>e. Ret (Inl e, m)) (server_answer X B V m ch)) j = (res, m')"
      using g by (auto simp: server_greeted_def outcome_on_result outcome_send Let_def dest: create_challenge_value split: sum.splits if_splits)
    then show ?thesis
    proof cases
      case (2 ch j)
      with outcome_read_frame [of "''client auth''" "''Client auth''" "\<lambda>e. Ret (Inl e, m)" "server_answer X B V m ch" j] e
      show ?thesis by (auto intro: server_answer_outcome)
    qed (use e in simp)
  qed
  with assms outcome_read_frame [of "''client hello''" "''Client hello''" "\<lambda>e. Ret (Inl e, m)" "server_greeted X B V m" i] e
  show ?thesis by (auto simp: server_authenticate_def)
qed

text \<open>
  C0: neither side can be deceived by its peer. Whatever process is at the other end: a client that accepts holds a valid certificate of the pinned key,
  a signature by that key of the session identifier together with the client's own public key, and a session key derived with the
  pinned key; a server that accepts has stored exactly the returned session, the client key has signed the challenge of this
  handshake, and the session key is derived from that client key and challenge; a server that refuses leaves its table as it was,
  or could not encode the confirmation.
\<close>

theorem handshake_authenticates:
  "(talk\<^sup>*\<^sup>* ((client_authenticate X B CV ck identity pin, []), (q, j)) ((Ret (Inr r), i'), d) \<longrightarrow>
     cert_verify X (cn_cert_now CV) (cx_server_certificate r) = Inr () \<and> sc_public_key (cx_server_certificate r) = pin \<and>
     (\<exists>key expires signature challenge. ed_key X pin = Inr key \<and>
        ed_verify X key (str_bytes (session_data X (cx_session_id r) (ed_public X ck) expires)) signature = Inr () \<and>
        derive_session_key X ck key challenge = Inr (cx_session_key r))) \<and>
   (talk\<^sup>*\<^sup>* ((p, i), (server_authenticate X B SV m, [])) (c, (Ret (res, m'), j')) \<longrightarrow> server_result X B SV m res m')"
proof (intro conjI impI)
  assume "talk\<^sup>*\<^sup>* ((client_authenticate X B CV ck identity pin, []), (q, j)) ((Ret (Inr r), i'), d)"
  from talks_outcome [OF this] obtain t where "outcome (client_authenticate X B CV ck identity pin) t = Inr r" by auto
  from client_outcome [OF this] show "cert_verify X (cn_cert_now CV) (cx_server_certificate r) = Inr ()" "sc_public_key (cx_server_certificate r) = pin"
    "\<exists>key expires signature challenge. ed_key X pin = Inr key \<and>
        ed_verify X key (str_bytes (session_data X (cx_session_id r) (ed_public X ck) expires)) signature = Inr () \<and>
        derive_session_key X ck key challenge = Inr (cx_session_key r)" by auto
next
  assume "talk\<^sup>*\<^sup>* ((p, i), (server_authenticate X B SV m, [])) (c, (Ret (res, m'), j'))"
  from talks_outcome [OF talks_swap [OF this, simplified]] obtain t where "outcome (server_authenticate X B SV m) t = (res, m')" by auto
  then show "server_result X B SV m res m'" by (rule server_outcome)
qed

text \<open>
  C0: the signature of the handshake is not tied to the handshake. A client signs the bare 32 challenge bytes that the server
  sends, and a chunk of an envelope is signed by a bare signature over the BLAKE3 digest of its manifest. A pinned server that
  sends the digest of a chunk manifest of its own making as its challenge gets back, in the response of the client, a signature
  with which every chunk of that manifest is accepted as signed by the client.
\<close>

theorem challenge_signature_reused:
  assumes "ed_ok X" "auth_codec_ok B" "env_codec_ok E"
    and challenge: "sn_challenge SV = blake3_hash X manifest" "message_bytes B ServerChallenge (au_challenge B) (honest_challenge SV m issued) b"
    and server: "cert_verify X (cn_cert_now CV) (sm_server_certificate m) = Inr ()" "sc_public_key (sm_server_certificate m) = pin"
    and client: "cn_now CV = Some answered" "fits B ClientAuth (au_response B) (honest_response X SV ck identity answered)"
  shows "\<exists>c response k. client_challenged X B CV ck identity pin b = write_frame c k \<and> message_bytes B ClientAuth (au_response B) response c \<and>
    (\<forall>e chunk. ev_verifying_key e = ed_public X ck \<and>
       bc_signed E \<lparr> sm_manifest = manifest, sm_sig = cr_challenge_signature response, sm_pubkey = ed_public X ck \<rparr> = Inr (nc_manifest chunk) \<longrightarrow>
       verify_chunk_signature X E e chunk)"
proof -
  let ?re = "honest_response X SV ck identity answered"
  from client(2) obtain c where c: "message_bytes B ClientAuth (au_response B) ?re c" by (auto simp: fits_def)
  have "verify_chunk_signature X E e chunk" if f: "ev_verifying_key e = ed_public X ck"
    "bc_signed E \<lparr> sm_manifest = manifest, sm_sig = cr_challenge_signature ?re, sm_pubkey = ed_public X ck \<rparr> = Inr (nc_manifest chunk)" for e chunk
  proof -
    let ?sm = "\<lparr> sm_manifest = manifest, sm_sig = cr_challenge_signature ?re, sm_pubkey = ed_public X ck \<rparr>"
    have "\<exists>b. bc_signed E ?sm = Inr b \<and> bc_signed_dec E b = Inr ?sm" using assms(3) unfolding env_codec_ok_def by blast
    with f(2) have "bc_signed_dec E (nc_manifest chunk) = Inr ?sm" by simp
    then show ?thesis using f(1) challenge(1) by (simp add: verify_chunk_signature_def honest_response_def ed_ok_simps [OF assms(1)] is_ok_simps)
  qed
  with client_answers [OF assms(2) challenge(2) client(1) c server] c show ?thesis by blast
qed

section \<open>Witnesses\<close>

definition cert_frame :: "ServerCertificate \<Rightarrow> bytes" where
  "cert_frame c = framed [str_bytes (sc_identity c), sc_public_key c, u64_to_be_bytes (sc_valid_from c), u64_to_be_bytes (sc_valid_until c), sc_signature c]"

definition cert_unframe :: "bytes \<Rightarrow> ServerCertificate" where
  "cert_unframe s = (case unframed s of [a, b, c, d, e] \<Rightarrow>
     \<lparr> sc_identity = bytes_str a, sc_public_key = b, sc_valid_from = u64_from_be_bytes c, sc_valid_until = u64_from_be_bytes d, sc_signature = e \<rparr>)"

definition type_byte :: "AuthMessageType \<Rightarrow> u8" where
  "type_byte t = (case t of ClientHello \<Rightarrow> 1 | ServerChallenge \<Rightarrow> 2 | ClientAuth \<Rightarrow> 3 | ServerConfirm \<Rightarrow> 4 | AuthError \<Rightarrow> 5)"

definition byte_type :: "u8 \<Rightarrow> AuthMessageType" where
  "byte_type b = (if b = 1 then ClientHello else if b = 2 then ServerChallenge else if b = 3 then ClientAuth else if b = 4 then ServerConfirm else AuthError)"

lemma byte_type_byte [simp]: "byte_type (type_byte t) = t"
  by (cases t) (simp_all add: type_byte_def byte_type_def)

definition sample_auth_codec :: auth_codec where
  "sample_auth_codec = \<lparr>
     au_message = (\<lambda>m. Inr (framed [[type_byte (am_msg_type m)], am_payload m]),
       \<lambda>s. case unframed s of [a, b] \<Rightarrow> Inr \<lparr> am_msg_type = byte_type (hd a), am_payload = b \<rparr> | _ \<Rightarrow> Inl ''io error: unexpected end of file''),
     au_string = (\<lambda>t. Inr (str_bytes t), \<lambda>s. Inr (bytes_str s)),
     au_challenge = (\<lambda>c. Inr (framed [ac_challenge c, cert_frame (ac_server_cert c), u64_to_be_bytes (ac_timestamp c)]),
       \<lambda>s. case unframed s of [a, b, c] \<Rightarrow> Inr \<lparr> ac_challenge = a, ac_server_cert = cert_unframe b, ac_timestamp = u64_from_be_bytes c \<rparr>
         | _ \<Rightarrow> Inl ''io error: unexpected end of file''),
     au_response = (\<lambda>r. Inr (framed [cr_client_public_key r, cr_challenge_signature r, framed (map str_bytes (opt_list (cr_client_identity r))), u64_to_be_bytes (cr_timestamp r)]),
       \<lambda>s. case unframed s of [a, b, c, d] \<Rightarrow> Inr \<lparr> cr_client_public_key = a, cr_challenge_signature = b,
             cr_client_identity = list_opt (map bytes_str (unframed c)), cr_timestamp = u64_from_be_bytes d \<rparr>
         | _ \<Rightarrow> Inl ''io error: unexpected end of file''),
     au_confirm = (\<lambda>c. Inr (framed [sa_session_id c, u64_to_be_bytes (sa_session_expires_at c), sa_session_signature c]),
       \<lambda>s. case unframed s of [a, b, c] \<Rightarrow> Inr \<lparr> sa_session_id = a, sa_session_expires_at = u64_from_be_bytes b, sa_session_signature = c \<rparr>
         | _ \<Rightarrow> Inl ''io error: unexpected end of file'') \<rparr>"

lemma cert_unframe_frame [simp]: "cert_unframe (cert_frame c) = c"
  by (simp add: cert_unframe_def cert_frame_def)

lemma sample_auth_codec_ok: "auth_codec_ok sample_auth_codec"
  by (simp add: auth_codec_ok_def codec_ok_def sample_auth_codec_def comp_def)

definition sample_client_env :: client_env where
  "sample_client_env = \<lparr> cn_cert_now = Some 20, cn_now = Some 20 \<rparr>"

definition sample_server_env :: server_env where
  "sample_server_env = \<lparr> sn_challenge = blake3_hash sample_dh [1], sn_challenge_now = Some 20, sn_session_id = replicate 16 7, sn_now = Some 20 \<rparr>"

definition sample_manager :: SessionManager where
  "sample_manager = (case with_signing_key sample_dh (Some 10) ''s'' (replicate 32 1) of Inr m \<Rightarrow> m)"

lemma sample_manager_created: "with_signing_key sample_dh (Some 10) ''s'' (replicate 32 1) = Inr sample_manager"
  by (simp add: sample_manager_def with_signing_key_def new_self_signed_def Let_def)

lemma sample_manager_fields:
  "sm_server_signing_key sample_manager = replicate 32 1" "sm_sessions sample_manager = Map.empty" "sc_identity (sm_server_certificate sample_manager) = ''s''"
  "length (sc_public_key (sm_server_certificate sample_manager)) = 32" "length (sc_signature (sm_server_certificate sample_manager)) = 64"
  by (simp_all add: sample_manager_def with_signing_key_def new_self_signed_def Let_def ed_ok_simps [OF sample_dh_oks(1)])

lemma sample_setting: "handshake_setting sample_dh sample_auth_codec sample_client_env sample_server_env sample_manager (replicate 32 3) None"
proof -
  have "length (blake3_hash sample_dh [1]) = 32" by (simp add: sample_dh_def crates.defs sample_crates_def sample_digest_def)
  then have "fits sample_auth_codec ClientHello (au_string sample_auth_codec) ''Sealedge Client v1.0''"
    "fits sample_auth_codec ServerChallenge (au_challenge sample_auth_codec) (honest_challenge sample_server_env sample_manager 20)"
    "fits sample_auth_codec ClientAuth (au_response sample_auth_codec) (honest_response sample_dh sample_server_env (replicate 32 3) None 20)"
    "fits sample_auth_codec ServerConfirm (au_confirm sample_auth_codec) (honest_confirm sample_dh sample_server_env sample_manager (replicate 32 3) 20)"
    by (simp_all add: fits_def message_bytes_def sample_auth_codec_def length_framed honest_challenge_def honest_response_def honest_confirm_def cert_frame_def
        sample_server_env_def sample_manager_fields ed_ok_simps [OF sample_dh_oks(1)] opt_list_def)
  moreover have "(20 :: u64) \<le> 20 + FUTURE_TOLERANCE_SECS" "saturating_sub 20 20 \<le> PAST_TOLERANCE_SECS"
    by (simp_all add: FUTURE_TOLERANCE_SECS_def PAST_TOLERANCE_SECS_def saturating_sub_def)
  ultimately show ?thesis unfolding handshake_setting_def sample_manager_fields using sample_secret
    by (intro exI [of _ 20]) (simp add: sample_client_env_def sample_server_env_def)
qed

lemma sample_certificate:
  "cert_verify sample_dh (cn_cert_now sample_client_env) (sm_server_certificate sample_manager) = Inr ()"
  "sc_public_key (sm_server_certificate sample_manager) = ed_public sample_dh (replicate 32 1)"
  using created_certificate [OF sample_dh_oks(1) sample_manager_created, of 20] by (simp_all add: sample_client_env_def)

theorem handshake_completes_witness:
  "\<exists>r s m'. cx_session_key r = si_session_key s \<and> sm_sessions m' = [si_session_id s \<mapsto> s] \<and>
     (talk ^^ 16) ((client_authenticate sample_dh sample_auth_codec sample_client_env (replicate 32 3) None (ed_public sample_dh (replicate 32 1)), []),
         (server_authenticate sample_dh sample_auth_codec sample_server_env sample_manager, []))
       ((Ret (Inr r), []), (Ret (Inr s, m'), []))"
proof -
  have "sample_manager = sample_manager\<lparr> sm_sessions := Map.empty \<rparr>" using sample_manager_fields(2) by simp
  from handshake_completes [OF sample_dh_oks(1,3) sample_auth_codec_ok sample_manager_created this, of sample_client_env 20, OF _ _ _ sample_setting]
  obtain r s m' where f: "cx_session_key r = si_session_key s" "sm_sessions m' = [si_session_id s \<mapsto> s]" and
    all: "\<forall>k c. (talk ^^ k) ((client_authenticate sample_dh sample_auth_codec sample_client_env (replicate 32 3) None (ed_public sample_dh (replicate 32 1)), []),
         (server_authenticate sample_dh sample_auth_codec sample_server_env sample_manager, [])) c \<longrightarrow>
       k \<le> 16 \<and> (talk ^^ (16 - k)) c ((Ret (Inr r), []), (Ret (Inr s, m'), []))"
    by (auto simp: sample_client_env_def)
  from all [rule_format, of 0] f show ?thesis by auto
qed

theorem handshake_authenticates_witness:
  "\<exists>r res m'. talk\<^sup>*\<^sup>* ((client_authenticate sample_dh sample_auth_codec sample_client_env (replicate 32 3) None (ed_public sample_dh (replicate 32 1)), []),
         (server_authenticate sample_dh sample_auth_codec sample_server_env sample_manager, [])) ((Ret (Inr r), []), (Ret (Inr res, m'), [])) \<and>
     sc_public_key (cx_server_certificate r) = ed_public sample_dh (replicate 32 1) \<and>
     server_result sample_dh sample_auth_codec sample_server_env sample_manager (Inr res) m'"
proof -
  obtain now key where "(talk ^^ 16)
    ((client_authenticate sample_dh sample_auth_codec sample_client_env (replicate 32 3) None (ed_public sample_dh (replicate 32 1)), []),
     (server_authenticate sample_dh sample_auth_codec sample_server_env sample_manager, []))
    ((Ret (Inr (honest_result sample_server_env sample_manager key)), []),
     (Ret (Inr (honest_session sample_dh sample_server_env (replicate 32 3) None now key),
        insert_session (sn_session_id sample_server_env) (honest_session sample_dh sample_server_env (replicate 32 3) None now key) sample_manager), []))"
    using honest_run [OF sample_dh_oks(1,3) sample_auth_codec_ok sample_certificate(1) _ sample_setting] sample_certificate(2)
    unfolding sample_manager_fields(1) by blast
  note run = relpowp_imp_rtranclp [OF this]
  from run handshake_authenticates [THEN conjunct1, THEN mp, OF run] handshake_authenticates [THEN conjunct2, THEN mp, OF run] show ?thesis by blast
qed

theorem challenge_signature_reused_witness:
  "\<exists>b c response k. client_challenged sample_dh sample_auth_codec sample_client_env (replicate 32 3) None (ed_public sample_dh (replicate 32 1)) b = write_frame c k \<and>
     message_bytes sample_auth_codec ClientAuth (au_response sample_auth_codec) response c \<and>
     (\<forall>e chunk. ev_verifying_key e = ed_public sample_dh (replicate 32 3) \<and>
       bc_signed sample_env_codec \<lparr> sm_manifest = [1], sm_sig = cr_challenge_signature response, sm_pubkey = ed_public sample_dh (replicate 32 3) \<rparr> =
         Inr (nc_manifest chunk) \<longrightarrow> verify_chunk_signature sample_dh sample_env_codec e chunk)"
proof -
  from sample_setting have f: "fits sample_auth_codec ServerChallenge (au_challenge sample_auth_codec) (honest_challenge sample_server_env sample_manager 20)"
    "fits sample_auth_codec ClientAuth (au_response sample_auth_codec) (honest_response sample_dh sample_server_env (replicate 32 3) None 20)"
    unfolding handshake_setting_def by (auto simp: sample_server_env_def sample_client_env_def)
  then obtain b where b: "message_bytes sample_auth_codec ServerChallenge (au_challenge sample_auth_codec) (honest_challenge sample_server_env sample_manager 20) b"
    by (auto simp: fits_def)
  have e: "sn_challenge sample_server_env = blake3_hash sample_dh [1]" "cn_now sample_client_env = Some 20"
    by (simp_all add: sample_server_env_def sample_client_env_def)
  from challenge_signature_reused [OF sample_dh_oks(1) sample_auth_codec_ok sample_env_codec_ok e(1) b sample_certificate e(2) f(2)]
  show ?thesis by blast
qed

theorem session_table_wf_witness:
  "\<exists>m s. (manager_step sample_dh)\<^sup>*\<^sup>* sample_manager m \<and> sm_sessions m (replicate 16 7) = Some s \<and>
     session_wf sample_dh (sm_server_signing_key m) (replicate 16 7) s \<and> fst (validate_session (Some 21) (Some 21) (replicate 16 7) m) = Inr s"
proof -
  obtain key where "derive_session_key sample_dh (sm_server_signing_key sample_manager) (ed_public sample_dh (replicate 32 3)) (sn_challenge sample_server_env) = Inr key"
    using sample_secret unfolding sample_manager_fields(1) by (simp add: derive_session_key_def Let_def)
  from honest_authenticated [OF sample_dh_oks(1) this, of 20 20 20 None]
  obtain s where s: "authenticate_client sample_dh (replicate 16 7) (Some 20) (honest_challenge sample_server_env sample_manager 20)
      (honest_response sample_dh sample_server_env (replicate 32 3) None 20) sample_manager = Inr (s, insert_session (replicate 16 7) s sample_manager)"
    by (simp add: sample_server_env_def saturating_sub_def FUTURE_TOLERANCE_SECS_def PAST_TOLERANCE_SECS_def)
  then have "manager_step sample_dh sample_manager (insert_session (replicate 16 7) s sample_manager)"
    by (rule manager_step.authenticated) (simp add: SESSION_ID_SIZE_def)
  then have r: "(manager_step sample_dh)\<^sup>*\<^sup>* sample_manager (insert_session (replicate 16 7) s sample_manager)" by (rule r_into_rtranclp)
  have c: "manager_created sample_dh sample_manager" using sample_manager_created unfolding manager_created_def by blast
  have "si_expires_at s = 1820" using authenticate_client_Inr [OF s] by (simp add: SESSION_TIMEOUT_def)
  then show ?thesis using session_table_wf [OF c r, of "replicate 16 7" s "Some 21" "Some 21"] r
    by (intro exI [of _ "insert_session (replicate 16 7) s sample_manager"] exI [of _ s]) (simp add: sessions.lookup_insert unwrap_clock_def)
qed

end
