(* ===== verification/Spec2Isabelle.thy ===== *)
theory Spec2Isabelle
  imports Archive Format Keywrap Chronicle Verify_Chronicle Seal_Wrap Seal_Device Witness Verify_Engine Platform_Keys Point_Attestation Platform_Service Receipts Auth
begin

text \<open>
  A verification of the sealedge workspace: the archive library \<^verbatim>\<open>crates/core\<close>, the command line tool and the platform.
\<close>

end
